(* ===== verification/Prelude.thy ===== *)
theory Prelude
  imports Main "HOL-Library.Word" "HOL-Library.Monad_Syntax" "HOL-Library.Signed_Division"
begin

text \<open>
  Shared vocabulary of the development.

  \<^item> Machine integers: \<open>u8\<close>, \<open>u16\<close>, \<open>u32\<close> are the unsigned types of
    \<open>src/student-distrib/types.h\<close>; arithmetic on them wraps as in C. C variables of type
    \<open>int\<close> that only hold small indices are HOL integers, so that a negative index is visible.
  \<^item> Arrays: a C array is a list; \<open>rd\<close> and \<open>wr\<close> are the element access of C with the
    bound written out. \<open>None\<close> always stands for an access outside the object.
  \<^item> \<open>cstr\<close> is the mathematical content of a C string: the bytes before the first NUL.
\<close>

unbundle bit_operations_syntax

type_synonym u8 = "8 word"
type_synonym u16 = "16 word"
type_synonym u32 = "32 word"

named_theorems buf_simps \<open>evaluation of array accesses\<close>
named_theorems cstr_simps \<open>facts about the content of C strings\<close>

subsection \<open>Arrays\<close>

definition rd :: "'a list \<Rightarrow> int \<Rightarrow> 'a option" where
  "rd xs i = (if 0 \<le> i \<and> i < int (length xs) then Some (xs ! nat i) else None)"

definition wr :: "'a list \<Rightarrow> int \<Rightarrow> 'a \<Rightarrow> 'a list option" where
  "wr xs i v = (if 0 \<le> i \<and> i < int (length xs) then Some (xs[nat i := v]) else None)"

lemma rd_in [buf_simps]: "0 \<le> i \<Longrightarrow> i < int (length xs) \<Longrightarrow> rd xs i = Some (xs ! nat i)"
  by (simp add: rd_def)

lemma wr_in [buf_simps]: "0 \<le> i \<Longrightarrow> i < int (length xs) \<Longrightarrow> wr xs i v = Some (xs[nat i := v])"
  by (simp add: wr_def)

lemma rd_nat [buf_simps]: "rd xs (int i) = (if i < length xs then Some (xs ! i) else None)"
  by (simp add: rd_def)

lemma wr_nat [buf_simps]: "wr xs (int i) v = (if i < length xs then Some (xs[i := v]) else None)"
  by (simp add: wr_def)

lemma rd_neg [buf_simps]: "i < 0 \<Longrightarrow> rd xs i = None"
  by (simp add: rd_def)

lemma wr_neg [buf_simps]: "i < 0 \<Longrightarrow> wr xs i v = None"
  by (simp add: wr_def)

lemma rd_Some_iff: "rd xs i = Some v \<longleftrightarrow> 0 \<le> i \<and> i < int (length xs) \<and> v = xs ! nat i"
  by (auto simp: rd_def)

lemma wr_Some_iff: "wr xs i v = Some ys \<longleftrightarrow> 0 \<le> i \<and> i < int (length xs) \<and> ys = xs[nat i := v]"
  by (auto simp: wr_def)

lemma wr_length: "wr xs i v = Some ys \<Longrightarrow> length ys = length xs"
  by (auto simp: wr_def split: if_splits)

lemma rd_after_wr: "wr xs i v = Some ys \<Longrightarrow> rd ys j = (if j = i then Some v else rd xs j)"
  by (auto simp: wr_def rd_def nth_list_update split: if_splits)

subsection \<open>Words\<close>

lemma u32_bound: "unat (w :: u32) < 2 ^ 32"
  using unsigned_less [where ?'a = nat and ?'b = 32, of w] by simp

lemma sint_small: "unat (w :: u32) < 2 ^ 31 \<Longrightarrow> sint w = int (unat w)"
proof -
  assume "unat w < 2 ^ 31"
  then have "uint w < 2 ^ 31" by transfer (simp add: nat_less_iff)
  then have "signed_take_bit 31 (uint w) = uint w"
    by (intro signed_take_bit_int_eq_self) (auto intro: order_trans [OF _ uint_ge_0])
  then show ?thesis by (simp add: sint_uint)
qed

lemma sint_word_of_int: "- (2 ^ 31) \<le> i \<Longrightarrow> i < 2 ^ 31 \<Longrightarrow> sint (word_of_int i :: u32) = i"
  by (simp add: sint_sbintrunc' signed_take_bit_int_eq_self)

lemma unat_word_of_int: "0 \<le> n \<Longrightarrow> n < 2 ^ 32 \<Longrightarrow> unat (word_of_int n :: u32) = nat n"
  by transfer (simp add: take_bit_int_eq_self)

subsection \<open>C division on small values\<close>

lemma smod_small: "0 \<le> a \<Longrightarrow> a < b \<Longrightarrow> (a :: int) smod b = a"
  by (cases "a = 0") (auto simp: signed_modulo_int_def)

lemma sdiv_small: "0 \<le> a \<Longrightarrow> a < b \<Longrightarrow> (a :: int) sdiv b = 0"
  by (auto simp: signed_divide_int_def)

subsection \<open>C strings\<close>

definition cstr :: "u8 list \<Rightarrow> u8 list" where
  "cstr s = takeWhile (\<lambda>c. c \<noteq> 0) s"

lemma cstr_Nil [cstr_simps]: "cstr [] = []"
  by (simp add: cstr_def)

lemma cstr_Cons [cstr_simps]: "cstr (c # s) = (if c = 0 then [] else c # cstr s)"
  by (simp add: cstr_def)

lemma cstr_append_zero [cstr_simps]: "0 \<notin> set s \<Longrightarrow> cstr (s @ 0 # t) = s"
  by (induction s) (auto simp: cstr_simps)

lemma cstr_no_zero: "0 \<notin> set (cstr s)"
  by (auto simp: cstr_def dest: set_takeWhileD)

lemma cstr_id: "0 \<notin> set s \<Longrightarrow> cstr s = s"
  by (induction s) (auto simp: cstr_simps)

lemma length_cstr_le: "length (cstr s) \<le> length s"
  by (simp add: cstr_def length_takeWhile_le)

lemma cstr_less_length: "0 \<in> set s \<Longrightarrow> length (cstr s) < length s"
  by (induction s) (auto simp: cstr_simps)

lemma cstr_decomp: "0 \<in> set s \<Longrightarrow> s = cstr s @ 0 # drop (Suc (length (cstr s))) s"
  by (induction s) (auto simp: cstr_simps)

text \<open>The bytes of a string literal, without the terminating NUL.\<close>

definition bytes :: "string \<Rightarrow> u8 list" where
  "bytes s = map of_char s"

lemma length_bytes [simp]: "length (bytes s) = length s"
  by (simp add: bytes_def)

subsection \<open>Lists as memory ranges\<close>

lemma take_Suc_update: "i < length xs \<Longrightarrow> take (Suc i) (xs[i := v]) = take i xs @ [v]"
  by (simp add: take_Suc_conv_app_nth take_update_cancel)

text \<open>
  Copying \<open>n\<close> bytes from offset \<open>src\<close> to offset \<open>dst\<close> of one buffer, for
  \<open>dst \<le> src\<close>, in ascending order.
\<close>

definition copy_down :: "'a list \<Rightarrow> nat \<Rightarrow> nat \<Rightarrow> nat \<Rightarrow> 'a list option" where
  "copy_down v dst src n =
     (if src + n \<le> length v \<and> dst \<le> src
      then Some (take dst v @ take n (drop src v) @ drop (dst + n) v) else None)"

lemma take_drop_rest: "take n (drop p c) @ drop (p + length (take n (drop p c))) c = drop p c"
proof -
  have "drop (p + length (take n (drop p c))) c = drop (length (take n (drop p c))) (drop p c)"
    by (simp only: drop_drop add.commute)
  also have "\<dots> = drop n (drop p c)" by (cases "n \<le> length (drop p c)") simp_all
  finally show ?thesis by (simp only: append_take_drop_id)
qed

lemma find_in_set: "find P xs = Some x \<Longrightarrow> x \<in> set xs \<and> P x"
  by (metis find_Some_iff nth_mem)

lemma set_tl_subset: "set (tl xs) \<subseteq> set xs"
  by (cases xs) auto

lemma set_dropWhile_subset: "set (dropWhile P xs) \<subseteq> set xs"
  by (auto dest: set_dropWhileD)

lemma append_drop_update:
  "length w < length xs \<Longrightarrow>
     (w @ drop (length w) xs)[length w := v] = w @ v # drop (Suc (length w)) xs"
  by (simp add: Cons_nth_drop_Suc [symmetric])

lemma append_update_here: "(xs @ y # ys)[length xs := v] = xs @ v # ys"
  by simp

lemma append_update_here': "n = length xs \<Longrightarrow> (xs @ y # ys)[n := v] = xs @ v # ys"
  by simp

end
