(* ===== verification/I8259.thy ===== *)
theory I8259
  imports Prelude
begin

text \<open>
  Port output, the interrupt flag and the interrupt controller driver
  (\<open>src/student-distrib/lib.h\<close>, \<open>src/student-distrib/i8259.c\<close>).

  The devices behind the ports are not part of the repository. An \<open>outb\<close> appends to a log of
  (port, byte) pairs, so that the order of port writes is part of the state; a byte read with
  \<open>inb\<close> is an argument of the operation that reads it. The records of the development extend
  one another, and every operation works on any extension of the record it needs.
\<close>

subsection \<open>Ports and the interrupt flag\<close>

record hw =
  out_log :: "(u16 \<times> u8) list"
  iflag :: bool

definition outb :: "u8 \<Rightarrow> u16 \<Rightarrow> 'a hw_scheme \<Rightarrow> 'a hw_scheme" where
  "outb data port s = s\<lparr>out_log := out_log s @ [(port, data)]\<rparr>"

definition cli :: "'a hw_scheme \<Rightarrow> 'a hw_scheme" where
  "cli s = s\<lparr>iflag := False\<rparr>"

definition sti :: "'a hw_scheme \<Rightarrow> 'a hw_scheme" where
  "sti s = s\<lparr>iflag := True\<rparr>"

text \<open>The byte most recently written to a port.\<close>

definition last_out :: "u16 \<Rightarrow> 'a hw_scheme \<Rightarrow> u8 option" where
  "last_out port s =
     (case filter (\<lambda>pd. fst pd = port) (rev (out_log s)) of [] \<Rightarrow> None | pd # _ \<Rightarrow> Some (snd pd))"

named_theorems port_simps \<open>port output and the interrupt flag\<close>

lemma last_out_outb [port_simps]:
  "last_out p (outb d q s) = (if p = q then Some d else last_out p s)"
  by (simp add: last_out_def outb_def)

lemma last_out_cli [port_simps]: "last_out p (cli s) = last_out p s"
  by (simp add: last_out_def cli_def)

lemma last_out_sti [port_simps]: "last_out p (sti s) = last_out p s"
  by (simp add: last_out_def sti_def)

lemma iflag_ports [port_simps]:
  "iflag (outb d p s) = iflag s" "\<not> iflag (cli s)" "iflag (sti s)"
  by (simp_all add: outb_def cli_def sti_def)

subsection \<open>The two controllers\<close>

record pic = hw +
  master_mask :: u8
  slave_mask :: u8

lemma mask_ports [port_simps]:
  "master_mask (outb d p s) = master_mask s" "slave_mask (outb d p s) = slave_mask s"
  "master_mask (cli s) = master_mask s" "slave_mask (cli s) = slave_mask s"
  "master_mask (sti s) = master_mask s" "slave_mask (sti s) = slave_mask s"
  by (simp_all add: outb_def cli_def sti_def)

lemma last_out_masks [port_simps]:
  "last_out p (s\<lparr>master_mask := m\<rparr>) = last_out p (s :: 'a pic_scheme)"
  "last_out p (s\<lparr>slave_mask := m\<rparr>) = last_out p (s :: 'a pic_scheme)"
  by (simp_all add: last_out_def)

abbreviation MASTER_8259_PORT :: u16 where "MASTER_8259_PORT \<equiv> 0x20"
abbreviation SLAVE_8259_PORT :: u16 where "SLAVE_8259_PORT \<equiv> 0xA0"
abbreviation EOI :: u8 where "EOI \<equiv> 0x60"

definition enable_irq :: "u32 \<Rightarrow> 'a pic_scheme \<Rightarrow> 'a pic_scheme" where
  "enable_irq irq_num s =
     (if irq_num \<le> 7
      then (let m = master_mask s AND NOT (push_bit (unat irq_num) 1)
            in outb m (MASTER_8259_PORT + 1) (s\<lparr>master_mask := m\<rparr>))
      else if 8 \<le> irq_num \<and> irq_num \<le> 15
      then (let m = slave_mask s AND NOT (push_bit (unat (irq_num - 8)) 1)
            in outb m (SLAVE_8259_PORT + 1) (s\<lparr>slave_mask := m\<rparr>))
      else s)"

definition disable_irq :: "u32 \<Rightarrow> 'a pic_scheme \<Rightarrow> 'a pic_scheme" where
  "disable_irq irq_num s =
     (if irq_num \<le> 7
      then (let m = master_mask s OR push_bit (unat irq_num) 1
            in outb m (MASTER_8259_PORT + 1) (s\<lparr>master_mask := m\<rparr>))
      else if 8 \<le> irq_num \<and> irq_num \<le> 15
      then (let m = slave_mask s OR push_bit (unat (irq_num - 8)) 1
            in outb m (SLAVE_8259_PORT + 1) (s\<lparr>slave_mask := m\<rparr>))
      else s)"

text \<open>The byte written is the low byte of \<open>EOI | irq_num\<close>.\<close>

definition send_eoi :: "u32 \<Rightarrow> 'a hw_scheme \<Rightarrow> 'a hw_scheme" where
  "send_eoi irq_num s =
     (if 8 \<le> irq_num \<and> irq_num \<le> 15
      then outb (EOI OR 2) MASTER_8259_PORT (outb (EOI OR ucast (irq_num - 8)) SLAVE_8259_PORT s)
      else outb (EOI OR ucast irq_num) MASTER_8259_PORT s)"

definition i8259_init :: "'a pic_scheme \<Rightarrow> 'a pic_scheme" where
  "i8259_init s =
     (let s = s\<lparr>master_mask := 0xFF, slave_mask := 0xFF\<rparr>;
          s = outb (master_mask s) (MASTER_8259_PORT + 1) s;
          s = outb (slave_mask s) (SLAVE_8259_PORT + 1) s;
          s = outb 0x11 MASTER_8259_PORT s;
          s = outb 0x20 (MASTER_8259_PORT + 1) s;
          s = outb 0x04 (MASTER_8259_PORT + 1) s;
          s = outb 0x01 (MASTER_8259_PORT + 1) s;
          s = outb 0x11 SLAVE_8259_PORT s;
          s = outb 0x28 (SLAVE_8259_PORT + 1) s;
          s = outb 0x02 (SLAVE_8259_PORT + 1) s;
          s = outb 0x01 (SLAVE_8259_PORT + 1) s
      in enable_irq 2 s)"

subsection \<open>What the masks say\<close>

text \<open>Whether the driver's masks let an interrupt line through.\<close>

definition irq_enabled :: "'a pic_scheme \<Rightarrow> nat \<Rightarrow> bool" where
  "irq_enabled s j = (if j < 8 then \<not> bit (master_mask s) j else \<not> bit (slave_mask s) (j - 8))"

lemma bit_clear_one: "j < 8 \<Longrightarrow> bit ((m :: u8) AND NOT (2 ^ i)) j \<longleftrightarrow> bit m j \<and> j \<noteq> i"
  by (auto simp: bit_simps)

lemma bit_set_one: "j < 8 \<Longrightarrow> bit ((m :: u8) OR 2 ^ i) j \<longleftrightarrow> bit m j \<or> j = i"
  by (auto simp: bit_simps)

lemma irq_range_cases:
  assumes "n < 16"
  obtains (master) "(of_nat n :: u32) \<le> 7" "unat (of_nat n :: u32) = n" "n < 8"
  | (slave) "\<not> (of_nat n :: u32) \<le> 7" "8 \<le> (of_nat n :: u32)" "(of_nat n :: u32) \<le> 15"
      "unat ((of_nat n :: u32) - 8) = n - 8" "8 \<le> n"
proof -
  have n: "unat (of_nat n :: u32) = n" using assms by (simp add: unat_of_nat)
  show ?thesis
  proof (cases "n < 8")
    case True
    then show ?thesis using n by (intro master) (simp_all add: word_le_nat_alt)
  next
    case False
    then have ge: "8 \<le> (of_nat n :: u32)" using n by (simp add: word_le_nat_alt)
    then have "unat ((of_nat n :: u32) - 8) = n - 8" using n by (simp add: unat_sub)
    then show ?thesis using False ge n assms by (intro slave) (simp_all add: word_le_nat_alt)
  qed
qed

lemma irq_enabled_enable:
  assumes "n < 16" "j < 16"
  shows "irq_enabled (enable_irq (of_nat n) s) j \<longleftrightarrow> j = n \<or> irq_enabled s j"
  using assms(1)
proof (cases n rule: irq_range_cases)
  case master
  then show ?thesis by (auto simp: enable_irq_def irq_enabled_def Let_def port_simps bit_clear_one)
next
  case slave
  then show ?thesis using assms(2)
    by (auto simp: enable_irq_def irq_enabled_def Let_def port_simps bit_clear_one)
qed

lemma irq_enabled_disable:
  assumes "n < 16" "j < 16"
  shows "irq_enabled (disable_irq (of_nat n) s) j \<longleftrightarrow> j \<noteq> n \<and> irq_enabled s j"
  using assms(1)
proof (cases n rule: irq_range_cases)
  case master
  then show ?thesis by (auto simp: disable_irq_def irq_enabled_def Let_def port_simps bit_set_one)
next
  case slave
  then show ?thesis using assms(2)
    by (auto simp: disable_irq_def irq_enabled_def Let_def port_simps bit_set_one)
qed

subsection \<open>Interface: an interrupt controller\<close>

text \<open>
  What the drivers rely on: enabling a line lets exactly that line through in addition. A driver
  start-up that enables a list of lines then enables exactly those.
\<close>

locale irq_controller =
  fixes enable :: "nat \<Rightarrow> 's \<Rightarrow> 's"
    and disable :: "nat \<Rightarrow> 's \<Rightarrow> 's"
    and enabled :: "'s \<Rightarrow> nat \<Rightarrow> bool"
    and lines :: nat
  assumes enable_law: "n < lines \<Longrightarrow> j < lines \<Longrightarrow> enabled (enable n s) j \<longleftrightarrow> j = n \<or> enabled s j"
    and disable_law: "n < lines \<Longrightarrow> j < lines \<Longrightarrow> enabled (disable n s) j \<longleftrightarrow> j \<noteq> n \<and> enabled s j"
begin

lemma enabled_fold:
  "\<forall>n \<in> set ns. n < lines \<Longrightarrow> j < lines \<Longrightarrow>
     enabled (fold enable ns s) j \<longleftrightarrow> j \<in> set ns \<or> enabled s j"
  by (induction ns arbitrary: s) (auto simp: enable_law)

lemma disable_enable:
  "n < lines \<Longrightarrow> \<not> enabled s n \<Longrightarrow> j < lines \<Longrightarrow>
     enabled (disable n (enable n s)) j \<longleftrightarrow> enabled s j"
  by (auto simp: enable_law disable_law)

end

interpretation i8259: irq_controller
  "\<lambda>n. enable_irq (of_nat n)" "\<lambda>n. disable_irq (of_nat n)" irq_enabled 16
  by unfold_locales (rule irq_enabled_enable irq_enabled_disable; assumption)+

lemma irq_enabled_init:
  "j < 16 \<Longrightarrow> irq_enabled (i8259_init s) j \<longleftrightarrow> j = 2"
proof -
  assume j: "j < 16"
  have init: "i8259_init s = enable_irq (of_nat 2) t" if "t = outb 1 0xA1 (outb 2 0xA1 (outb 0x28 0xA1
      (outb 0x11 0xA0 (outb 1 0x21 (outb 4 0x21 (outb 0x20 0x21 (outb 0x11 0x20
      (outb 0xFF 0xA1 (outb 0xFF 0x21 (s\<lparr>master_mask := 0xFF, slave_mask := 0xFF\<rparr>))))))))))" for t
    using that by (simp add: i8259_init_def Let_def port_simps)
  have all: "\<not> irq_enabled (t :: 'a pic_scheme) j" if "master_mask t = 0xFF" "slave_mask t = 0xFF" for t
  proof -
    have "bit (0xFF :: u8) k" if "k < 8" for k
    proof -
      have "(0xFF :: u8) = - 1" by simp
      then show ?thesis using that by (simp only: bit_minus_1_iff) simp
    qed
    then show ?thesis using that j by (auto simp: irq_enabled_def)
  qed
  show ?thesis
    by (subst init [OF refl], subst irq_enabled_enable) (auto simp: j all port_simps)
qed

subsection \<open>Property\<close>

lemma last_out_enable:
  assumes "n < 16"
  shows "last_out (if n < 8 then MASTER_8259_PORT + 1 else SLAVE_8259_PORT + 1) (enable_irq (of_nat n) s) =
    Some (if n < 8 then master_mask (enable_irq (of_nat n) s) else slave_mask (enable_irq (of_nat n) s))"
  using assms by (cases rule: irq_range_cases) (simp_all add: enable_irq_def port_simps Let_def)

text \<open>
  After \<open>i8259_init\<close> and any sequence of \<open>enable_irq\<close> calls the unmasked lines are the
  enabled ones and the cascade line 2, and the mask last written to the controller of an enabled line
  is the mask the kernel keeps.
\<close>

lemma i8259_enabled_lines:
  assumes "\<forall>n \<in> set ns. n < 16" "n < 16" "j < 16"
    and "s' = enable_irq (of_nat n) (fold (\<lambda>n. enable_irq (of_nat n)) ns (i8259_init s))"
  shows "(irq_enabled s' j \<longleftrightarrow> j = 2 \<or> j = n \<or> j \<in> set ns) \<and>
    last_out (if n < 8 then MASTER_8259_PORT + 1 else SLAVE_8259_PORT + 1) s' =
      Some (if n < 8 then master_mask s' else slave_mask s')"
  unfolding assms(4)
  using i8259.enabled_fold [OF assms(1,3), of "i8259_init s"] irq_enabled_init [OF assms(3), of s]
    irq_enabled_enable [OF assms(2,3)] last_out_enable [OF assms(2)] by auto

end
