(* ===== verification/Screen.thy ===== *)
theory Screen
  imports Prelude
begin

text \<open>
  Text screens. The kernel has four: the visible one (\<open>putc\<close> on video memory) and the saved
  buffers of the three terminals (\<open>non_display_putc\<close>), both in
  \<open>src/student-distrib/lib.c\<close>. This theory holds the cell stores they share, the abstract screen
  both implement, and the locale that states the contract and proves the consequences once.
\<close>

abbreviation NUM_COLS :: int where "NUM_COLS \<equiv> 80"
abbreviation NUM_ROWS :: int where "NUM_ROWS \<equiv> 25"
abbreviation ATTRIB :: u8 where "ATTRIB \<equiv> 7"
abbreviation NEWLINE :: u8 where "NEWLINE \<equiv> 10"
abbreviation CR :: u8 where "CR \<equiv> 13"

subsection \<open>Cells\<close>

text \<open>The two stores \<open>video_mem[k << 1] = c\<close> and \<open>video_mem[(k << 1) + 1] = ATTRIB\<close>.\<close>

definition put_cell :: "int \<Rightarrow> u8 \<Rightarrow> u8 list \<Rightarrow> u8 list option" where
  "put_cell k c v = do { v1 \<leftarrow> wr v (2 * k) c; wr v1 (2 * k + 1) ATTRIB }"

text \<open>A loop that stores the same character in \<open>n\<close> cells from cell \<open>k\<close> on.\<close>

fun put_cells :: "int \<Rightarrow> nat \<Rightarrow> u8 \<Rightarrow> u8 list \<Rightarrow> u8 list option" where
  "put_cells k 0 c v = Some v"
| "put_cells k (Suc n) c v =
     (case put_cell k c v of None \<Rightarrow> None | Some v' \<Rightarrow> put_cells (k + 1) n c v')"

subsection \<open>Closed forms of the cell loops\<close>

definition cell_run :: "u8 \<Rightarrow> nat \<Rightarrow> u8 list" where
  "cell_run c n = concat (replicate n [c, ATTRIB])"

lemma length_cell_run [simp]: "length (cell_run c n) = 2 * n"
  by (induction n) (auto simp: cell_run_def)

lemma cell_run_simps: "cell_run c 0 = []" "cell_run c (Suc n) = c # ATTRIB # cell_run c n"
  by (simp_all add: cell_run_def)

lemma put_cell_eq:
  assumes "0 \<le> k" "2 * k + 1 < int (length v)"
  shows "put_cell k c v = Some (v[2 * nat k := c, Suc (2 * nat k) := ATTRIB])"
proof -
  have "nat (2 * k) = 2 * nat k" "nat (2 * k + 1) = Suc (2 * nat k)" using assms by simp_all
  then show ?thesis using assms by (simp add: put_cell_def wr_def)
qed

lemma put_cells_eq:
  "2 * (k + n) \<le> length v \<Longrightarrow>
     put_cells (int k) n c v = Some (take (2 * k) v @ cell_run c n @ drop (2 * (k + n)) v)"
proof (induction n arbitrary: k v)
  case (Suc n)
  let ?v = "v[2 * k := c, Suc (2 * k) := ATTRIB]"
  have "put_cell (int k) c v = Some ?v"
    using Suc.prems by (subst put_cell_eq) auto
  moreover have "put_cells (int (Suc k)) n c ?v =
      Some (take (2 * Suc k) ?v @ cell_run c n @ drop (2 * (Suc k + n)) ?v)"
    using Suc.prems by (intro Suc.IH) simp
  moreover have "take (2 * Suc k) ?v = take (2 * k) v @ [c, ATTRIB]"
    using Suc.prems by (simp add: take_Suc_conv_app_nth take_update_cancel nth_list_update)
  ultimately show ?case by (simp add: cell_run_simps add.commute)
qed (simp add: cell_run_simps)

subsection \<open>The abstract screen\<close>

text \<open>Cursor column, cursor row and the 4000 bytes of the cells.\<close>

type_synonym scr = "int \<times> int \<times> u8 list"

fun scr_ok :: "scr \<Rightarrow> bool" where
  "scr_ok (x, y, v) \<longleftrightarrow> 0 \<le> x \<and> x < NUM_COLS \<and> 0 \<le> y \<and> y < NUM_ROWS \<and> length v = 4000"

text \<open>A newline moves to the next row; on the last row everything moves up and a blank row follows.\<close>

fun scr_newline :: "scr \<Rightarrow> scr" where
  "scr_newline (x, y, v) =
     (if y = NUM_ROWS - 1 then (0, y, drop 160 v @ cell_run 0 80) else (0, y + 1, v))"

fun scr_putc :: "u8 \<Rightarrow> scr \<Rightarrow> scr" where
  "scr_putc c (x, y, v) =
     (if c = NEWLINE \<or> c = CR then scr_newline (x, y, v)
      else (let k = 2 * nat (NUM_COLS * y + x);
                v' = v[k := c, Suc k := ATTRIB]
            in if x = NUM_COLS - 1 then scr_newline (x, y, v') else (x + 1, y, v')))"

lemma scr_ok_putc: "scr_ok p \<Longrightarrow> scr_ok (scr_putc c p)"
  by (cases p) (auto simp: Let_def)

lemma scroll_cells:
  assumes "length v = 4000"
  shows "copy_down v 0 160 3840 = Some (drop 160 v @ drop 3840 v)"
    and "put_cells 1920 80 0 (drop 160 v @ drop 3840 v) = Some (drop 160 v @ cell_run 0 80)"
proof -
  show "copy_down v 0 160 3840 = Some (drop 160 v @ drop 3840 v)"
    using assms by (simp add: copy_down_def)
  show "put_cells 1920 80 0 (drop 160 v @ drop 3840 v) = Some (drop 160 v @ cell_run 0 80)"
    using put_cells_eq [of 1920 80 "drop 160 v @ drop 3840 v" 0] assms by simp
qed

subsection \<open>Interface: a text screen\<close>

text \<open>Putting a list of characters one after the other.\<close>

fun put_all :: "(u8 \<Rightarrow> 's \<Rightarrow> 's option) \<Rightarrow> u8 list \<Rightarrow> 's \<Rightarrow> 's option" where
  "put_all put [] s = Some s"
| "put_all put (c # cs) s = (case put c s of None \<Rightarrow> None | Some s' \<Rightarrow> put_all put cs s')"

locale text_screen =
  fixes put :: "u8 \<Rightarrow> 's \<Rightarrow> 's option"
    and view :: "'s \<Rightarrow> scr"
  assumes put_law: "scr_ok (view s) \<Longrightarrow> \<exists>s'. put c s = Some s' \<and> view s' = scr_putc c (view s)"
begin

lemma put_ok: "scr_ok (view s) \<Longrightarrow> \<exists>s'. put c s = Some s' \<and> scr_ok (view s')"
  using put_law [of s c] scr_ok_putc by fastforce

text \<open>Writing never leaves the screen memory and shows the characters in order.\<close>

lemma put_all_view:
  "scr_ok (view s) \<Longrightarrow>
     \<exists>s'. put_all put cs s = Some s' \<and> view s' = fold scr_putc cs (view s) \<and> scr_ok (view s')"
proof (induction cs arbitrary: s)
  case (Cons c cs)
  obtain s1 where s1: "put c s = Some s1" "view s1 = scr_putc c (view s)"
    using put_law [OF Cons.prems, of c] by blast
  then have "scr_ok (view s1)" using scr_ok_putc [OF Cons.prems, of c] by simp
  from Cons.IH [OF this] s1 show ?case by simp
qed simp

end

end
