(* ===== verification/Console.thy ===== *)
theory Console
  imports I8259 Screen
begin

text \<open>
  The text console of \<open>src/student-distrib/lib.c\<close>: the cursor, \<open>scroll\<close>, \<open>clear\<close>,
  \<open>putc\<close> and \<open>print_backspace\<close>. The video memory is the list of the 4000 bytes of an
  80 by 25 text screen (character and attribute of each cell); a write outside it is \<open>None\<close>,
  which for a negative offset is the page below video memory that \<open>init_paging\<close> leaves
  unmapped. The console is shown to be a text screen in the sense of the theory \<open>Screen\<close>.
\<close>

record console = pic +
  screen_x :: int
  screen_y :: int
  video_mem :: "u8 list"

subsection \<open>The console operations\<close>

definition move_cursor :: "'a console_scheme \<Rightarrow> 'a console_scheme" where
  "move_cursor s =
     (let pos = (word_of_int (screen_y s * NUM_COLS + screen_x s) :: u16)
      in outb (ucast (drop_bit 8 pos AND 0xFF)) 0x3D5
           (outb 0x0E 0x3D4
             (outb (ucast (pos AND 0xFF)) 0x3D5
               (outb 0x0F 0x3D4 s))))"

definition get_x :: "'a console_scheme \<Rightarrow> int" where "get_x s = screen_x s"

definition get_y :: "'a console_scheme \<Rightarrow> int" where "get_y s = screen_y s"

definition set_x :: "int \<Rightarrow> 'a console_scheme \<Rightarrow> 'a console_scheme" where
  "set_x x s = move_cursor (s\<lparr>screen_x := x\<rparr>)"

definition set_y :: "int \<Rightarrow> 'a console_scheme \<Rightarrow> 'a console_scheme" where
  "set_y y s = move_cursor (s\<lparr>screen_y := y\<rparr>)"

definition scroll :: "'a console_scheme \<Rightarrow> 'a console_scheme option" where
  "scroll s =
     (let s = s\<lparr>screen_x := 0, screen_y := NUM_ROWS - 1\<rparr>
      in do {
        v1 \<leftarrow> copy_down (video_mem s) 0 160 3840;
        v2 \<leftarrow> put_cells (NUM_COLS * (NUM_ROWS - 1)) 80 0 v1;
        Some (move_cursor (s\<lparr>video_mem := v2\<rparr>))
      })"

definition clear :: "'a console_scheme \<Rightarrow> 'a console_scheme option" where
  "clear s = do {
     v \<leftarrow> put_cells 0 2000 32 (video_mem s);
     Some (move_cursor (s\<lparr>video_mem := v, screen_x := 0, screen_y := 0\<rparr>))
   }"

text \<open>The newline branch of \<open>putc\<close>.\<close>

definition putc_newline :: "'a console_scheme \<Rightarrow> 'a console_scheme option" where
  "putc_newline s =
     (let s1 = s\<lparr>screen_y := screen_y s + 1\<rparr>
      in do {
        s2 \<leftarrow> (if NUM_ROWS \<le> screen_y s1 then scroll s1 else Some s1);
        Some (move_cursor (s2\<lparr>screen_x := 0\<rparr>))
      })"

text \<open>
  At the end of a row the code calls \<open>printf("%c", '\n')\<close>, which is \<open>putc('\n')\<close>
  (see \<open>printf_newline\<close> in the theory of \<open>printf\<close>).
\<close>

definition putc :: "u8 \<Rightarrow> 'a console_scheme \<Rightarrow> 'a console_scheme option" where
  "putc c s =
     (if c = NEWLINE \<or> c = CR then putc_newline s
      else do {
        v \<leftarrow> put_cell (NUM_COLS * screen_y s + screen_x s) c (video_mem s);
        let s1 = s\<lparr>video_mem := v, screen_x := screen_x s + 1\<rparr>;
        if screen_x s1 = NUM_COLS then putc_newline (move_cursor s1)
        else Some (move_cursor
          (s1\<lparr>screen_y := (screen_y s1 + screen_x s1 sdiv NUM_COLS) smod NUM_ROWS\<rparr>))
      })"

definition print_backspace :: "'a console_scheme \<Rightarrow> 'a console_scheme option" where
  "print_backspace s =
     (let s1 = s\<lparr>screen_x := screen_x s - 1\<rparr>;
          s2 = (if screen_x s1 < 0
                then move_cursor (s1\<lparr>screen_y := screen_y s1 - 1, screen_x := NUM_COLS - 1\<rparr>)
                else s1)
      in do {
        v \<leftarrow> put_cell (NUM_COLS * screen_y s2 + screen_x s2) 0 (video_mem s2);
        Some (move_cursor (s2\<lparr>video_mem := v\<rparr>))
      })"

text \<open>\<open>test_interrupts\<close> increments the character byte of every cell.\<close>

fun test_interrupts_loop :: "nat \<Rightarrow> nat \<Rightarrow> u8 list \<Rightarrow> u8 list option" where
  "test_interrupts_loop i 0 v = Some v"
| "test_interrupts_loop i (Suc n) v =
     (case rd v (int (2 * i)) of
        None \<Rightarrow> None
      | Some c \<Rightarrow> (case wr v (int (2 * i)) (c + 1) of
                    None \<Rightarrow> None
                  | Some v' \<Rightarrow> test_interrupts_loop (Suc i) n v'))"

definition test_interrupts :: "'a console_scheme \<Rightarrow> 'a console_scheme option" where
  "test_interrupts s = map_option (\<lambda>v. s\<lparr>video_mem := v\<rparr>) (test_interrupts_loop 0 2000 (video_mem s))"

subsection \<open>Projections\<close>

named_theorems con_simps \<open>what the console operations leave unchanged\<close>

lemma move_cursor_sel [con_simps]:
  "screen_x (move_cursor s) = screen_x s" "screen_y (move_cursor s) = screen_y s"
  "video_mem (move_cursor s) = video_mem s" "iflag (move_cursor s) = iflag s"
  by (simp_all add: move_cursor_def outb_def Let_def)

lemma move_cursor_more [con_simps]: "console.more (move_cursor s) = console.more s"
  by (simp add: move_cursor_def outb_def Let_def)

subsection \<open>The console is a text screen\<close>

definition con_view :: "'a console_scheme \<Rightarrow> scr" where
  "con_view s = (screen_x s, screen_y s, video_mem s)"

abbreviation con_ok :: "'a console_scheme \<Rightarrow> bool" where
  "con_ok s \<equiv> scr_ok (con_view s)"

lemma con_view_move_cursor [con_simps]: "con_view (move_cursor s) = con_view s"
  by (simp add: con_view_def con_simps)

lemma con_view_eq: "con_view s = (x, y, v) \<longleftrightarrow> screen_x s = x \<and> screen_y s = y \<and> video_mem s = v"
  by (auto simp: con_view_def)

lemma scroll_view:
  "length (video_mem s) = 4000 \<Longrightarrow>
     \<exists>s'. scroll s = Some s' \<and> con_view s' = (0, 24, drop 160 (video_mem s) @ cell_run 0 80)"
  using scroll_cells [of "video_mem s"] by (simp add: scroll_def con_view_def con_simps)

lemma putc_newline_view:
  assumes "con_view s = (x, y, v)" "0 \<le> y" "y < 25" "length v = 4000"
  shows "\<exists>s'. putc_newline s = Some s' \<and> con_view s' = scr_newline (x, y, v)"
proof (cases "y = 24")
  case True
  let ?s = "s\<lparr>screen_y := 25\<rparr>"
  obtain s2 where "scroll ?s = Some s2" "con_view s2 = (0, 24, drop 160 v @ cell_run 0 80)"
    using scroll_view [of ?s] assms by (auto simp: con_view_def)
  with True assms show ?thesis
    by (simp add: putc_newline_def con_view_def con_simps)
next
  case False
  with assms show ?thesis by (simp add: putc_newline_def con_view_def con_simps)
qed

lemma putc_view:
  assumes "con_ok s"
  shows "\<exists>s'. putc c s = Some s' \<and> con_view s' = scr_putc c (con_view s)"
proof -
  obtain x y v where view: "con_view s = (x, y, v)" by (cases "con_view s")
  with assms have r: "0 \<le> x" "x < 80" "0 \<le> y" "y < 25" "length v = 4000" by auto
  let ?k = "80 * y + x"
  let ?v = "v[2 * nat ?k := c, Suc (2 * nat ?k) := ATTRIB]"
  let ?s = "s\<lparr>video_mem := ?v, screen_x := x + 1\<rparr>"
  have cell: "put_cell ?k c v = Some ?v" using r by (intro put_cell_eq) auto
  have nl: "\<exists>s'. putc_newline (move_cursor ?s) = Some s' \<and> con_view s' = scr_newline (x + 1, y, ?v)"
    using r view by (intro putc_newline_view) (auto simp: con_view_def con_simps)
  show ?thesis
  proof (cases "c = NEWLINE \<or> c = CR")
    case True
    with putc_newline_view [OF view] r view show ?thesis by (auto simp: putc_def)
  next
    case False
    with view cell nl r show ?thesis
      by (auto simp: putc_def con_view_def con_simps Let_def sdiv_small smod_small)
  qed
qed

interpretation display: text_screen putc con_view
  by unfold_locales (rule putc_view)

subsection \<open>What a console operation may change\<close>

definition con_erase :: "'a console_scheme \<Rightarrow> 'a console_scheme" where
  "con_erase s = s\<lparr>out_log := [], screen_x := 0, screen_y := 0, video_mem := []\<rparr>"

definition con_frame :: "'a console_scheme \<Rightarrow> 'a console_scheme \<Rightarrow> bool" where
  "con_frame s s' \<longleftrightarrow> con_erase s' = con_erase s"

lemma con_frame_refl [simp]: "con_frame s s"
  by (simp add: con_frame_def)

lemma con_frame_trans: "con_frame s t \<Longrightarrow> con_frame t u \<Longrightarrow> con_frame s u"
  by (simp add: con_frame_def)

lemma con_frame_move_cursor: "con_frame s (move_cursor s)"
  by (simp add: con_frame_def con_erase_def move_cursor_def outb_def Let_def)

lemma con_frame_upd:
  "con_frame s (s\<lparr>screen_x := x\<rparr>)" "con_frame s (s\<lparr>screen_y := y\<rparr>)"
  "con_frame s (s\<lparr>video_mem := v\<rparr>)"
  by (simp_all add: con_frame_def con_erase_def)

text \<open>A framed step is an update of the four console fields.\<close>

lemma con_frame_elim:
  assumes "con_frame s s'"
  obtains l x y v where "s' = s\<lparr>out_log := l, screen_x := x, screen_y := y, video_mem := v\<rparr>"
proof
  have "s' = (con_erase s')\<lparr>out_log := out_log s', screen_x := screen_x s', screen_y := screen_y s',
      video_mem := video_mem s'\<rparr>"
    by (simp add: con_erase_def)
  also have "con_erase s' = con_erase s" using assms by (simp add: con_frame_def)
  finally show "s' = s\<lparr>out_log := out_log s', screen_x := screen_x s', screen_y := screen_y s',
      video_mem := video_mem s'\<rparr>"
    by (simp add: con_erase_def)
qed

lemmas con_frame_intros = con_frame_refl con_frame_move_cursor con_frame_upd
  con_frame_trans [OF _ con_frame_move_cursor] con_frame_trans [OF _ con_frame_upd(1)]
  con_frame_trans [OF _ con_frame_upd(2)] con_frame_trans [OF _ con_frame_upd(3)]

lemma scroll_frame: "scroll s = Some s' \<Longrightarrow> con_frame s s'"
  by (auto simp: scroll_def Let_def bind_eq_Some_conv intro!: con_frame_intros)

lemma putc_newline_frame: "putc_newline s = Some s' \<Longrightarrow> con_frame s s'"
  by (auto simp: putc_newline_def Let_def bind_eq_Some_conv split: if_splits
      intro!: con_frame_intros dest!: scroll_frame intro: con_frame_trans)

lemma putc_frame: "putc c s = Some s' \<Longrightarrow> con_frame s s'"
  by (auto simp: putc_def Let_def bind_eq_Some_conv split: if_splits dest!: putc_newline_frame
      intro!: con_frame_intros intro: con_frame_trans [rotated])

lemma clear_frame: "clear s = Some s' \<Longrightarrow> con_frame s s'"
  by (auto simp: clear_def bind_eq_Some_conv intro!: con_frame_intros)

lemma print_backspace_frame: "print_backspace s = Some s' \<Longrightarrow> con_frame s s'"
  by (auto simp: print_backspace_def Let_def bind_eq_Some_conv split: if_splits
      intro!: con_frame_intros)

end
