(* ===== verification/Lib_String.thy ===== *)
theory Lib_String
  imports Prelude
begin

text \<open>
  The string routines of \<open>src/student-distrib/lib.c\<close>: \<open>strlen\<close>, \<open>strncmp\<close>,
  \<open>strcpy\<close>, \<open>strncpy\<close>, \<open>strrev\<close>, \<open>itoa\<close> and the command parser
  \<open>parse_command\<close>. A pointer into an array is the suffix of the array that starts there,
  so walking a pointer is walking down a list; reading past the last element is \<open>None\<close>.
\<close>

subsection \<open>strlen\<close>

fun strlen :: "u8 list \<Rightarrow> nat option" where
  "strlen [] = None"
| "strlen (c # s) = (if c \<noteq> 0 then map_option Suc (strlen s) else Some 0)"

lemma strlen_cstr: "0 \<in> set s \<Longrightarrow> strlen s = Some (length (cstr s))"
  by (induction s) (auto simp: cstr_simps)

lemma strlen_None: "0 \<notin> set s \<Longrightarrow> strlen s = None"
  by (induction s) auto

lemma strlen_Some_iff: "strlen s = Some n \<longleftrightarrow> 0 \<in> set s \<and> n = length (cstr s)"
  by (metis option.distinct(1) option.inject strlen_None strlen_cstr)

subsection \<open>strncmp\<close>

text \<open>
  \<open>int8_t\<close> is \<open>char\<close>, signed in this build, so the returned difference is one of signed
  bytes.
\<close>

fun strncmp :: "u8 list \<Rightarrow> u8 list \<Rightarrow> nat \<Rightarrow> int option" where
  "strncmp s1 s2 0 = Some 0"
| "strncmp (a # s1) (b # s2) (Suc n) =
     (if a \<noteq> b \<or> a = 0 then Some (sint a - sint b) else strncmp s1 s2 n)"
| "strncmp s1 s2 (Suc n) = None"

lemma sint_u8_inject: "sint (a :: u8) = sint b \<longleftrightarrow> a = b"
  by (auto intro: signed_word_eqI)

lemma sint_u8_zero: "sint (a :: u8) = 0 \<longleftrightarrow> a = 0"
  using sint_u8_inject [of a 0] by simp

lemma strncmp_zero_take:
  "strncmp s1 s2 n = Some 0 \<Longrightarrow> take n (cstr s1) = take n (cstr s2)"
  by (induction s1 s2 n rule: strncmp.induct) (auto simp: cstr_simps sint_u8_inject sint_u8_zero split: if_splits)

lemma strncmp_take_zero:
  assumes "take n (cstr s1) = take n (cstr s2)"
    and "n \<le> length s1 \<or> 0 \<in> set s1" and "n \<le> length s2 \<or> 0 \<in> set s2"
  shows "strncmp s1 s2 n = Some 0"
  using assms
  by (induction s1 s2 n rule: strncmp.induct) (auto simp: cstr_simps split: if_splits)

lemma strncmp_defined:
  assumes "n \<le> length s1 \<or> 0 \<in> set s1" and "n \<le> length s2 \<or> 0 \<in> set s2"
  shows "\<exists>r. strncmp s1 s2 n = Some r"
  using assms by (induction s1 s2 n rule: strncmp.induct) auto

text \<open>Exactly the first \<open>n\<close> characters of the two strings are compared.\<close>

lemma strncmp_zero_iff:
  assumes "n \<le> length s1 \<or> 0 \<in> set s1" and "n \<le> length s2 \<or> 0 \<in> set s2"
  shows "strncmp s1 s2 n = Some 0 \<longleftrightarrow> take n (cstr s1) = take n (cstr s2)"
  using assms strncmp_take_zero strncmp_zero_take by blast

subsection \<open>strcpy and strncpy\<close>

fun strcpy :: "u8 list \<Rightarrow> u8 list \<Rightarrow> u8 list option" where
  "strcpy (d # dest) (c # src) =
     (if c \<noteq> 0 then map_option ((#) c) (strcpy dest src) else Some (0 # dest))"
| "strcpy _ _ = None"

lemma strcpy_eq:
  assumes "0 \<in> set src" and "length (cstr src) < length dest"
  shows "strcpy dest src = Some (cstr src @ 0 # drop (Suc (length (cstr src))) dest)"
  using assms by (induction dest src rule: strcpy.induct) (auto simp: cstr_simps split: if_splits)

text \<open>
  \<open>strncpy\<close> tests \<open>src[i] != 0\<close> before \<open>i < n\<close>, so it reads \<open>src[n]\<close> when the
  first \<open>n\<close> bytes hold no NUL; the second loop fills with NULs.
\<close>

fun strncpy_fill :: "u8 list \<Rightarrow> nat \<Rightarrow> u8 list option" where
  "strncpy_fill dest 0 = Some dest"
| "strncpy_fill (d # dest) (Suc n) = map_option ((#) 0) (strncpy_fill dest n)"
| "strncpy_fill [] (Suc n) = None"

fun strncpy :: "u8 list \<Rightarrow> u8 list \<Rightarrow> nat \<Rightarrow> u8 list option" where
  "strncpy dest [] n = None"
| "strncpy dest (c # src) n =
     (if c \<noteq> 0 \<and> 0 < n
      then (case dest of [] \<Rightarrow> None | d # ds \<Rightarrow> map_option ((#) c) (strncpy ds src (n - 1)))
      else strncpy_fill dest n)"

lemma strncpy_fill_eq:
  "n \<le> length dest \<Longrightarrow> strncpy_fill dest n = Some (replicate n 0 @ drop n dest)"
  by (induction dest n rule: strncpy_fill.induct) auto

lemma strncpy_eq:
  assumes "n \<le> length dest" and "n < length src \<or> 0 \<in> set src"
  shows "strncpy dest src n =
    Some (take n (cstr src) @ replicate (n - length (cstr src)) 0 @ drop n dest)"
  using assms
proof (induction dest src n rule: strncpy.induct)
  case (1 dest n)
  then show ?case by simp
next
  case (2 dest c src n)
  show ?case
  proof (cases "c \<noteq> 0 \<and> 0 < n")
    case True
    with "2.prems" obtain d ds m where dest: "dest = d # ds" and n: "n = Suc m"
      by (cases dest; cases n) auto
    with True "2.prems" have "strncpy ds src m =
        Some (take m (cstr src) @ replicate (m - length (cstr src)) 0 @ drop m ds)"
      using "2.IH" [of d ds] by auto
    with True dest n show ?thesis by (simp add: cstr_simps)
  next
    case False
    with "2.prems" show ?thesis by (auto simp: cstr_simps strncpy_fill_eq)
  qed
qed

lemma cstr_append_long: "0 \<notin> set w \<Longrightarrow> n \<le> length w \<Longrightarrow> take n (cstr (w @ t)) = take n w"
  by (induction w arbitrary: n) (auto simp: cstr_simps take_Cons')

lemma cstr_padded_take:
  "take n (cstr (take n (cstr s) @ replicate (n - length (cstr s)) 0 @ t)) = take n (cstr s)"
proof (cases "length (cstr s) < n")
  case True
  then have "cstr (cstr s @ replicate (n - length (cstr s)) 0 @ t) = cstr s"
    using cstr_append_zero [OF cstr_no_zero, of s] by (cases "n - length (cstr s)") auto
  with True show ?thesis by simp
next
  case False
  then have "take n (cstr (take n (cstr s) @ t)) = take n (cstr s)"
    using cstr_append_long [of "take n (cstr s)" n t] cstr_no_zero [of s] in_set_takeD [of 0 n "cstr s"] by auto
  with False show ?thesis by simp
qed

subsection \<open>Properties\<close>

text \<open>
  \<open>strcpy\<close> into a buffer with room for the string and its NUL copies exactly the string: the
  destination then holds the same C string, has its old length and is untouched behind the NUL.
\<close>

lemma strcpy_copies:
  assumes "0 \<in> set src" "length (cstr src) < length dest"
  shows "\<exists>d. strcpy dest src = Some d \<and> length d = length dest \<and> cstr d = cstr src \<and>
    strlen d = strlen src \<and> drop (Suc (length (cstr src))) d = drop (Suc (length (cstr src))) dest"
proof -
  let ?d = "cstr src @ 0 # drop (Suc (length (cstr src))) dest"
  have "cstr ?d = cstr src" using cstr_no_zero by (rule cstr_append_zero)
  then show ?thesis using strcpy_eq [OF assms] assms by (intro exI [of _ ?d]) (simp add: strlen_cstr)
qed

text \<open>
  A buffer filled by \<open>strncpy\<close> compares equal to the source under \<open>strncmp\<close> with the
  same bound, and the bytes of the buffer behind the bound are untouched.
\<close>

lemma strncpy_then_strncmp:
  assumes "n \<le> length dest" "0 \<in> set src"
  shows "\<exists>d. strncpy dest src n = Some d \<and> length d = length dest \<and> strncmp d src n = Some 0 \<and>
    drop n d = drop n dest"
proof -
  let ?d = "take n (cstr src) @ replicate (n - length (cstr src)) 0 @ drop n dest"
  have l: "length ?d = length dest" using assms(1) by simp
  have "strncmp ?d src n = Some 0"
    using strncmp_zero_iff [of n ?d src] cstr_padded_take [of n src "drop n dest"] assms l by simp
  then show ?thesis using strncpy_eq [of n dest src] assms l by (intro exI [of _ ?d]) simp
qed

end
