(* ===== verification/Lib_Number.thy ===== *)
theory Lib_Number
  imports Lib_String
begin

text \<open>
  Number formatting of \<open>src/student-distrib/lib.c\<close>: the in-place reversal \<open>strrev\<close> and
  \<open>itoa\<close>. The digit loop of \<open>itoa\<close> need not end (radix 1) or may trap (radix 0), so it is a
  partial function; for the radices 2 to 36 it is proved to end, to fit a 33-byte buffer and to
  print a string that reads back as the value.
\<close>

subsection \<open>strrev\<close>

function strrev_loop :: "u8 list \<Rightarrow> int \<Rightarrow> int \<Rightarrow> u8 list option" where
  "strrev_loop s beg en =
     (if beg < en
      then do {
        tmp \<leftarrow> rd s en;
        b \<leftarrow> rd s beg;
        s1 \<leftarrow> wr s en b;
        s2 \<leftarrow> wr s1 beg tmp;
        strrev_loop s2 (beg + 1) (en - 1)
      }
      else Some s)"
  by pat_completeness auto
termination
  by (relation "measure (\<lambda>(s, beg, en). nat (en - beg))") auto

declare strrev_loop.simps [simp del]

definition strrev :: "u8 list \<Rightarrow> u8 list option" where
  "strrev s = do { n \<leftarrow> strlen s; strrev_loop s 0 (int n - 1) }"

lemma strrev_loop_stop: "en \<le> beg \<Longrightarrow> strrev_loop s beg en = Some s"
  by (subst strrev_loop.simps) simp

lemma strrev_loop_step:
  assumes "beg = int (length xs)" and "en = int (length xs + length ms) + 1"
  shows "strrev_loop (xs @ a # ms @ b # ys) beg en =
    strrev_loop ((xs @ [b]) @ ms @ a # ys) (beg + 1) (en - 1)"
proof -
  have en: "nat en = length (xs @ a # ms)" using assms by simp
  have "rd (xs @ a # ms @ b # ys) en = Some b"
    using en assms by (simp add: rd_def nth_append)
  moreover have "rd (xs @ a # ms @ b # ys) beg = Some a"
    using assms by (simp add: rd_def)
  moreover have "wr (xs @ a # ms @ b # ys) en a = Some (xs @ a # ms @ a # ys)"
    using append_update_here' [OF en, of b ys a] assms by (simp add: wr_def)
  moreover have "wr (xs @ a # ms @ a # ys) beg b = Some (xs @ b # ms @ a # ys)"
    using assms by (simp add: wr_def)
  moreover have "beg < en" using assms by simp
  ultimately show ?thesis by (subst strrev_loop.simps) simp
qed

lemma strrev_loop_rev:
  "strrev_loop (xs @ ms @ ys) (int (length xs)) (int (length xs + length ms) - 1)
     = Some (xs @ rev ms @ ys)"
proof (induction "length ms" arbitrary: xs ms ys rule: less_induct)
  case less
  show ?case
  proof (cases "length ms < 2")
    case True
    then have "rev ms = ms" by (cases ms) auto
    with True show ?thesis by (simp add: strrev_loop_stop)
  next
    case False
    then obtain a ms' b where ms: "ms = a # ms' @ [b]"
      by (cases ms; cases "tl ms" rule: rev_cases) auto
    have "strrev_loop ((xs @ [b]) @ ms' @ a # ys) (int (length (xs @ [b])))
        (int (length (xs @ [b]) + length ms') - 1) = Some ((xs @ [b]) @ rev ms' @ a # ys)"
      by (rule less) (simp add: ms)
    then show ?thesis
      using strrev_loop_step [of "int (length xs)" xs "int (length xs + length ms) - 1" ms' a b ys]
      by (simp add: ms add.commute)
  qed
qed

lemma strrev_eq: "0 \<notin> set ds \<Longrightarrow> strrev (ds @ 0 # t) = Some (rev ds @ 0 # t)"
  using strrev_loop_rev [of "[]" ds "0 # t"]
  by (simp add: strrev_def strlen_cstr cstr_append_zero)

subsection \<open>itoa\<close>

definition itoa_lookup :: "u8 list" where
  "itoa_lookup = bytes ''0123456789ABCDEFGHIJKLMNOPQRSTUVWXYZ'' @ [0]"

partial_function (option) itoa_loop :: "nat \<Rightarrow> nat \<Rightarrow> u8 list \<Rightarrow> nat \<Rightarrow> (u8 list \<times> nat) option" where
  "itoa_loop newval radix buf k =
     (if 0 < newval
      then (if radix = 0 then None
            else do {
              c \<leftarrow> rd itoa_lookup (int (newval mod radix));
              buf' \<leftarrow> wr buf (int k) c;
              itoa_loop (newval div radix) radix buf' (Suc k)
            })
      else Some (buf, k))"

definition itoa :: "u32 \<Rightarrow> u8 list \<Rightarrow> nat \<Rightarrow> u8 list option" where
  "itoa value buf radix =
     (if value = 0
      then do { b1 \<leftarrow> wr buf 0 48; wr b1 1 0 }
      else do {
        (b, k) \<leftarrow> itoa_loop (unat value) radix buf 0;
        b2 \<leftarrow> wr b (int k) 0;
        strrev b2
      })"

text \<open>The digits of a number, lowest place first, and the reading of a printed number.\<close>

fun digits :: "nat \<Rightarrow> nat \<Rightarrow> nat list" where
  "digits r n = (if r < 2 \<or> n = 0 then [] else (n mod r) # digits r (n div r))"

declare digits.simps [simp del]

lemma length_itoa_lookup: "length itoa_lookup = 37"
  by (simp add: itoa_lookup_def)

definition digit_char :: "nat \<Rightarrow> u8" where
  "digit_char d = itoa_lookup ! d"

definition digit_val :: "u8 \<Rightarrow> nat" where
  "digit_val c = (if c \<le> 57 then unat c - 48 else unat c - 55)"

definition num_of :: "nat \<Rightarrow> u8 list \<Rightarrow> nat" where
  "num_of r s = foldl (\<lambda>a c. a * r + digit_val c) 0 s"

lemma itoa_lookup_codes:
  "itoa_lookup = map (\<lambda>d. of_nat (if d < 10 then 48 + d else 55 + d)) [0..<36] @ [0]"
  by (simp add: itoa_lookup_def bytes_def of_char_def upt_rec)

lemma digit_val_char:
  assumes "d < 36"
  shows "digit_val (digit_char d) = d \<and> digit_char d \<noteq> 0"
proof -
  let ?k = "if d < 10 then 48 + d else 55 + d"
  have c: "digit_char d = of_nat ?k" using assms by (simp add: digit_char_def itoa_lookup_codes nth_append)
  have u: "unat (of_nat ?k :: u8) = ?k" using assms by (simp add: unat_of_nat)
  then have "of_nat ?k \<noteq> (0 :: u8)" by (metis add_is_0 unat_0 zero_neq_numeral)
  with c u show ?thesis by (auto simp: digit_val_def word_le_nat_alt)
qed

lemma digits_less: "r \<ge> 2 \<Longrightarrow> d \<in> set (digits r n) \<Longrightarrow> d < r"
proof (induction r n rule: digits.induct)
  case (1 r n)
  then show ?case by (subst (asm) (2) digits.simps) (auto split: if_splits)
qed

lemma length_digits: "2 \<le> b \<Longrightarrow> b \<le> r \<Longrightarrow> n < b ^ k \<Longrightarrow> length (digits r n) \<le> k"
proof (induction k arbitrary: n)
  case 0
  then show ?case by (simp add: digits.simps)
next
  case (Suc k)
  have "n div r \<le> n div b" using Suc.prems by (simp add: div_le_mono2)
  also have "n div b < b ^ k" using Suc.prems by (simp add: less_mult_imp_div_less mult.commute)
  finally show ?case using Suc by (simp add: digits.simps [of r n])
qed

lemma num_of_append: "num_of r (xs @ [c]) = num_of r xs * r + digit_val c"
  by (simp add: num_of_def)

lemma num_of_digits:
  "2 \<le> r \<Longrightarrow> r \<le> 36 \<Longrightarrow> num_of r (rev (map digit_char (digits r n))) = n"
proof (induction r n rule: digits.induct)
  case (1 r n)
  show ?case
  proof (cases "n = 0")
    case True
    then show ?thesis by (simp add: digits.simps num_of_def)
  next
    case False
    with 1 have IH: "num_of r (rev (map digit_char (digits r (n div r)))) = n div r" by simp
    have "n mod r < 36" using "1.prems" by (meson mod_less_divisor less_le_trans zero_less_numeral)
    then have "digit_val (digit_char (n mod r)) = n mod r" by (simp add: digit_val_char)
    with False "1.prems" IH show ?thesis
      by (simp add: digits.simps [of r n] num_of_append)
  qed
qed

lemma itoa_loop_digits:
  assumes "2 \<le> r" "r \<le> 36" "k + length (digits r n) \<le> length buf"
  shows "itoa_loop n r buf k =
    Some (take k buf @ map digit_char (digits r n) @ drop (k + length (digits r n)) buf,
          k + length (digits r n))"
  using assms
proof (induction r n arbitrary: buf k rule: digits.induct)
  case (1 r n)
  show ?case
  proof (cases "n = 0")
    case True
    then show ?thesis by (simp add: digits.simps itoa_loop.simps)
  next
    case False
    let ?m = "n div r" and ?c = "digit_char (n mod r)" and ?l = "length (digits r (n div r))"
    have len: "length (digits r n) = Suc ?l"
      using False "1.prems" by (simp add: digits.simps [of r n])
    have "n mod r < 37" using mod_less_divisor [of r n] "1.prems" by linarith
    then have "rd itoa_lookup (int (n mod r)) = Some ?c"
      by (simp add: rd_nat digit_char_def length_itoa_lookup)
    moreover have "wr buf (int k) ?c = Some (buf[k := ?c])"
      using "1.prems" len by (simp add: wr_nat)
    moreover have "itoa_loop ?m r (buf[k := ?c]) (Suc k) =
        Some (take (Suc k) (buf[k := ?c]) @ map digit_char (digits r ?m)
              @ drop (Suc k + ?l) (buf[k := ?c]), Suc k + ?l)"
      using False "1.prems" len by (intro "1.IH") auto
    ultimately show ?thesis
      using False "1.prems" len
      by (subst itoa_loop.simps) (simp add: digits.simps [of r n] take_Suc_update)
  qed
qed

lemma itoa_eq:
  assumes "2 \<le> r" "r \<le> 36" "33 \<le> length buf"
  shows "itoa v buf r =
    Some ((if v = 0 then [48] else rev (map digit_char (digits r (unat v)))) @
          0 # drop (Suc (max 1 (length (digits r (unat v))))) buf)"
proof (cases "v = 0")
  case True
  with assms show ?thesis
    by (cases buf; cases "tl buf") (auto simp: itoa_def wr_def digits.simps)
next
  case False
  let ?ds = "digits r (unat v)" and ?cs = "map digit_char (digits r (unat v))"
  have "unat v < 2 ^ 32" using unsigned_less [of v] by simp
  then have l32: "length ?ds \<le> 32" using assms(1) by (intro length_digits [of 2]) auto
  have pos: "0 < length ?ds"
    using False assms(1) by (simp add: digits.simps [of r "unat v"] unat_eq_zero)
  have "\<And>d. d \<in> set ?ds \<Longrightarrow> d < 36" using digits_less [OF assms(1)] assms(2) by (meson less_le_trans)
  then have nz: "0 \<notin> set ?cs" using digit_val_char by fastforce
  have loop: "itoa_loop (unat v) r buf 0 = Some (?cs @ drop (length ?ds) buf, length ?ds)"
    using itoa_loop_digits [of r 0 "unat v" buf] assms l32 by simp
  have "wr (?cs @ drop (length ?ds) buf) (int (length ?ds)) 0 =
      Some (?cs @ 0 # drop (Suc (length ?ds)) buf)"
    using l32 assms(3) by (simp add: wr_nat list_update_append Cons_nth_drop_Suc [symmetric])
  with False loop show ?thesis
    using strrev_eq [OF nz] pos by (simp add: itoa_def max_absorb2 Suc_leI)
qed

text \<open>The text of a number in a radix, and its bounds.\<close>

definition num_text :: "nat \<Rightarrow> u32 \<Rightarrow> u8 list" where
  "num_text r v = (if v = 0 then [48] else rev (map digit_char (digits r (unat v))))"

lemma digit_chars_nonzero: "2 \<le> r \<Longrightarrow> r \<le> 36 \<Longrightarrow> 0 \<notin> set (map digit_char (digits r n))"
  using digits_less digit_val_char by fastforce

lemma num_text_nonzero: "2 \<le> r \<Longrightarrow> r \<le> 36 \<Longrightarrow> 0 \<notin> set (num_text r v)"
  using digit_chars_nonzero [of r "unat v"] by (simp add: num_text_def)

lemma num_of_num_text: "2 \<le> r \<Longrightarrow> r \<le> 36 \<Longrightarrow> num_of r (num_text r v) = unat v"
  by (simp add: num_text_def num_of_digits) (simp add: num_of_def digit_val_def)

lemma itoa_num_text:
  assumes "2 \<le> r" "r \<le> 36" "33 \<le> length buf"
  shows "\<exists>b. itoa v buf r = Some (num_text r v @ 0 # b)"
  using itoa_eq [OF assms] by (auto simp: num_text_def)

lemma length_num_text:
  assumes "2 \<le> b" "b \<le> r" "2 ^ 32 \<le> b ^ k" "0 < k"
  shows "0 < length (num_text r v) \<and> length (num_text r v) \<le> k"
proof -
  have "unat v < 2 ^ 32" using unsigned_less [of v] by simp
  then have "length (digits r (unat v)) \<le> k" using assms by (intro length_digits [of b]) auto
  moreover have "v \<noteq> 0 \<Longrightarrow> digits r (unat v) \<noteq> []"
    using assms by (simp add: digits.simps [of r "unat v"] unat_eq_zero)
  ultimately show ?thesis using assms(4) by (simp add: num_text_def)
qed

subsection \<open>Property\<close>

text \<open>
  C37: Reading the digits that \<open>itoa\<close> prints gives the number back, for every radix from 2 to 36
  and every 32-bit value, in a buffer of 33 bytes; the conversion loop ends.
\<close>

theorem itoa_roundtrip:
  assumes "2 \<le> radix" "radix \<le> 36" "33 \<le> length buf"
  shows "\<exists>b. itoa v buf radix = Some b \<and> 0 \<in> set b \<and> num_of radix (cstr b) = unat v"
proof -
  obtain b where "itoa v buf radix = Some (num_text radix v @ 0 # b)"
    using itoa_num_text [OF assms] by blast
  moreover have "cstr (num_text radix v @ 0 # b) = num_text radix v"
    using num_text_nonzero [OF assms(1,2)] by (rule cstr_append_zero)
  ultimately show ?thesis using num_of_num_text [OF assms(1,2)] by auto
qed

theorem itoa_roundtrip_witness:
  "\<exists>b. itoa 255 (replicate 33 0) 16 = Some b \<and> num_of 16 (cstr b) = 255"
  using itoa_roundtrip [of 16 "replicate 33 0" 255] by auto

end
