(* ===== verification/Printf.thy ===== *)
theory Printf
  imports Console Lib_Number
begin

text \<open>
  \<open>puts\<close> and \<open>printf\<close> of \<open>src/student-distrib/lib.c\<close>. The variable arguments on the
  stack are a list of words and strings; reading a missing argument or one of the wrong kind is
  \<open>None\<close>, and so is running over the end of the format. The specification \<open>format_out\<close> gives
  the characters a format stands for.
\<close>

datatype varg = VInt u32 | VStr "u8 list"

subsection \<open>The code\<close>

fun puts :: "u8 list \<Rightarrow> 'a console_scheme \<Rightarrow> (nat \<times> 'a console_scheme) option" where
  "puts [] st = None"
| "puts (c # s) st =
     (if c \<noteq> 0
      then (case putc c st of
              None \<Rightarrow> None
            | Some st' \<Rightarrow> (case puts s st' of None \<Rightarrow> None | Some (n, st'') \<Rightarrow> Some (Suc n, st'')))
      else Some (0, st))"

text \<open>A local array of \<open>n\<close> bytes; its first contents are never printed.\<close>

definition conv_buf :: "nat \<Rightarrow> u8 list" where
  "conv_buf n = replicate n 0"

function hex_pad :: "nat \<Rightarrow> u8 list \<Rightarrow> u8 list option" where
  "hex_pad i b =
     (if i < 8 then (case wr b (int i) 48 of None \<Rightarrow> None | Some b' \<Rightarrow> hex_pad (Suc i) b') else Some b)"
  by pat_completeness auto
termination
  by (relation "measure (\<lambda>(i, b). 8 - i)") auto

declare hex_pad.simps [simp del]

text \<open>The string that each number conversion passes to \<open>puts\<close>.\<close>

definition conv_x :: "u32 \<Rightarrow> u8 list option" where
  "conv_x w = itoa w (conv_buf 64) 16"

definition conv_hash_x :: "u32 \<Rightarrow> u8 list option" where
  "conv_hash_x w = do {
     t \<leftarrow> itoa w (drop 8 (conv_buf 64)) 16;
     let b = take 8 (conv_buf 64) @ t;
     starting_index \<leftarrow> strlen (drop 8 b);
     b' \<leftarrow> hex_pad starting_index b;
     Some (drop starting_index b')
   }"

definition conv_u :: "u32 \<Rightarrow> u8 list option" where
  "conv_u w = itoa w (conv_buf 36) 10"

definition conv_d :: "u32 \<Rightarrow> u8 list option" where
  "conv_d w =
     (if sint w < 0
      then do {
        b \<leftarrow> wr (conv_buf 36) 0 45;
        t \<leftarrow> itoa (- w) (drop 1 b) 10;
        Some (take 1 b @ t)
      }
      else itoa w (conv_buf 36) 10)"

definition put_conv :: "u8 list option \<Rightarrow> 'a console_scheme \<Rightarrow> 'a console_scheme option" where
  "put_conv b st = do { b' \<leftarrow> b; (n, st') \<leftarrow> puts b' st; Some st' }"

text \<open>
  \<open>printf_conv alt buf args n st\<close> is the label \<open>format_char_switch\<close> with \<open>buf\<close> at the
  specifier; after it the code increments \<open>buf\<close>. The counter \<open>n\<close> is \<open>buf - format\<close>. An
  unknown specifier, the terminating NUL included, is skipped.
\<close>

fun printf_loop :: "u8 list \<Rightarrow> varg list \<Rightarrow> nat \<Rightarrow> 'a console_scheme \<Rightarrow> (nat \<times> 'a console_scheme) option"
  and printf_conv :: "bool \<Rightarrow> u8 list \<Rightarrow> varg list \<Rightarrow> nat \<Rightarrow> 'a console_scheme \<Rightarrow> (nat \<times> 'a console_scheme) option"
where
  "printf_loop [] args n st = None"
| "printf_loop (c # buf) args n st =
     (if c = 0 then Some (n, st)
      else if c = 37 then printf_conv False buf args (Suc n) st
      else (case putc c st of None \<Rightarrow> None | Some st' \<Rightarrow> printf_loop buf args (Suc n) st'))"
| "printf_conv alt [] args n st = None"
| "printf_conv alt (c # buf) args n st =
     (if c = 37
      then (case putc 37 st of None \<Rightarrow> None | Some st' \<Rightarrow> printf_loop buf args (Suc n) st')
      else if c = 35 then printf_conv True buf args (Suc n) st
      else if c = 120
      then (case args of
              VInt w # rest \<Rightarrow>
                (case put_conv (if alt then conv_hash_x w else conv_x w) st of
                   None \<Rightarrow> None | Some st' \<Rightarrow> printf_loop buf rest (Suc n) st')
            | _ \<Rightarrow> None)
      else if c = 117
      then (case args of
              VInt w # rest \<Rightarrow>
                (case put_conv (conv_u w) st of
                   None \<Rightarrow> None | Some st' \<Rightarrow> printf_loop buf rest (Suc n) st')
            | _ \<Rightarrow> None)
      else if c = 100
      then (case args of
              VInt w # rest \<Rightarrow>
                (case put_conv (conv_d w) st of
                   None \<Rightarrow> None | Some st' \<Rightarrow> printf_loop buf rest (Suc n) st')
            | _ \<Rightarrow> None)
      else if c = 99
      then (case args of
              VInt w # rest \<Rightarrow>
                (case putc (ucast w) st of
                   None \<Rightarrow> None | Some st' \<Rightarrow> printf_loop buf rest (Suc n) st')
            | _ \<Rightarrow> None)
      else if c = 115
      then (case args of
              VStr t # rest \<Rightarrow>
                (case put_conv (Some t) st of
                   None \<Rightarrow> None | Some st' \<Rightarrow> printf_loop buf rest (Suc n) st')
            | _ \<Rightarrow> None)
      else printf_loop buf args (Suc n) st)"

text \<open>\<open>printf\<close> with a string literal as its format: the literal's bytes and a NUL.\<close>

definition printf :: "string \<Rightarrow> varg list \<Rightarrow> 'a console_scheme \<Rightarrow> (nat \<times> 'a console_scheme) option" where
  "printf format args st = printf_loop (bytes format @ [0]) args 0 st"

text \<open>The call at the end of a row in \<open>putc\<close>.\<close>

lemma printf_newline: "printf ''%c'' [VInt 10] st = map_option (Pair 2) (putc NEWLINE st)"
  by (simp add: printf_def bytes_def of_char_def split: option.splits)

subsection \<open>Specification\<close>

text \<open>Eight hexadecimal digits, padded with zeros on the left.\<close>

definition hex8 :: "u32 \<Rightarrow> u8 list" where
  "hex8 w = replicate (8 - length (num_text 16 w)) 48 @ num_text 16 w"

definition dec_text :: "u32 \<Rightarrow> u8 list" where
  "dec_text w = (if sint w < 0 then 45 # num_text 10 (- w) else num_text 10 w)"

fun format_out :: "u8 list \<Rightarrow> varg list \<Rightarrow> u8 list option"
  and format_conv :: "bool \<Rightarrow> u8 list \<Rightarrow> varg list \<Rightarrow> u8 list option"
where
  "format_out [] args = None"
| "format_out (c # f) args =
     (if c = 0 then Some []
      else if c = 37 then format_conv False f args
      else map_option ((#) c) (format_out f args))"
| "format_conv alt [] args = None"
| "format_conv alt (c # f) args =
     (if c = 37 then map_option ((#) 37) (format_out f args)
      else if c = 35 then format_conv True f args
      else if c = 120
      then (case args of VInt w # rest \<Rightarrow>
              map_option ((@) (if alt then hex8 w else num_text 16 w)) (format_out f rest) | _ \<Rightarrow> None)
      else if c = 117
      then (case args of VInt w # rest \<Rightarrow> map_option ((@) (num_text 10 w)) (format_out f rest) | _ \<Rightarrow> None)
      else if c = 100
      then (case args of VInt w # rest \<Rightarrow> map_option ((@) (dec_text w)) (format_out f rest) | _ \<Rightarrow> None)
      else if c = 99
      then (case args of VInt w # rest \<Rightarrow> map_option ((#) (ucast w)) (format_out f rest) | _ \<Rightarrow> None)
      else if c = 115
      then (case args of VStr t # rest \<Rightarrow>
              if 0 \<in> set t then map_option ((@) (cstr t)) (format_out f rest) else None | _ \<Rightarrow> None)
      else format_out f args)"

subsection \<open>The conversions\<close>

lemma conv_x_text: "\<exists>b. conv_x w = Some (num_text 16 w @ 0 # b)"
  unfolding conv_x_def by (rule itoa_num_text) (simp_all add: conv_buf_def)

lemma conv_u_text: "\<exists>b. conv_u w = Some (num_text 10 w @ 0 # b)"
  unfolding conv_u_def by (rule itoa_num_text) (simp_all add: conv_buf_def)

lemma conv_d_text: "\<exists>b. conv_d w = Some (dec_text w @ 0 # b)"
proof (cases "sint w < 0")
  case True
  have "wr (conv_buf 36) 0 45 = Some (45 # conv_buf 35)"
    by (simp add: wr_def conv_buf_def numeral_eq_Suc)
  moreover obtain b where "itoa (- w) (conv_buf 35) 10 = Some (num_text 10 (- w) @ 0 # b)"
    using itoa_num_text [of 10 "conv_buf 35" "- w"] by (auto simp: conv_buf_def)
  ultimately show ?thesis using True by (simp add: conv_d_def dec_text_def)
next
  case False
  then show ?thesis
    using itoa_num_text [of 10 "conv_buf 36" w] by (auto simp: conv_d_def dec_text_def conv_buf_def)
qed

lemma hex_pad_eq:
  "i \<le> 8 \<Longrightarrow> 8 \<le> length b \<Longrightarrow> hex_pad i b = Some (take i b @ replicate (8 - i) 48 @ drop 8 b)"
proof (induction i b rule: hex_pad.induct)
  case (1 i b)
  show ?case
  proof (cases "i < 8")
    case True
    then have "8 - i = Suc (8 - Suc i)" by simp
    with True 1 show ?thesis
      by (simp add: hex_pad.simps [of i b] wr_nat take_Suc_update)
  next
    case False
    with "1.prems" show ?thesis by (simp add: hex_pad.simps [of 8 b])
  qed
qed

lemma conv_hash_x_text: "\<exists>b. conv_hash_x w = Some (hex8 w @ 0 # b)"
proof -
  let ?t = "num_text 16 w"
  have t: "length ?t \<le> 8" "0 \<notin> set ?t"
    using length_num_text [of 16 16 8 w] num_text_nonzero [of 16 w] by auto
  obtain b where "itoa w (drop 8 (conv_buf 64)) 16 = Some (?t @ 0 # b)"
    using itoa_num_text [of 16 "drop 8 (conv_buf 64)" w] by (auto simp: conv_buf_def)
  with t show ?thesis
    by (auto simp: conv_hash_x_def strlen_cstr cstr_append_zero hex_pad_eq hex8_def conv_buf_def)
qed

lemma hex8_nonzero: "0 \<notin> set (hex8 w)"
  using num_text_nonzero [of 16 w] by (simp add: hex8_def)

lemma dec_text_nonzero: "0 \<notin> set (dec_text w)"
  using num_text_nonzero [of 10] by (simp add: dec_text_def)

lemma length_hex8: "length (hex8 w) = 8"
  using length_num_text [of 16 16 8 w] by (simp add: hex8_def)

subsection \<open>What is printed\<close>

lemma puts_view:
  "con_ok st \<Longrightarrow> 0 \<in> set s \<Longrightarrow>
     \<exists>st'. puts s st = Some (length (cstr s), st')
        \<and> con_view st' = fold scr_putc (cstr s) (con_view st) \<and> con_ok st'"
proof (induction s arbitrary: st)
  case (Cons c s)
  show ?case
  proof (cases "c = 0")
    case False
    obtain st1 where st1: "putc c st = Some st1" "con_view st1 = scr_putc c (con_view st)"
      using putc_view [OF Cons.prems(1), of c] by blast
    then have "con_ok st1" using scr_ok_putc [OF Cons.prems(1), of c] by simp
    with Cons.IH [of st1] Cons.prems False st1 show ?thesis by (auto simp: cstr_simps)
  qed (use Cons.prems in \<open>auto simp: cstr_simps\<close>)
qed simp

lemma put_conv_view:
  assumes "con_ok st" "b = Some (t @ 0 # r)" "0 \<notin> set t"
  shows "\<exists>st'. put_conv b st = Some st' \<and> con_view st' = fold scr_putc t (con_view st) \<and> con_ok st'"
  using puts_view [of st "t @ 0 # r"] assms by (auto simp: put_conv_def cstr_append_zero)

lemma put_conv_str_view:
  assumes "con_ok st" "0 \<in> set t"
  shows "\<exists>st'. put_conv (Some t) st = Some st'
    \<and> con_view st' = fold scr_putc (cstr t) (con_view st) \<and> con_ok st'"
  using puts_view [OF assms] by (auto simp: put_conv_def)

lemma putc_ok_view:
  "con_ok st \<Longrightarrow> \<exists>st'. putc c st = Some st' \<and> con_view st' = scr_putc c (con_view st) \<and> con_ok st'"
  using putc_view [of st c] scr_ok_putc [of "con_view st" c] by auto

text \<open>A state that shows \<open>out\<close> after \<open>st\<close>.\<close>

definition shows_after :: "u8 list \<Rightarrow> 'a console_scheme \<Rightarrow> 'a console_scheme \<Rightarrow> bool" where
  "shows_after out st st' \<longleftrightarrow> con_view st' = fold scr_putc out (con_view st) \<and> con_ok st'"

lemma shows_step:
  assumes "\<exists>st1. g = Some st1 \<and> shows_after t st st1"
    and "\<And>st1. g = Some st1 \<Longrightarrow> con_ok st1 \<Longrightarrow> \<exists>n' st'. k st1 = Some (n', st') \<and> shows_after out st1 st'"
  shows "\<exists>n' st'. (case g of None \<Rightarrow> None | Some s \<Rightarrow> k s) = Some (n', st') \<and> shows_after (t @ out) st st'"
  using assms by (fastforce simp: shows_after_def)

lemma shows_putc: "con_ok st \<Longrightarrow> \<exists>st1. putc c st = Some st1 \<and> shows_after [c] st st1"
  using putc_ok_view [of st c] by (simp add: shows_after_def)

lemma shows_conv:
  assumes "con_ok st" "\<exists>r. b = Some (t @ 0 # r)" "0 \<notin> set t"
  shows "\<exists>st1. put_conv b st = Some st1 \<and> shows_after t st st1"
  using put_conv_view [OF assms(1)] assms(2,3) unfolding shows_after_def by blast

lemma shows_str: "con_ok st \<Longrightarrow> 0 \<in> set t \<Longrightarrow> \<exists>st1. put_conv (Some t) st = Some st1 \<and> shows_after (cstr t) st st1"
  using put_conv_str_view [of st t] by (simp add: shows_after_def)

lemma printf_loop_shows:
  "con_ok st \<Longrightarrow> format_out f args = Some out \<Longrightarrow>
     \<exists>n' st'. printf_loop f args n st = Some (n', st') \<and> shows_after out st st'"
  "con_ok st \<Longrightarrow> format_conv alt f args = Some out \<Longrightarrow>
     \<exists>n' st'. printf_conv alt f args n st = Some (n', st') \<and> shows_after out st st'"
proof (induction f args n st and alt f args n st arbitrary: out and out rule: printf_loop_printf_conv.induct)
  case (2 c buf args n st)
  consider "c = 0" | "c = 37" | "c \<noteq> 0" "c \<noteq> 37" by blast
  then show ?case
  proof cases
    case 3
    with "2.prems" obtain o2 where o2: "format_out buf args = Some o2" "out = [c] @ o2" by auto
    show ?thesis unfolding o2(2)
      using 3 shows_step [OF shows_putc [OF "2.prems"(1)], of c "\<lambda>st. printf_loop buf args (Suc n) st" o2]
        "2.IH"(2) [OF 3 _ _ o2(1)] by simp
  qed (use 2 in \<open>auto simp: shows_after_def\<close>)
next
  case (4 alt c buf args n st)
  note ok = "4.prems"(1)
  consider (pct) "c = 37" | (alt) "c = 35" | (x) "c = 120" | (u) "c = 117" | (d) "c = 100"
    | (chr) "c = 99" | (str) "c = 115"
    | (other) "c \<noteq> 37" "c \<noteq> 35" "c \<noteq> 120" "c \<noteq> 117" "c \<noteq> 100" "c \<noteq> 99" "c \<noteq> 115"
    by blast
  then show ?case
  proof cases
    case pct
    with "4.prems" obtain o2 where o2: "format_out buf args = Some o2" "out = [37] @ o2" by auto
    show ?thesis unfolding o2(2)
      using pct shows_step [OF shows_putc [OF ok], of 37 "\<lambda>st. printf_loop buf args (Suc n) st" o2]
        "4.IH"(1) [OF pct _ _ o2(1)] by simp
  next
    case x
    with "4.prems" obtain w rest o2 where a: "args = VInt w # rest" "format_out buf rest = Some o2"
        "out = (if alt then hex8 w else num_text 16 w) @ o2"
      by (auto split: list.splits varg.splits)
    have hx: "\<exists>r. (if alt then conv_hash_x w else conv_x w) = Some ((if alt then hex8 w else num_text 16 w) @ 0 # r)"
        "0 \<notin> set (if alt then hex8 w else num_text 16 w)"
      using conv_hash_x_text conv_x_text hex8_nonzero num_text_nonzero [of 16 w] by auto
    show ?thesis unfolding a
      using x a shows_step [OF shows_conv [OF ok hx], of "\<lambda>st. printf_loop buf rest (Suc n) st" o2]
        "4.IH"(3) [where out = o2] by simp
  next
    case u
    with "4.prems" obtain w rest o2 where a: "args = VInt w # rest" "format_out buf rest = Some o2"
        "out = num_text 10 w @ o2"
      by (auto split: list.splits varg.splits)
    show ?thesis unfolding a
      using u a shows_step [OF shows_conv [OF ok conv_u_text num_text_nonzero [of 10 w, simplified]], of "\<lambda>st. printf_loop buf rest (Suc n) st" o2]
        "4.IH"(4) [where out = o2] by simp
  next
    case d
    with "4.prems" obtain w rest o2 where a: "args = VInt w # rest" "format_out buf rest = Some o2"
        "out = dec_text w @ o2"
      by (auto split: list.splits varg.splits)
    show ?thesis unfolding a
      using d a shows_step [OF shows_conv [OF ok conv_d_text dec_text_nonzero [of w]], of "\<lambda>st. printf_loop buf rest (Suc n) st" o2]
        "4.IH"(5) [where out = o2] by simp
  next
    case chr
    with "4.prems" obtain w rest o2 where a: "args = VInt w # rest" "format_out buf rest = Some o2"
        "out = [ucast w] @ o2"
      by (auto split: list.splits varg.splits)
    show ?thesis unfolding a
      using chr a shows_step [OF shows_putc [OF ok, of "ucast w"], of "\<lambda>st. printf_loop buf rest (Suc n) st" o2]
        "4.IH"(6) [where out = o2] by simp
  next
    case str
    with "4.prems" obtain w rest o2 where a: "args = VStr w # rest" "format_out buf rest = Some o2"
        "out = cstr w @ o2" and z: "0 \<in> set w"
      by (auto split: list.splits varg.splits if_splits)
    show ?thesis unfolding a
      using str a shows_step [OF shows_str [OF ok z], of "\<lambda>st. printf_loop buf rest (Suc n) st" o2]
        "4.IH"(7) [where out = o2] by simp
  next
    case alt
    then show ?thesis using "4.IH"(2) "4.prems" by simp
  next
    case other
    then show ?thesis using "4.IH"(8) "4.prems" by simp
  qed
qed auto

subsection \<open>What printing may change\<close>

lemma puts_frame: "puts s st = Some (n, st') \<Longrightarrow> con_frame st st'"
  by (induction s arbitrary: st n)
    (auto split: if_splits option.splits dest: putc_frame intro: con_frame_trans)

lemma put_conv_frame: "put_conv b st = Some st' \<Longrightarrow> con_frame st st'"
  by (auto simp: put_conv_def bind_eq_Some_conv dest: puts_frame)

lemma printf_loop_frame:
  "printf_loop f args n st = Some (k, st') \<Longrightarrow> con_frame st st'"
  "printf_conv alt f args n st = Some (k, st') \<Longrightarrow> con_frame st st'"
  by (induction f args n st and alt f args n st rule: printf_loop_printf_conv.induct)
    (auto split: if_splits option.splits list.splits varg.splits
      intro: con_frame_trans [OF putc_frame] con_frame_trans [OF put_conv_frame])

lemma printf_frame: "printf f args st = Some (k, st') \<Longrightarrow> con_frame st st'"
  by (simp add: printf_def printf_loop_frame(1))

subsection \<open>Property\<close>

text \<open>
  C28: \<open>printf\<close> shows exactly the text its format and arguments denote, character by character on
  the text screen with line wrapping and scrolling, stays inside video memory, and changes nothing but
  the console.
\<close>

theorem printf_shows_text:
  assumes "con_ok st" "format_out (bytes format @ [0]) args = Some out"
  shows "\<exists>n st'. printf format args st = Some (n, st') \<and> con_ok st' \<and> con_frame st st' \<and>
    con_view st' = fold scr_putc out (con_view st)"
  using printf_loop_shows(1) [OF assms, of 0] printf_frame [of format args st]
  by (auto simp: printf_def shows_after_def)

lemma format_out_plain:
  "37 \<notin> set w \<Longrightarrow> 0 \<notin> set w \<Longrightarrow> format_out (w @ [0]) args = Some w"
  by (induction w) auto

lemma printf_plain:
  assumes "37 \<notin> set (bytes f)" "0 \<notin> set (bytes f)" "con_ok s"
  shows "\<exists>k s'. printf f [] s = Some (k, s') \<and>
    con_view s' = fold scr_putc (bytes f) (con_view s) \<and> con_ok s' \<and> con_frame s s'"
  using printf_loop_shows(1) [OF assms(3) format_out_plain [OF assms(1,2)], of "[]" 0]
    printf_frame [of f "[]" s] by (auto simp: printf_def shows_after_def)

end
