(* ===== verification/Filesys.thy ===== *)
theory Filesys
  imports Lib_String
begin

text \<open>
  The read-only file system driver, \<open>src/student-distrib/fs.c\<close>. The image is raw memory: a
  function from 32-bit addresses to bytes. \<open>init_fs\<close> computes the four section addresses, and
  every structure field is read at its C offset from them, so index arithmetic and the reading of
  a name that fills its 32 bytes behave as in the code. A directory entry copied to the stack is a
  record; \<open>dentry_bytes\<close> is its layout, which \<open>strlen(dentry.file_name)\<close> can run through.

  The specification is the content of a file, one list of bytes, and the list of directory names.
\<close>

type_synonym mem = "u32 \<Rightarrow> u8"

abbreviation FS_BLOCK_SIZE :: u32 where "FS_BLOCK_SIZE \<equiv> 4096"
abbreviation FS_METADATA_SEGMENT_SIZE :: u32 where "FS_METADATA_SEGMENT_SIZE \<equiv> 64"
abbreviation MAX_NUM_DENTRIES :: nat where "MAX_NUM_DENTRIES \<equiv> 63"

subsection \<open>Memory and the sections of the image\<close>

definition ld32 :: "mem \<Rightarrow> u32 \<Rightarrow> u32" where
  "ld32 m a = ucast (m a) + 2 ^ 8 * ucast (m (a + 1)) + 2 ^ 16 * ucast (m (a + 2))
     + 2 ^ 24 * ucast (m (a + 3))"

definition le32 :: "u32 \<Rightarrow> u8 list" where
  "le32 w = [ucast w, ucast (drop_bit 8 w), ucast (drop_bit 16 w), ucast (drop_bit 24 w)]"

definition mem_bytes :: "mem \<Rightarrow> u32 \<Rightarrow> nat \<Rightarrow> u8 list" where
  "mem_bytes m a n = map (\<lambda>i. m (a + of_nat i)) [0..<n]"

record fs =
  boot_block :: u32
  dentries :: u32
  inodes :: u32
  data_blocks :: u32

definition init_fs :: "mem \<Rightarrow> u32 \<Rightarrow> fs" where
  "init_fs m fs_base_address =
     \<lparr> boot_block = fs_base_address,
       dentries = fs_base_address + FS_METADATA_SEGMENT_SIZE,
       inodes = fs_base_address + FS_BLOCK_SIZE,
       data_blocks = fs_base_address + (ld32 m (fs_base_address + 4) + 1) * FS_BLOCK_SIZE \<rparr>"

text \<open>The fields of \<open>boot_block_t\<close>, \<open>inode_block_t\<close> and \<open>data_block_t\<close>.\<close>

definition num_dentries :: "mem \<Rightarrow> fs \<Rightarrow> u32" where
  "num_dentries m f = ld32 m (boot_block f)"

definition num_inodes :: "mem \<Rightarrow> fs \<Rightarrow> u32" where
  "num_inodes m f = ld32 m (boot_block f + 4)"

definition num_data_blocks :: "mem \<Rightarrow> fs \<Rightarrow> u32" where
  "num_data_blocks m f = ld32 m (boot_block f + 8)"

definition inode_length :: "mem \<Rightarrow> fs \<Rightarrow> u32 \<Rightarrow> u32" where
  "inode_length m f inode = ld32 m (inodes f + inode * FS_BLOCK_SIZE)"

definition data_index :: "mem \<Rightarrow> fs \<Rightarrow> u32 \<Rightarrow> u32 \<Rightarrow> u32" where
  "data_index m f inode i = ld32 m (inodes f + inode * FS_BLOCK_SIZE + 4 + 4 * i)"

definition block_byte :: "mem \<Rightarrow> fs \<Rightarrow> u32 \<Rightarrow> u32 \<Rightarrow> u8" where
  "block_byte m f blk off = m (data_blocks f + blk * FS_BLOCK_SIZE + off)"

subsection \<open>Directory entries\<close>

record dentry_t =
  file_name :: "u8 list"
  file_type :: u32
  inode_index :: u32
  d_reserved :: "u8 list"

definition dentry_bytes :: "dentry_t \<Rightarrow> u8 list" where
  "dentry_bytes d = file_name d @ le32 (file_type d) @ le32 (inode_index d) @ d_reserved d"

definition dentry_addr :: "fs \<Rightarrow> nat \<Rightarrow> u32" where
  "dentry_addr f i = dentries f + of_nat i * FS_METADATA_SEGMENT_SIZE"

text \<open>The three assignments that fill a caller's \<open>dentry_t\<close> from entry \<open>i\<close> of the image.\<close>

definition copy_dentry :: "mem \<Rightarrow> fs \<Rightarrow> nat \<Rightarrow> dentry_t \<Rightarrow> dentry_t option" where
  "copy_dentry m f i d = do {
     nm \<leftarrow> strncpy (file_name d) (mem_bytes m (dentry_addr f i) 64) 32;
     Some (d\<lparr>file_name := nm,
             file_type := ld32 m (dentry_addr f i + 32),
             inode_index := ld32 m (dentry_addr f i + 36)\<rparr>)
   }"

definition read_dentry_by_index :: "mem \<Rightarrow> fs \<Rightarrow> u32 \<Rightarrow> dentry_t \<Rightarrow> (int \<times> dentry_t) option" where
  "read_dentry_by_index m f index d =
     (if of_nat MAX_NUM_DENTRIES \<le> index then Some (- 1, d)
      else map_option (Pair 0) (copy_dentry m f (unat index) d))"

fun dentry_search :: "mem \<Rightarrow> fs \<Rightarrow> u8 list \<Rightarrow> dentry_t \<Rightarrow> nat list \<Rightarrow> (int \<times> dentry_t) option" where
  "dentry_search m f fname d [] = Some (- 1, d)"
| "dentry_search m f fname d (i # is) =
     (case strncmp fname (mem_bytes m (dentry_addr f i) 64) 32 of
        None \<Rightarrow> None
      | Some r \<Rightarrow> if r = 0 then map_option (Pair 0) (copy_dentry m f i d)
                  else dentry_search m f fname d is)"

definition read_dentry_by_name :: "mem \<Rightarrow> fs \<Rightarrow> u8 list \<Rightarrow> dentry_t \<Rightarrow> (int \<times> dentry_t) option" where
  "read_dentry_by_name m f fname d = do {
     n \<leftarrow> strlen fname;
     if n = 0 then Some (- 1, d)
     else dentry_search m f fname d [0..<MAX_NUM_DENTRIES]
   }"

subsection \<open>File data\<close>

definition blocks_valid :: "mem \<Rightarrow> fs \<Rightarrow> u32 \<Rightarrow> bool" where
  "blocks_valid m f inode =
     list_all (\<lambda>i. data_index m f inode (of_nat i) < num_data_blocks m f)
       [0..<Suc (unat (inode_length m f inode) div 4096)]"

function read_data_loop ::
  "mem \<Rightarrow> fs \<Rightarrow> u32 \<Rightarrow> nat \<Rightarrow> nat \<Rightarrow> u32 \<Rightarrow> u32 \<Rightarrow> u32 \<Rightarrow> u8 list" where
  "read_data_loop m f inode len bytes_written block_index curr_data_block offset =
     (if bytes_written < len
      then (let wrap = FS_BLOCK_SIZE \<le> offset;
                block_index' = (if wrap then block_index + 1 else block_index);
                curr' = (if wrap then data_index m f inode block_index' else curr_data_block);
                offset' = (if wrap then 0 else offset)
            in block_byte m f curr' offset' #
               read_data_loop m f inode len (Suc bytes_written) block_index' curr' (offset' + 1))
      else [])"
  by pat_completeness auto
termination
  by (relation "measure (\<lambda>(m, f, inode, len, k, _). len - k)") auto

declare read_data_loop.simps [simp del]

text \<open>
  The result is the return value and the bytes stored from \<open>buf[0]\<close> on. The sum in the first
  test is one of 32-bit unsigned numbers.
\<close>

definition read_data :: "mem \<Rightarrow> fs \<Rightarrow> u32 \<Rightarrow> u32 \<Rightarrow> u32 \<Rightarrow> int \<times> u8 list" where
  "read_data m f inode offset len =
     (if num_inodes m f \<le> inode \<or> inode_length m f inode < offset + len then (- 1, [])
      else if \<not> blocks_valid m f inode then (- 1, [])
      else (let block_index = offset div FS_BLOCK_SIZE;
                bs = read_data_loop m f inode (unat len) 0 block_index
                       (data_index m f inode block_index) (offset mod FS_BLOCK_SIZE)
            in (int (length bs), bs)))"

text \<open>
  \<open>file_read\<close> and \<open>dir_read\<close> on the file position of a descriptor: the return value, the
  bytes stored and the new position. The process block they take it from is added in the theory of
  the system calls.
\<close>

definition file_read_at :: "mem \<Rightarrow> fs \<Rightarrow> u32 \<Rightarrow> u32 \<Rightarrow> u32 \<Rightarrow> int \<times> u8 list \<times> u32" where
  "file_read_at m f inode_idx position nbytes =
     (let nbytes' = (if inode_length m f inode_idx - position < nbytes
                     then inode_length m f inode_idx - position else nbytes);
          (bytes_read, bs) = read_data m f inode_idx position nbytes'
      in (bytes_read, bs, position + word_of_int bytes_read))"

definition file_open :: "u8 list \<Rightarrow> int" where "file_open filename = 0"

definition file_close :: "int \<Rightarrow> int" where "file_close fd = 0"

definition file_write :: "int \<Rightarrow> u8 list \<Rightarrow> int \<Rightarrow> int" where "file_write fd buf nbytes = - 1"

text \<open>
  The scan of \<open>dir_read\<close> from index \<open>i\<close>: \<open>Inl ()\<close> is the early return when
  \<open>read_dentry_by_index\<close> fails, otherwise the index after the scan, the last entry read into the
  local \<open>dentry\<close>, and whether the scan stopped at a populated entry.
\<close>

function dir_scan :: "mem \<Rightarrow> fs \<Rightarrow> dentry_t \<Rightarrow> int \<Rightarrow> (unit + int \<times> dentry_t \<times> bool) option" where
  "dir_scan m f d i =
     (if i < int MAX_NUM_DENTRIES
      then do {
        (r, d') \<leftarrow> read_dentry_by_index m f (word_of_int i) d;
        if r \<noteq> 0 then Some (Inl ())
        else do {
          c \<leftarrow> rd (file_name d') 0;
          if c \<noteq> 0 then Some (Inr (i + 1, d', True)) else dir_scan m f d' (i + 1)
        }
      }
      else Some (Inr (i, d, False)))"
  by pat_completeness auto
termination
  by (relation "measure (\<lambda>(m, f, d, i). nat (int MAX_NUM_DENTRIES - i))") auto

declare dir_scan.simps [simp del]

text \<open>\<open>d0\<close> is the uninitialised local \<open>dentry\<close>.\<close>

definition dir_read_at ::
  "mem \<Rightarrow> fs \<Rightarrow> dentry_t \<Rightarrow> u32 \<Rightarrow> u32 \<Rightarrow> (int \<times> u8 list \<times> u32) option" where
  "dir_read_at m f d0 position nbytes = do {
     scan \<leftarrow> dir_scan m f d0 (sint position);
     case scan of
       Inl _ \<Rightarrow> Some (0, [], position)
     | Inr (i, d, found) \<Rightarrow> do {
         out \<leftarrow> (if found then strncpy (replicate (unat nbytes) 0) (dentry_bytes d) (unat nbytes)
                 else Some []);
         n \<leftarrow> strlen (dentry_bytes d);
         Some (if unat nbytes < n then sint nbytes else int n, out, word_of_int i)
       }
   }"

subsection \<open>Specification: the content of a file\<close>

definition file_byte :: "mem \<Rightarrow> fs \<Rightarrow> u32 \<Rightarrow> nat \<Rightarrow> u8" where
  "file_byte m f inode p =
     block_byte m f (data_index m f inode (of_nat (p div 4096))) (of_nat (p mod 4096))"

definition contents :: "mem \<Rightarrow> fs \<Rightarrow> u32 \<Rightarrow> u8 list" where
  "contents m f inode = map (file_byte m f inode) [0..<unat (inode_length m f inode)]"

text \<open>An inode the driver accepts.\<close>

definition inode_ok :: "mem \<Rightarrow> fs \<Rightarrow> u32 \<Rightarrow> bool" where
  "inode_ok m f inode \<longleftrightarrow> inode < num_inodes m f \<and> blocks_valid m f inode"

lemma length_contents [simp]: "length (contents m f inode) = unat (inode_length m f inode)"
  by (simp add: contents_def)

lemma slice_contents:
  "p + n \<le> unat (inode_length m f inode) \<Longrightarrow>
     take n (drop p (contents m f inode)) = map (file_byte m f inode) [p..<p + n]"
  by (simp add: contents_def take_map drop_map)

text \<open>
  The loop invariant: the block index and the offset in the block address the position, where the
  offset may have reached the block size.
\<close>

lemma read_data_loop_bytes:
  assumes "cb = data_index m f inode bi" "unat off \<le> 4096"
    and "p = 4096 * unat bi + unat off" and "p + (len - k) < 2 ^ 32"
  shows "read_data_loop m f inode len k bi cb off = map (file_byte m f inode) [p..<p + (len - k)]"
  using assms
proof (induction "len - k" arbitrary: k bi cb off p)
  case 0
  then show ?case by (simp add: read_data_loop.simps)
next
  case (Suc r)
  then have kl: "k < len" by simp
  let ?wrap = "FS_BLOCK_SIZE \<le> off"
  let ?bi = "if ?wrap then bi + 1 else bi" and ?off = "if ?wrap then 0 else off"
  have "?wrap \<Longrightarrow> unat off = 4096" using Suc.prems(2) by (simp add: word_le_nat_alt)
  moreover have "?wrap \<Longrightarrow> unat (bi + 1) = unat bi + 1"
    using calculation Suc.prems(3,4) by (simp add: unat_word_ariths)
  ultimately have pos: "p = 4096 * unat ?bi + unat ?off" "unat ?off < 4096"
    using Suc.prems(3) by (auto simp: word_le_nat_alt)
  then have dm: "p div 4096 = unat ?bi" "p mod 4096 = unat ?off" by auto
  have "unat (?off + 1) = unat ?off + 1" using pos(2) by (simp add: unat_word_ariths)
  then have "read_data_loop m f inode len (Suc k) ?bi (data_index m f inode ?bi) (?off + 1) =
      map (file_byte m f inode) [Suc p..<Suc p + (len - Suc k)]"
    using Suc.hyps(2) Suc.prems(4) pos kl by (intro Suc.hyps(1)) auto
  moreover have "block_byte m f (data_index m f inode ?bi) ?off = file_byte m f inode p"
    by (simp add: file_byte_def dm)
  moreover have "p + (len - k) = Suc p + (len - Suc k)" using kl by simp
  then have "[p..<p + (len - k)] = p # [Suc p..<Suc p + (len - Suc k)]"
    by (simp only:) (rule upt_conv_Cons, simp)
  ultimately show ?case
    using kl Suc.prems(1) by (subst read_data_loop.simps) (auto simp: Let_def)
qed

lemma read_data_contents:
  assumes "inode_ok m f inode"
    and "unat offset + unat len \<le> unat (inode_length m f inode)"
  shows "read_data m f inode offset len =
    (int (unat len), take (unat len) (drop (unat offset) (contents m f inode)))"
proof -
  have lt: "unat offset + unat len < 2 ^ 32"
    using assms(2) u32_bound [of "inode_length m f inode"] by (rule le_less_trans)
  then have sum: "unat (offset + len) = unat offset + unat len" by (simp add: unat_word_ariths)
  have "read_data_loop m f inode (unat len) 0 (offset div 4096) (data_index m f inode (offset div 4096))
      (offset mod 4096) = map (file_byte m f inode) [unat offset..<unat offset + (unat len - 0)]"
    using lt by (intro read_data_loop_bytes) (auto simp: unat_div unat_mod less_imp_le)
  then show ?thesis
    using assms sum slice_contents [OF assms(2)]
    by (auto simp: read_data_def inode_ok_def Let_def word_less_nat_alt word_le_nat_alt)
qed

lemma file_read_at_contents:
  fixes nbytes :: u32
  assumes "inode_ok m f inode" and "unat pos \<le> unat (inode_length m f inode)"
  defines "n \<equiv> min (unat nbytes) (unat (inode_length m f inode) - unat pos)"
  shows "file_read_at m f inode pos nbytes =
    (int n, take n (drop (unat pos) (contents m f inode)), pos + of_nat n)"
proof -
  let ?L = "inode_length m f inode"
  let ?nb = "if ?L - pos < nbytes then ?L - pos else nbytes"
  have "unat (?L - pos) = unat ?L - unat pos"
    using assms(2) by (simp add: unat_sub word_le_nat_alt)
  then have nb: "unat ?nb = n" by (simp add: n_def word_less_nat_alt min_def)
  then have "unat pos + unat ?nb \<le> unat ?L" using assms(2) by (simp add: n_def)
  from read_data_contents [OF assms(1) this] nb show ?thesis
    by (simp add: file_read_at_def Let_def)
qed

subsection \<open>Interface: a byte source\<close>

text \<open>
  What a reader relies on: a read at a position inside the content returns as many of the requested
  bytes as there are, and moves the position past them. Reading in chunks until a read returns 0
  then yields the content.
\<close>

fun drain :: "(u32 \<Rightarrow> u32 \<Rightarrow> int \<times> u8 list \<times> u32) \<Rightarrow> u32 \<Rightarrow> nat \<Rightarrow> u32 \<Rightarrow> u8 list option" where
  "drain fetch chunk 0 pos = None"
| "drain fetch chunk (Suc fuel) pos =
     (case fetch pos chunk of (cnt, bs, pos') \<Rightarrow>
        if cnt = 0 then Some [] else map_option ((@) bs) (drain fetch chunk fuel pos'))"

locale byte_source =
  fixes fetch :: "'i \<Rightarrow> u32 \<Rightarrow> u32 \<Rightarrow> int \<times> u8 list \<times> u32"
    and content :: "'i \<Rightarrow> u8 list"
    and ok :: "'i \<Rightarrow> bool"
  assumes fetch_law: "ok i \<Longrightarrow> unat pos \<le> length (content i) \<Longrightarrow>
      fetch i pos n = (int (min (unat n) (length (content i) - unat pos)),
                       take (min (unat n) (length (content i) - unat pos)) (drop (unat pos) (content i)),
                       pos + of_nat (min (unat n) (length (content i) - unat pos)))"
    and content_bound: "length (content i) < 2 ^ 32"
begin

lemma position_advance:
  "unat (pos :: u32) \<le> length (content i) \<Longrightarrow>
     unat (pos + of_nat (min k (length (content i) - unat pos))) =
     unat pos + min k (length (content i) - unat pos)"
  using content_bound [of i] by (simp add: unat_word_ariths unat_of_nat)

lemma drain_content:
  assumes "ok i" "unat pos \<le> length (content i)" "0 < unat chunk"
    "length (content i) - unat pos < fuel"
  shows "drain (fetch i) chunk fuel pos = Some (drop (unat pos) (content i))"
  using assms(2-)
proof (induction fuel arbitrary: pos)
  case (Suc fuel)
  let ?k = "min (unat chunk) (length (content i) - unat pos)"
  show ?case
  proof (cases "length (content i) = unat pos")
    case False
    then have k: "0 < ?k" using Suc.prems by auto
    have p: "unat (pos + of_nat ?k) = unat pos + ?k"
      using Suc.prems(1) by (rule position_advance)
    then have "drain (fetch i) chunk fuel (pos + of_nat ?k) = Some (drop (unat pos + ?k) (content i))"
      using k Suc.prems by (subst Suc.IH) auto
    moreover have "take ?k (drop (unat pos) (content i)) @ drop (unat pos + ?k) (content i) =
        drop (unat pos) (content i)"
      using append_take_drop_id [of ?k "drop (unat pos) (content i)"] by (simp add: add.commute)
    moreover have "fetch i pos chunk = (int ?k, take ?k (drop (unat pos) (content i)), pos + of_nat ?k)"
      using assms(1) Suc.prems(1) by (rule fetch_law)
    ultimately show ?thesis using k by (simp del: of_nat_min)
  qed (use Suc.prems fetch_law [OF assms(1) Suc.prems(1), of chunk] in simp)
qed simp

end

text \<open>A file of the image is a byte source; the index is the image, its sections and the inode.\<close>

interpretation fsfile: byte_source
  "\<lambda>(m, f, inode). file_read_at m f inode" "\<lambda>(m, f, inode). contents m f inode"
  "\<lambda>(m, f, inode). inode_ok m f inode"
  by unfold_locales (auto simp: file_read_at_contents u32_bound [simplified])

subsection \<open>Specification: names\<close>

definition entry_name :: "mem \<Rightarrow> fs \<Rightarrow> nat \<Rightarrow> u8 list" where
  "entry_name m f i = take 32 (cstr (mem_bytes m (dentry_addr f i) 64))"

definition dentry_at :: "mem \<Rightarrow> fs \<Rightarrow> nat \<Rightarrow> dentry_t \<Rightarrow> dentry_t" where
  "dentry_at m f i d =
     d\<lparr>file_name := entry_name m f i @ replicate (32 - length (entry_name m f i)) 0,
       file_type := ld32 m (dentry_addr f i + 32),
       inode_index := ld32 m (dentry_addr f i + 36)\<rparr>"

lemma length_mem_bytes [simp]: "length (mem_bytes m a n) = n"
  by (simp add: mem_bytes_def)

lemma length_entry_name: "length (entry_name m f i) \<le> 32"
  by (simp add: entry_name_def)

lemma file_name_dentry_at [simp]: "length (file_name (dentry_at m f i d)) = 32"
  using length_entry_name [of m f i] by (simp add: dentry_at_def)

lemma copy_dentry_eq:
  "length (file_name d) = 32 \<Longrightarrow> copy_dentry m f i d = Some (dentry_at m f i d)"
  by (simp add: copy_dentry_def strncpy_eq dentry_at_def entry_name_def min_def)

lemma dentry_search_find:
  assumes "length (file_name d) = 32" "0 \<in> set fname"
  shows "dentry_search m f fname d is =
    (case find (\<lambda>i. entry_name m f i = take 32 (cstr fname)) is of
       None \<Rightarrow> Some (- 1, d) | Some i \<Rightarrow> Some (0, dentry_at m f i d))"
proof (induction "is")
  case (Cons i "is")
  obtain r where r: "strncmp fname (mem_bytes m (dentry_addr f i) 64) 32 = Some r"
    using strncmp_defined [of 32 fname "mem_bytes m (dentry_addr f i) 64"] assms(2) by auto
  then have "r = 0 \<longleftrightarrow> entry_name m f i = take 32 (cstr fname)"
    using strncmp_zero_iff [of 32 fname "mem_bytes m (dentry_addr f i) 64"] assms(2)
    by (auto simp: entry_name_def)
  with Cons r show ?case by (simp add: copy_dentry_eq assms(1))
qed simp

lemma read_dentry_by_name_find:
  assumes "length (file_name d) = 32" "0 \<in> set fname"
  shows "read_dentry_by_name m f fname d =
    (if cstr fname = [] then Some (- 1, d)
     else case find (\<lambda>i. entry_name m f i = take 32 (cstr fname)) [0..<63] of
            None \<Rightarrow> Some (- 1, d) | Some i \<Rightarrow> Some (0, dentry_at m f i d))"
  using dentry_search_find [OF assms] by (simp add: read_dentry_by_name_def strlen_cstr [OF assms(2)])

subsection \<open>Reading the directory\<close>

lemma dentry_at_dentry_at [simp]: "dentry_at m f j (dentry_at m f i d) = dentry_at m f j d"
  by (simp add: dentry_at_def)

lemma entry_name_nonzero: "0 \<notin> set (entry_name m f i)"
  using cstr_no_zero by (auto simp: entry_name_def dest: in_set_takeD)

lemma entry_name_Nil_iff: "entry_name m f i = [] \<longleftrightarrow> file_name (dentry_at m f i d) ! 0 = 0"
  using entry_name_nonzero [of m f i] by (cases "entry_name m f i") (auto simp: dentry_at_def)

lemma read_dentry_by_index_eq:
  assumes "length (file_name d) = 32" "i < 63"
  shows "read_dentry_by_index m f (of_nat i) d = Some (0, dentry_at m f i d)"
proof -
  have "unat (of_nat i :: u32) = i" using assms(2) by (simp add: unat_of_nat)
  then show ?thesis
    using assms by (simp add: read_dentry_by_index_def copy_dentry_eq word_le_nat_alt)
qed

lemma dir_scan_find:
  assumes "length (file_name d) = 32" "i \<le> 63"
  shows "dir_scan m f d (int i) =
    (case find (\<lambda>j. entry_name m f j \<noteq> []) [i..<63] of
       Some j \<Rightarrow> Some (Inr (int j + 1, dentry_at m f j d, True))
     | None \<Rightarrow> Some (Inr (63, if i < 63 then dentry_at m f 62 d else d, False)))"
  using assms
proof (induction "63 - i" arbitrary: i d)
  case 0
  then show ?case by (simp add: dir_scan.simps)
next
  case (Suc n)
  then have i: "i < 63" by simp
  have step: "dir_scan m f (dentry_at m f i d) (1 + int i) =
    (case find (\<lambda>j. entry_name m f j \<noteq> []) [Suc i..<63] of
       Some j \<Rightarrow> Some (Inr (int j + 1, dentry_at m f j d, True))
     | None \<Rightarrow> Some (Inr (63, if Suc i < 63 then dentry_at m f 62 d else dentry_at m f i d, False)))"
    using Suc.hyps(1) [of "Suc i" "dentry_at m f i d"] Suc.hyps(2) Suc.prems i
    by (simp split: option.split)
  have upt: "[i..<63] = i # [Suc i..<63]" using i by (rule upt_conv_Cons)
  have rd0: "rd (file_name (dentry_at m f i d)) 0 = Some (file_name (dentry_at m f i d) ! 0)"
    by (simp add: rd_def flip: length_greater_0_conv)
  have last: "(if Suc i < 63 then dentry_at m f 62 d else dentry_at m f i d) = dentry_at m f 62 d"
    using i by (cases "i = 62") auto
  show ?case
    using i step Suc.prems(1) unfolding upt last
    by (subst dir_scan.simps)
      (simp add: read_dentry_by_index_eq rd0 entry_name_Nil_iff [where d = d] add.commute)
qed

text \<open>
  The name is read from the copied entry, where \<open>strlen\<close> stops at the latest in the type field
  when the type is below \<open>2 ^ 24\<close>.
\<close>

lemma zero_in_le32: "w < 2 ^ 24 \<Longrightarrow> 0 \<in> set (le32 w)"
proof -
  assume "w < 2 ^ 24"
  then have "drop_bit 24 w = 0" by (simp add: drop_bit_eq_div word_less_nat_alt unat_div word_arith_nat_div)
  then show ?thesis by (simp add: le32_def)
qed

lemma cstr_padded: "0 \<notin> set w \<Longrightarrow> cstr (w @ replicate (Suc n) 0 @ t) = w"
  by (simp add: cstr_simps)

lemma strlen_dentry_at:
  assumes "ld32 m (dentry_addr f i + 32) < 2 ^ 24"
  shows "0 \<in> set (dentry_bytes (dentry_at m f i d))"
    and "take 32 (cstr (dentry_bytes (dentry_at m f i d))) = entry_name m f i"
proof -
  let ?w = "entry_name m f i"
  let ?t = "le32 (ld32 m (dentry_addr f i + 32)) @ le32 (ld32 m (dentry_addr f i + 36)) @ d_reserved d"
  have bytes: "dentry_bytes (dentry_at m f i d) = ?w @ replicate (32 - length ?w) 0 @ ?t"
    by (simp add: dentry_bytes_def dentry_at_def)
  show "0 \<in> set (dentry_bytes (dentry_at m f i d))"
    using zero_in_le32 [OF assms] bytes by simp
  have nz: "0 \<notin> set ?w" by (rule entry_name_nonzero)
  show "take 32 (cstr (dentry_bytes (dentry_at m f i d))) = ?w"
  proof (cases "length ?w = 32")
    case True
    moreover have "cstr (?w @ ?t) = ?w @ cstr ?t"
      unfolding cstr_def using nz by (intro takeWhile_append2) auto
    ultimately show ?thesis by (simp add: bytes)
  next
    case False
    then obtain n where "32 - length ?w = Suc n" using length_entry_name [of m f i] by (cases "32 - length ?w") auto
    with nz show ?thesis using length_entry_name [of m f i] by (simp add: bytes cstr_simps)
  qed
qed

lemma dir_read_at_next:
  assumes "length (file_name d) = 32" "unat pos < 63" "unat nbytes \<le> 32"
    and "find (\<lambda>j. entry_name m f j \<noteq> []) [unat pos..<63] = Some j"
    and "ld32 m (dentry_addr f j + 32) < 2 ^ 24"
  shows "dir_read_at m f d pos nbytes =
    (let w = take (unat nbytes) (entry_name m f j)
     in Some (int (length w), w @ replicate (unat nbytes - length w) 0, of_nat (Suc j)))"
proof -
  let ?b = "dentry_bytes (dentry_at m f j d)"
  note b = strlen_dentry_at [OF assms(5), of d]
  have pos: "sint pos = int (unat pos)"
    using assms(2) by (intro sint_small) simp
  have nb: "sint nbytes = int (unat nbytes)"
    using assms(3) by (intro sint_small) simp
  have nm: "take (unat nbytes) (cstr ?b) = take (unat nbytes) (entry_name m f j)"
    using assms(3) by (simp flip: b(2) add: min_def)
  have len: "length (take (unat nbytes) (cstr ?b)) = min (unat nbytes) (length (cstr ?b))"
    by simp
  show ?thesis
    using assms(1-4) b(1) dir_scan_find [OF assms(1), of "unat pos" m f] nm len
    by (simp add: dir_read_at_def pos nb strncpy_eq strlen_cstr Let_def)
qed

lemma dir_read_at_end:
  assumes "length (file_name d) = 32" "unat pos < 63"
    and "find (\<lambda>j. entry_name m f j \<noteq> []) [unat pos..<63] = None"
  shows "dir_read_at m f d pos nbytes = Some (0, [], 63)"
proof -
  have "62 \<in> set [unat pos..<63]" using assms(2) by simp
  then have "entry_name m f 62 = []" using assms(3) by (auto simp: find_None_iff simp del: set_upt)
  then have "strlen (dentry_bytes (dentry_at m f 62 d)) = Some 0"
    by (simp add: dentry_bytes_def dentry_at_def strlen_cstr cstr_simps numeral_eq_Suc)
  moreover have "sint pos = int (unat pos)"
    using assms(2) by (intro sint_small) simp
  ultimately show ?thesis
    using assms dir_scan_find [OF assms(1), of "unat pos" m f] by (simp add: dir_read_at_def)
qed

subsection \<open>Properties\<close>



text \<open>
  Reading a file in chunks of any positive size until a read returns 0 ends after at most one read
  more than the file has bytes left, and yields exactly the rest of the file.
\<close>

lemma chunked_read_is_file:
  assumes "inode_ok m f inode" "unat pos \<le> length (contents m f inode)" "0 < unat chunk"
    and "length (contents m f inode) - unat pos < fuel"
  shows "drain (file_read_at m f inode) chunk fuel pos = Some (drop (unat pos) (contents m f inode))"
  using fsfile.drain_content [of "(m, f, inode)" pos chunk fuel] assms by simp

text \<open>
  \<open>read_dentry_by_name\<close> finds the first directory entry whose name is the first 32 characters
  of the argument and copies its name, type and inode; for the empty name and for a name that no entry
  has it returns -1 and leaves the result as it was.
\<close>

lemma read_dentry_by_name_correct:
  assumes "length (file_name d) = 32" "0 \<in> set fname"
  shows "read_dentry_by_name m f fname d =
    (if cstr fname = [] then Some (- 1, d)
     else case find (\<lambda>i. entry_name m f i = take 32 (cstr fname)) [0..<63] of
            None \<Rightarrow> Some (- 1, d) | Some i \<Rightarrow> Some (0, dentry_at m f i d))"
  using assms by (rule read_dentry_by_name_find)

text \<open>Listing a directory: reads of 32 bytes until one returns 0.\<close>

fun list_dir :: "mem \<Rightarrow> fs \<Rightarrow> dentry_t \<Rightarrow> nat \<Rightarrow> u32 \<Rightarrow> u8 list list option" where
  "list_dir m f d 0 pos = None"
| "list_dir m f d (Suc fuel) pos =
     (case dir_read_at m f d pos 32 of
        None \<Rightarrow> None
      | Some (cnt, bs, pos') \<Rightarrow>
          if cnt = 0 then Some [] else map_option ((#) (take (nat cnt) bs)) (list_dir m f d fuel pos'))"

lemma find_filter_upt:
  assumes "find P [i..<n] = Some j"
  shows "filter P [i..<n] = j # filter P [Suc j..<n]" "i \<le> j" "j < n" "P j"
proof -
  show j: "i \<le> j" "j < n" "P j" using find_in_set [OF assms] by simp_all
  obtain k where k: "k < length [i..<n]" "[i..<n] ! k = j" "\<And>l. l < k \<Longrightarrow> \<not> P ([i..<n] ! l)"
    using assms unfolding find_Some_iff by blast
  have "[i..<n] = [i..<j] @ j # [Suc j..<n]"
    using j upt_add_eq_append [of i j "n - j"] upt_conv_Cons [of j n] by simp
  moreover have "\<not> P l" if "l \<in> set [i..<j]" for l using k(3) [of "l - i"] k(1,2) that by (cases "l - i < k") auto
  then have "filter P [i..<j] = []" by (simp add: filter_empty_conv)
  ultimately show "filter P [i..<n] = j # filter P [Suc j..<n]" using j(3) by simp
qed

text \<open>
  Reading a directory 32 bytes at a time until a read returns 0 ends and yields the names of all
  entries in use, in their order, each cut to 32 characters; the last slot of the table must be free
  (after it the code would use an entry it never read) and the file types must be small numbers.
\<close>

lemma list_dir_names:
  assumes "length (file_name d) = 32" "entry_name m f 62 = []"
    and "\<And>i. i < 63 \<Longrightarrow> ld32 m (dentry_addr f i + 32) < 2 ^ 24"
    and "unat pos < 63" "63 - unat pos < fuel"
  shows "list_dir m f d fuel pos =
    Some (map (entry_name m f) (filter (\<lambda>i. entry_name m f i \<noteq> []) [unat pos..<63]))"
  using assms(4,5)
proof (induction fuel arbitrary: pos)
  case (Suc fuel)
  show ?case
  proof (cases "find (\<lambda>j. entry_name m f j \<noteq> []) [unat pos..<63]")
    case None
    then have "filter (\<lambda>i. entry_name m f i \<noteq> []) [unat pos..<63] = []"
      by (auto simp: find_None_iff filter_empty_conv simp del: upt_rec_numeral)
    with dir_read_at_end [OF assms(1) Suc.prems(1) None, of 32] show ?thesis
      by (simp del: upt_rec_numeral)
  next
    case (Some j)
    note j = find_filter_upt [OF Some]
    have "j \<noteq> 62" using j(4) assms(2) by metis
    then have j62: "Suc j < 63" using j(3) by simp
    then have u: "unat (of_nat (Suc j) :: u32) = Suc j" by (simp only: unat_of_nat) simp
    have len: "length (entry_name m f j) \<le> 32" by (rule length_entry_name)
    have "list_dir m f d fuel (of_nat (Suc j)) =
        Some (map (entry_name m f) (filter (\<lambda>i. entry_name m f i \<noteq> []) [Suc j..<63]))"
      using Suc.IH [of "of_nat (Suc j)", unfolded u] j62 Suc.prems(2) j(2) by simp
    moreover have "dir_read_at m f d pos 32 =
        Some (int (length (entry_name m f j)), entry_name m f j @ replicate (32 - length (entry_name m f j)) 0,
          of_nat (Suc j))"
      using dir_read_at_next [OF assms(1) Suc.prems(1) _ Some assms(3) [OF j(3)], of 32] len by (simp add: Let_def)
    ultimately show ?thesis unfolding j(1) using j(4) by (simp del: upt_rec_numeral)
  qed
qed simp

end
