(* ===== verification/Multiboot.thy ===== *)
theory Multiboot
  imports Printf Filesys
begin

text \<open>
  The report on the boot information that the kernel's \<open>entry\<close> prints, the first half of
  \<open>src/student-distrib/kernel.c\<close>, with the structures of \<open>multiboot.h\<close> read from memory.

  The main lemma: the report changes nothing but the console, and yields the address of the first
  module, where the file system image lies.
\<close>

abbreviation MULTIBOOT_BOOTLOADER_MAGIC :: u32 where "MULTIBOOT_BOOTLOADER_MAGIC \<equiv> 0x2BADB002"

definition CHECK_FLAG :: "u32 \<Rightarrow> nat \<Rightarrow> bool" where
  "CHECK_FLAG flags b \<longleftrightarrow> flags AND push_bit b 1 \<noteq> 0"

subsection \<open>The structures\<close>

record multiboot_info_t =
  mbi_flags :: u32
  mem_lower :: u32
  mem_upper :: u32
  boot_device :: u32
  cmdline :: u32
  mods_count :: u32
  mods_addr :: u32
  elf_num :: u32
  elf_size :: u32
  elf_addr :: u32
  elf_shndx :: u32
  mmap_length :: u32
  mmap_addr :: u32

definition read_mbi :: "mem \<Rightarrow> u32 \<Rightarrow> multiboot_info_t" where
  "read_mbi m a =
     \<lparr>mbi_flags = ld32 m a, mem_lower = ld32 m (a + 4), mem_upper = ld32 m (a + 8),
      boot_device = ld32 m (a + 12), cmdline = ld32 m (a + 16), mods_count = ld32 m (a + 20),
      mods_addr = ld32 m (a + 24), elf_num = ld32 m (a + 28), elf_size = ld32 m (a + 32),
      elf_addr = ld32 m (a + 36), elf_shndx = ld32 m (a + 40), mmap_length = ld32 m (a + 44),
      mmap_addr = ld32 m (a + 48)\<rparr>"

record module_t =
  mod_start :: u32
  mod_end :: u32
  mod_string :: u32
  mod_reserved :: u32

definition read_module :: "mem \<Rightarrow> u32 \<Rightarrow> module_t" where
  "read_module m a = \<lparr>mod_start = ld32 m a, mod_end = ld32 m (a + 4), mod_string = ld32 m (a + 8),
     mod_reserved = ld32 m (a + 12)\<rparr>"

record memory_map_t =
  mmap_size :: u32
  base_addr_low :: u32
  base_addr_high :: u32
  length_low :: u32
  length_high :: u32
  mmap_type :: u32

definition read_mmap :: "mem \<Rightarrow> u32 \<Rightarrow> memory_map_t" where
  "read_mmap m a =
     \<lparr>mmap_size = ld32 m a, base_addr_low = ld32 m (a + 4), base_addr_high = ld32 m (a + 8),
      length_low = ld32 m (a + 12), length_high = ld32 m (a + 16), mmap_type = ld32 m (a + 20)\<rparr>"

text \<open>The C string at an address, with its NUL; without one in memory the reading does not end.\<close>

partial_function (option) mem_string :: "mem \<Rightarrow> u32 \<Rightarrow> u8 list option" where
  "mem_string m a =
     (if m a = 0 then Some [0]
      else do { t \<leftarrow> mem_string m (a + 1); Some (m a # t) })"

subsection \<open>The report\<close>

definition print :: "string \<Rightarrow> varg list \<Rightarrow> 'a console_scheme \<Rightarrow> 'a console_scheme option" where
  "print format args s = map_option snd (printf format args s)"

definition nl :: string where "nl = [CHR 0x0A]"

fun print_bytes :: "mem \<Rightarrow> u32 \<Rightarrow> nat list \<Rightarrow> 'a console_scheme \<Rightarrow> 'a console_scheme option" where
  "print_bytes m a [] s = Some s"
| "print_bytes m a (i # is) s = do {
     s \<leftarrow> print ''0x%x '' [VInt (scast (m (a + of_nat i)))] s;
     print_bytes m a is s
   }"

definition print_module :: "mem \<Rightarrow> nat \<Rightarrow> module_t \<Rightarrow> 'a console_scheme \<Rightarrow> 'a console_scheme option" where
  "print_module m mod_count md s = do {
     s \<leftarrow> print (''Module %d loaded at address: 0x%#x'' @ nl) [VInt (of_nat mod_count), VInt (mod_start md)] s;
     s \<leftarrow> print (''Module %d ends at address: 0x%#x'' @ nl) [VInt (of_nat mod_count), VInt (mod_end md)] s;
     s \<leftarrow> print (''First few bytes of module:'' @ nl) [] s;
     s \<leftarrow> print_bytes m (mod_start md) [0..<16] s;
     print nl [] s
   }"

text \<open>The loop over the modules; the first one is the file system.\<close>

fun print_modules :: "mem \<Rightarrow> u32 \<Rightarrow> nat list \<Rightarrow> u32 \<times> 'a console_scheme \<Rightarrow> (u32 \<times> 'a console_scheme) option" where
  "print_modules m mods [] (fs_address, s) = Some (fs_address, s)"
| "print_modules m mods (mod_count # is) (fs_address, s) =
     (let md = read_module m (mods + 16 * of_nat mod_count)
      in do {
        s \<leftarrow> print_module m mod_count md s;
        print_modules m mods is (if mod_count = 0 then mod_start md else fs_address, s)
      })"

definition print_mmap :: "memory_map_t \<Rightarrow> 'a console_scheme \<Rightarrow> 'a console_scheme option" where
  "print_mmap e =
     print (''    size = 0x%x, base_addr = 0x%#x%#x'' @ nl @ ''    type = 0x%x,  length    = 0x%#x%#x'' @ nl)
       [VInt (mmap_size e), VInt (base_addr_high e), VInt (base_addr_low e),
        VInt (mmap_type e), VInt (length_high e), VInt (length_low e)]"

partial_function (option) print_mmaps ::
  "mem \<Rightarrow> u32 \<Rightarrow> u32 \<Rightarrow> 'a console_scheme \<Rightarrow> 'a console_scheme option" where
  "print_mmaps m mmap stop s =
     (if mmap < stop
      then (case print_mmap (read_mmap m mmap) s of
              None \<Rightarrow> None
            | Some s' \<Rightarrow> print_mmaps m (mmap + mmap_size (read_mmap m mmap) + 4) stop s')
      else Some s)"

definition on_flag :: "bool \<Rightarrow> ('s \<Rightarrow> 's option) \<Rightarrow> 's \<Rightarrow> 's option" where
  "on_flag b f s = (if b then f s else Some s)"

definition print_memory :: "mem \<Rightarrow> multiboot_info_t \<Rightarrow> 'a console_scheme \<Rightarrow> 'a console_scheme option" where
  "print_memory m mbi s = do {
     let flags = mbi_flags mbi;
     s \<leftarrow> print (''flags = 0x%#x'' @ nl) [VInt flags] s;
     s \<leftarrow> on_flag (CHECK_FLAG flags 0)
       (print (''mem_lower = %uKB, mem_upper = %uKB'' @ nl) [VInt (mem_lower mbi), VInt (mem_upper mbi)]) s;
     s \<leftarrow> on_flag (CHECK_FLAG flags 1) (print (''boot_device = 0x%#x'' @ nl) [VInt (boot_device mbi)]) s;
     on_flag (CHECK_FLAG flags 2)
       (\<lambda>s. do { t \<leftarrow> mem_string m (cmdline mbi); print (''cmdline = %s'' @ nl) [VStr t] s }) s
   }"

definition print_sections :: "mem \<Rightarrow> multiboot_info_t \<Rightarrow> 'a console_scheme \<Rightarrow> 'a console_scheme option" where
  "print_sections m mbi s = do {
     let flags = mbi_flags mbi;
     s \<leftarrow> on_flag (CHECK_FLAG flags 5)
       (print (''elf_sec: num = %u, size = 0x%#x, addr = 0x%#x, shndx = 0x%#x'' @ nl)
          [VInt (elf_num mbi), VInt (elf_size mbi), VInt (elf_addr mbi), VInt (elf_shndx mbi)]) s;
     on_flag (CHECK_FLAG flags 6)
       (\<lambda>s. do {
          s \<leftarrow> print (''mmap_addr = 0x%#x, mmap_length = 0x%x'' @ nl)
                 [VInt (mmap_addr mbi), VInt (mmap_length mbi)] s;
          print_mmaps m (mmap_addr mbi) (mmap_addr mbi + mmap_length mbi) s
        }) s
   }"

text \<open>
  The whole report: \<open>Inl\<close> when \<open>entry\<close> returns early, otherwise the address of module 0
  (\<open>uninit\<close> when there is none).
\<close>

definition multiboot_report ::
  "mem \<Rightarrow> u32 \<Rightarrow> u32 \<Rightarrow> u32 \<Rightarrow> 'a console_scheme \<Rightarrow> ('a console_scheme + u32 \<times> 'a console_scheme) option" where
  "multiboot_report m uninit magic address s = do {
     s \<leftarrow> clear s;
     if magic \<noteq> MULTIBOOT_BOOTLOADER_MAGIC
     then map_option Inl (print (''Invalid magic number: 0x%#x'' @ nl) [VInt magic] s)
     else do {
       let mbi = read_mbi m address;
       let flags = mbi_flags mbi;
       s \<leftarrow> print_memory m mbi s;
       (fs_address, s) \<leftarrow>
         (if CHECK_FLAG flags 3
          then print_modules m (mods_addr mbi) [0..<unat (mods_count mbi)] (uninit, s)
          else Some (uninit, s));
       if CHECK_FLAG flags 4 \<and> CHECK_FLAG flags 5
       then map_option Inl (print (''Both bits 4 and 5 are set.'' @ nl) [] s)
       else map_option (\<lambda>s. Inr (fs_address, s)) (print_sections m mbi s)
     }
   }"

subsection \<open>What the report changes\<close>

lemma print_frame: "print f args s = Some s' \<Longrightarrow> con_frame s s'"
  using printf_frame by (auto simp: print_def)

lemma print_bytes_frame: "print_bytes m a is s = Some s' \<Longrightarrow> con_frame s s'"
  by (induction "is" arbitrary: s) (auto simp: bind_eq_Some_conv dest: print_frame con_frame_trans)

lemma print_module_frame: "print_module m k md s = Some s' \<Longrightarrow> con_frame s s'"
  unfolding print_module_def bind_eq_Some_conv by (meson print_frame print_bytes_frame con_frame_trans)

lemma print_modules_frame: "print_modules m a is (f, s) = Some (f', s') \<Longrightarrow> con_frame s s'"
  by (induction "is" arbitrary: f s)
    (auto simp: bind_eq_Some_conv Let_def dest!: print_module_frame intro: con_frame_trans)

lemma print_mmap_frame: "print_mmap e s = Some s' \<Longrightarrow> con_frame s s'"
  unfolding print_mmap_def by (rule print_frame)

lemma print_mmaps_frame:
  assumes "print_mmaps m a b s = Some s'"
  shows "con_frame s s'"
  by (rule print_mmaps.raw_induct [where P = "\<lambda>m a b s s'. con_frame s s'", OF _ assms])
    (auto split: if_splits option.splits dest: print_mmap_frame intro: con_frame_trans)

lemma on_flag_frame: "on_flag b f s = Some s' \<Longrightarrow> (\<And>s s'. f s = Some s' \<Longrightarrow> con_frame s s') \<Longrightarrow> con_frame s s'"
  by (auto simp: on_flag_def split: if_splits)

lemma print_memory_frame: "print_memory m mbi s = Some s' \<Longrightarrow> con_frame s s'"
  by (auto simp: print_memory_def bind_eq_Some_conv Let_def dest!: print_frame on_flag_frame
      intro: con_frame_trans dest: print_frame)

lemma print_sections_frame: "print_sections m mbi s = Some s' \<Longrightarrow> con_frame s s'"
  by (auto simp: print_sections_def on_flag_def bind_eq_Some_conv Let_def split: if_splits
      dest!: print_frame print_mmaps_frame intro: con_frame_trans)

lemma multiboot_report_frame:
  assumes "multiboot_report m uninit magic a s = Some (Inr (f, s'))"
  shows "con_frame s s'"
  using assms
  by (auto simp: multiboot_report_def bind_eq_Some_conv Let_def split: if_splits
      dest!: clear_frame print_memory_frame print_modules_frame print_sections_frame intro: con_frame_trans)

subsection \<open>The report succeeds\<close>

lemma print_ok:
  assumes "con_ok s" "format_out (bytes f @ [0]) args \<noteq> None"
  shows "\<exists>s'. print f args s = Some s' \<and> con_ok s'"
proof -
  obtain out where "format_out (bytes f @ [0]) args = Some out" using assms(2) by auto
  from printf_loop_shows(1) [OF assms(1) this, of 0] show ?thesis
    by (auto simp: print_def printf_def shows_after_def)
qed

lemma on_flag_ok:
  assumes "con_ok s" "format_out (bytes f @ [0]) args \<noteq> None"
  shows "\<exists>s'. on_flag b (print f args) s = Some s' \<and> con_ok s'"
  using print_ok [OF assms] assms(1) by (simp add: on_flag_def)

lemma clear_ok: "con_ok s \<Longrightarrow> \<exists>s'. clear s = Some s' \<and> con_ok s'"
  using put_cells_eq [of 0 2000 "video_mem s" 32] by (auto simp: clear_def con_simps con_view_def)

lemma report_formats:
  "format_out (bytes ''0x%x '' @ [0]) [VInt a] \<noteq> None"
  "format_out (bytes (''Module %d loaded at address: 0x%#x'' @ nl) @ [0]) [VInt a, VInt b] \<noteq> None"
  "format_out (bytes (''Module %d ends at address: 0x%#x'' @ nl) @ [0]) [VInt a, VInt b] \<noteq> None"
  "format_out (bytes (''First few bytes of module:'' @ nl) @ [0]) [] \<noteq> None"
  "format_out (bytes nl @ [0]) [] \<noteq> None"
  "format_out (bytes (''flags = 0x%#x'' @ nl) @ [0]) [VInt a] \<noteq> None"
  "format_out (bytes (''mem_lower = %uKB, mem_upper = %uKB'' @ nl) @ [0]) [VInt a, VInt b] \<noteq> None"
  "format_out (bytes (''boot_device = 0x%#x'' @ nl) @ [0]) [VInt a] \<noteq> None"
  "format_out (bytes (''elf_sec: num = %u, size = 0x%#x, addr = 0x%#x, shndx = 0x%#x'' @ nl) @ [0])
     [VInt a, VInt b, VInt c, VInt d] \<noteq> None"
  by (simp_all add: bytes_def of_char_def nl_def)

lemma print_bytes_ok: "con_ok s \<Longrightarrow> \<exists>s'. print_bytes m a is s = Some s' \<and> con_ok s'"
proof (induction "is" arbitrary: s)
  case (Cons i "is")
  obtain s1 where "print ''0x%x '' [VInt (scast (m (a + of_nat i)))] s = Some s1" "con_ok s1"
    using print_ok [OF Cons.prems report_formats(1)] by blast
  with Cons.IH [of s1] show ?case by simp
qed simp

lemma print_module_ok:
  assumes "con_ok s"
  shows "\<exists>s'. print_module m k md s = Some s' \<and> con_ok s'"
proof -
  obtain s1 where s1: "print (''Module %d loaded at address: 0x%#x'' @ nl)
      [VInt (of_nat k), VInt (mod_start md)] s = Some s1" "con_ok s1"
    using print_ok [OF assms report_formats(2)] by blast
  obtain s2 where s2: "print (''Module %d ends at address: 0x%#x'' @ nl)
      [VInt (of_nat k), VInt (mod_end md)] s1 = Some s2" "con_ok s2"
    using print_ok [OF s1(2) report_formats(3)] by blast
  obtain s3 where s3: "print (''First few bytes of module:'' @ nl) [] s2 = Some s3" "con_ok s3"
    using print_ok [OF s2(2) report_formats(4)] by blast
  obtain s4 where s4: "print_bytes m (mod_start md) [0..<16] s3 = Some s4" "con_ok s4"
    using print_bytes_ok [OF s3(2)] by blast
  obtain s5 where s5: "print nl [] s4 = Some s5" "con_ok s5"
    using print_ok [OF s4(2) report_formats(5)] by blast
  show ?thesis unfolding print_module_def s1(1) s2(1) s3(1) s4(1) s5(1) bind.bind_lunit using s5 by simp
qed

lemma print_modules_ok:
  "con_ok s \<Longrightarrow> \<exists>s'. print_modules m a is (f, s) =
     Some (if 0 \<in> set is then mod_start (read_module m a) else f, s') \<and> con_ok s'"
proof (induction "is" arbitrary: f s)
  case (Cons i "is")
  let ?md = "read_module m (a + 16 * of_nat i)"
  obtain s1 where s1: "print_module m i ?md s = Some s1" "con_ok s1"
    using print_module_ok [OF Cons.prems] by blast
  from Cons.IH [OF s1(2), of "if i = 0 then mod_start ?md else f"] s1(1) show ?case
    by (cases "i = 0") (auto simp: Let_def)
qed simp

text \<open>
  What the report needs of the boot structure: the two formats of the symbol table are not both
  announced, the command line is a string, and the walk through the memory map comes to its end.
\<close>

definition next_mmap :: "mem \<Rightarrow> u32 \<Rightarrow> u32" where
  "next_mmap m a = a + mmap_size (read_mmap m a) + 4"

definition mbi_readable :: "mem \<Rightarrow> multiboot_info_t \<Rightarrow> bool" where
  "mbi_readable m mbi \<longleftrightarrow>
     \<not> (CHECK_FLAG (mbi_flags mbi) 4 \<and> CHECK_FLAG (mbi_flags mbi) 5) \<and>
     (CHECK_FLAG (mbi_flags mbi) 2 \<longrightarrow> mem_string m (cmdline mbi) \<noteq> None) \<and>
     (CHECK_FLAG (mbi_flags mbi) 6 \<longrightarrow>
        (\<exists>n. mmap_addr mbi + mmap_length mbi \<le> (next_mmap m ^^ n) (mmap_addr mbi)))"

lemma mem_string_zero:
  assumes "mem_string m a = Some t"
  shows "0 \<in> set t"
  by (rule mem_string.raw_induct [where P = "\<lambda>m a t. 0 \<in> set t", OF _ assms])
    (auto simp: bind_eq_Some_conv split: if_splits)

lemma cmdline_format: "0 \<in> set t \<Longrightarrow> format_out (bytes (''cmdline = %s'' @ nl) @ [0]) [VStr t] \<noteq> None"
  by (simp add: bytes_def of_char_def nl_def)

lemma mmap_formats:
  "format_out (bytes (''    size = 0x%x, base_addr = 0x%#x%#x'' @ nl @
     ''    type = 0x%x,  length    = 0x%#x%#x'' @ nl) @ [0])
     [VInt a, VInt b, VInt c, VInt d, VInt e, VInt f] \<noteq> None"
  "format_out (bytes (''mmap_addr = 0x%#x, mmap_length = 0x%x'' @ nl) @ [0]) [VInt a, VInt b] \<noteq> None"
  by (simp_all add: bytes_def of_char_def nl_def)

lemma print_memory_ok:
  assumes "con_ok s" "mbi_readable m mbi"
  shows "\<exists>s'. print_memory m mbi s = Some s' \<and> con_ok s'"
proof -
  obtain s1 where s1: "print (''flags = 0x%#x'' @ nl) [VInt (mbi_flags mbi)] s = Some s1" "con_ok s1"
    using print_ok [OF assms(1) report_formats(6)] by blast
  obtain s2 where s2: "on_flag (CHECK_FLAG (mbi_flags mbi) 0) (print (''mem_lower = %uKB, mem_upper = %uKB'' @ nl)
      [VInt (mem_lower mbi), VInt (mem_upper mbi)]) s1 = Some s2" "con_ok s2"
    using on_flag_ok [OF s1(2) report_formats(7)] by blast
  obtain s3 where s3: "on_flag (CHECK_FLAG (mbi_flags mbi) 1) (print (''boot_device = 0x%#x'' @ nl)
      [VInt (boot_device mbi)]) s2 = Some s3" "con_ok s3"
    using on_flag_ok [OF s2(2) report_formats(8)] by blast
  have "\<exists>s4. on_flag (CHECK_FLAG (mbi_flags mbi) 2)
      (\<lambda>s. do { t \<leftarrow> mem_string m (cmdline mbi); print (''cmdline = %s'' @ nl) [VStr t] s }) s3 = Some s4 \<and> con_ok s4"
  proof (cases "CHECK_FLAG (mbi_flags mbi) 2")
    case True
    then obtain t where t: "mem_string m (cmdline mbi) = Some t" using assms(2) by (auto simp: mbi_readable_def)
    show ?thesis
      using print_ok [OF s3(2) cmdline_format [OF mem_string_zero [OF t]]] True by (simp add: on_flag_def t)
  qed (use s3 in \<open>simp add: on_flag_def\<close>)
  then show ?thesis unfolding print_memory_def Let_def s1(1) s2(1) s3(1) bind.bind_lunit .
qed

lemma print_mmap_ok: "con_ok s \<Longrightarrow> \<exists>s'. print_mmap e s = Some s' \<and> con_ok s'"
  unfolding print_mmap_def by (rule print_ok [OF _ mmap_formats(1)])

lemma print_mmaps_ok:
  "con_ok s \<Longrightarrow> stop \<le> (next_mmap m ^^ n) a \<Longrightarrow> \<exists>s'. print_mmaps m a stop s = Some s' \<and> con_ok s'"
proof (induction n arbitrary: a s)
  case 0
  then have "print_mmaps m a stop s = Some s" by (subst print_mmaps.simps) (simp add: leD)
  with 0 show ?case by blast
next
  case (Suc n)
  show ?case
  proof (cases "a < stop")
    case True
    obtain s1 where s1: "print_mmap (read_mmap m a) s = Some s1" "con_ok s1" using print_mmap_ok [OF Suc.prems(1)] by blast
    have "stop \<le> (next_mmap m ^^ n) (next_mmap m a)" using Suc.prems(2) by (simp add: funpow_swap1)
    from Suc.IH [OF s1(2) this] obtain s2 where "print_mmaps m (next_mmap m a) stop s1 = Some s2" "con_ok s2" by blast
    moreover have "print_mmaps m a stop s = print_mmaps m (next_mmap m a) stop s1"
      using True s1(1) by (subst print_mmaps.simps) (simp add: next_mmap_def)
    ultimately show ?thesis by auto
  next
    case False
    then have "print_mmaps m a stop s = Some s" by (subst print_mmaps.simps) simp
    with Suc.prems show ?thesis by blast
  qed
qed

lemma print_sections_ok:
  assumes "con_ok s" "mbi_readable m mbi"
  shows "\<exists>s'. print_sections m mbi s = Some s' \<and> con_ok s'"
proof -
  obtain s1 where s1: "on_flag (CHECK_FLAG (mbi_flags mbi) 5)
      (print (''elf_sec: num = %u, size = 0x%#x, addr = 0x%#x, shndx = 0x%#x'' @ nl)
        [VInt (elf_num mbi), VInt (elf_size mbi), VInt (elf_addr mbi), VInt (elf_shndx mbi)]) s = Some s1" "con_ok s1"
    using on_flag_ok [OF assms(1) report_formats(9)] by blast
  let ?stop = "mmap_addr mbi + mmap_length mbi"
  let ?f = "\<lambda>s. do {
      s \<leftarrow> print (''mmap_addr = 0x%#x, mmap_length = 0x%x'' @ nl) [VInt (mmap_addr mbi), VInt (mmap_length mbi)] s;
      print_mmaps m (mmap_addr mbi) ?stop s }"
  have "\<exists>s2. on_flag (CHECK_FLAG (mbi_flags mbi) 6) ?f s1 = Some s2 \<and> con_ok s2"
  proof (cases "CHECK_FLAG (mbi_flags mbi) 6")
    case True
    then obtain n where n: "?stop \<le> (next_mmap m ^^ n) (mmap_addr mbi)" using assms(2) by (auto simp: mbi_readable_def)
    obtain s2 where "print (''mmap_addr = 0x%#x, mmap_length = 0x%x'' @ nl)
        [VInt (mmap_addr mbi), VInt (mmap_length mbi)] s1 = Some s2" "con_ok s2"
      using print_ok [OF s1(2) mmap_formats(2)] by blast
    with print_mmaps_ok [OF this(2) n] True show ?thesis by (simp add: on_flag_def)
  qed (use s1 in \<open>simp add: on_flag_def\<close>)
  then show ?thesis unfolding print_sections_def Let_def s1(1) bind.bind_lunit .
qed

lemma multiboot_report_ok:
  assumes "con_ok s" "mbi = read_mbi m a" "mods_count mbi \<noteq> 0" "CHECK_FLAG (mbi_flags mbi) 3" "mbi_readable m mbi"
  shows "\<exists>s'. multiboot_report m uninit MULTIBOOT_BOOTLOADER_MAGIC a s =
      Some (Inr (mod_start (read_module m (mods_addr mbi)), s')) \<and> con_ok s' \<and> con_frame s s'"
proof -
  obtain s1 where s1: "clear s = Some s1" "con_ok s1" using clear_ok [OF assms(1)] by blast
  obtain s2 where s2: "print_memory m mbi s1 = Some s2" "con_ok s2"
    using print_memory_ok [OF s1(2) assms(5)] by blast
  have "0 \<in> set [0..<unat (mods_count mbi)]" using assms(3) by (simp add: unat_gt_0)
  then obtain s3 where s3: "print_modules m (mods_addr mbi) [0..<unat (mods_count mbi)] (uninit, s2) =
      Some (mod_start (read_module m (mods_addr mbi)), s3)" "con_ok s3"
    using print_modules_ok [OF s2(2), of m "mods_addr mbi" "[0..<unat (mods_count mbi)]" uninit]
    by (simp only: if_True) blast
  obtain s4 where s4: "print_sections m mbi s3 = Some s4" "con_ok s4"
    using print_sections_ok [OF s3(2) assms(5)] by blast
  have fl: "(CHECK_FLAG (mbi_flags mbi) 4 \<and> CHECK_FLAG (mbi_flags mbi) 5) = False"
    using assms(5) by (simp add: mbi_readable_def)
  have run: "multiboot_report m uninit MULTIBOOT_BOOTLOADER_MAGIC a s =
      Some (Inr (mod_start (read_module m (mods_addr mbi)), s4))"
    unfolding multiboot_report_def s1(1) bind.bind_lunit Let_def assms(2) [symmetric] s2(1)
    using assms(4) by (simp only: s3(1) s4(1) fl if_True if_False bind.bind_lunit prod.case option.map) simp
  with multiboot_report_frame [OF run] s4(2) show ?thesis by blast
qed

end
