(* ===== verification/Terminal.thy ===== *)
theory Terminal
  imports Console
begin

text \<open>
  The three terminals: \<open>src/student-distrib/terminal.c\<close>, the background screen of
  \<open>src/student-distrib/lib.c\<close> (\<open>non_display_putc\<close>, \<open>non_display_scroll\<close>) and the
  keyboard buffer state of \<open>src/student-distrib/keyboard.c\<close>.

  The displayed terminal lives in video memory, the cursor variables and \<open>key_buff\<close>; the other
  two live in \<open>terms\<close>. The specification is a family of virtual terminals \<open>tty_screen s i\<close>
  and \<open>tty_input s i\<close>: a write of the executing program changes its own virtual screen only,
  and switching the display changes no virtual terminal at all.
\<close>

abbreviation BUFF_SIZE :: nat where "BUFF_SIZE \<equiv> 128"
abbreviation NUM_TERMINALS :: nat where "NUM_TERMINALS \<equiv> 3"
abbreviation KEYBOARD_IRQ :: u32 where "KEYBOARD_IRQ \<equiv> 1"

record term_t =
  x_save :: int
  y_save :: int
  buff_save :: "u8 list"
  vid_save :: "u8 list"
  enters_save :: int
  buff_index_save :: int

record tty = console +
  SHIFT_LEFT_FLAG :: bool
  SHIFT_RIGHT_FLAG :: bool
  CAPS_LOCK_FLAG :: bool
  CTRL_FLAG :: bool
  alt_flag :: bool
  key_buff :: "u8 list"
  num_enters :: int
  buff_index :: int
  terms :: "term_t list"
  curr_term_id :: int
  exec_term_id :: int
  processes :: "bool list"

subsection \<open>Background screens\<close>

definition term_scroll :: "term_t \<Rightarrow> term_t option" where
  "term_scroll t =
     (let t = t\<lparr>x_save := 0, y_save := NUM_ROWS - 1\<rparr>
      in do {
        v1 \<leftarrow> copy_down (vid_save t) 0 160 3840;
        v2 \<leftarrow> put_cells (NUM_COLS * (NUM_ROWS - 1)) 80 0 v1;
        Some (t\<lparr>vid_save := v2\<rparr>)
      })"

definition term_newline :: "term_t \<Rightarrow> term_t option" where
  "term_newline t =
     (let t1 = t\<lparr>y_save := y_save t + 1\<rparr>
      in do {
        t2 \<leftarrow> (if NUM_ROWS \<le> y_save t1 then term_scroll t1 else Some t1);
        Some (t2\<lparr>x_save := 0\<rparr>)
      })"

definition term_putc :: "u8 \<Rightarrow> term_t \<Rightarrow> term_t option" where
  "term_putc c t =
     (if c = NEWLINE \<or> c = CR then term_newline t
      else do {
        v \<leftarrow> put_cell (NUM_COLS * y_save t + x_save t) c (vid_save t);
        let t1 = t\<lparr>vid_save := v, x_save := x_save t + 1\<rparr>;
        if x_save t1 = NUM_COLS then term_newline t1
        else Some (t1\<lparr>y_save := (y_save t1 + x_save t1 sdiv NUM_COLS) smod NUM_ROWS\<rparr>)
      })"

text \<open>The C functions name the terminal by its index; every access is to \<open>terms[term_id]\<close>.\<close>

definition on_term :: "int \<Rightarrow> (term_t \<Rightarrow> term_t option) \<Rightarrow> 'a tty_scheme \<Rightarrow> 'a tty_scheme option" where
  "on_term term_id f s = do {
     t \<leftarrow> rd (terms s) term_id;
     t' \<leftarrow> f t;
     ts \<leftarrow> wr (terms s) term_id t';
     Some (s\<lparr>terms := ts\<rparr>)
   }"

definition non_display_scroll :: "int \<Rightarrow> 'a tty_scheme \<Rightarrow> 'a tty_scheme option" where
  "non_display_scroll term_id = on_term term_id term_scroll"

definition non_display_putc :: "u8 \<Rightarrow> int \<Rightarrow> 'a tty_scheme \<Rightarrow> 'a tty_scheme option" where
  "non_display_putc c term_id = on_term term_id (term_putc c)"

definition term_view :: "term_t \<Rightarrow> scr" where
  "term_view t = (x_save t, y_save t, vid_save t)"

lemma term_scroll_view:
  "length (vid_save t) = 4000 \<Longrightarrow>
     term_scroll t = Some (t\<lparr>x_save := 0, y_save := 24, vid_save := drop 160 (vid_save t) @ cell_run 0 80\<rparr>)"
  using scroll_cells [of "vid_save t"] by (simp add: term_scroll_def)

lemma term_newline_view:
  assumes "term_view t = (x, y, v)" "0 \<le> y" "y < 25" "length v = 4000"
  shows "\<exists>t'. term_newline t = Some t' \<and> term_view t' = scr_newline (x, y, v)"
  using assms term_scroll_view [of "t\<lparr>y_save := 25\<rparr>"]
  by (cases "y = 24") (auto simp: term_newline_def term_view_def)

lemma term_putc_view:
  assumes "scr_ok (term_view t)"
  shows "\<exists>t'. term_putc c t = Some t' \<and> term_view t' = scr_putc c (term_view t)"
proof -
  obtain x y v where view: "term_view t = (x, y, v)" by (cases "term_view t")
  with assms have r: "0 \<le> x" "x < 80" "0 \<le> y" "y < 25" "length v = 4000" by auto
  let ?k = "80 * y + x"
  let ?v = "v[2 * nat ?k := c, Suc (2 * nat ?k) := ATTRIB]"
  let ?t = "t\<lparr>vid_save := ?v, x_save := x + 1\<rparr>"
  have cell: "put_cell ?k c v = Some ?v" using r by (intro put_cell_eq) auto
  have nl: "\<exists>t'. term_newline ?t = Some t' \<and> term_view t' = scr_newline (x + 1, y, ?v)"
    using r view by (intro term_newline_view) (auto simp: term_view_def)
  show ?thesis
  proof (cases "c = NEWLINE \<or> c = CR")
    case True
    with term_newline_view [OF view] r view show ?thesis by (auto simp: term_putc_def)
  next
    case False
    with view cell nl r show ?thesis
      by (auto simp: term_putc_def term_view_def Let_def sdiv_small smod_small)
  qed
qed

interpretation background: text_screen term_putc term_view
  by unfold_locales (rule term_putc_view)

text \<open>A background write keeps the saved keyboard input of the terminal.\<close>

definition term_input :: "term_t \<Rightarrow> u8 list \<times> int \<times> int" where
  "term_input t = (buff_save t, enters_save t, buff_index_save t)"

lemma term_putc_input: "term_putc c t = Some t' \<Longrightarrow> term_input t' = term_input t"
  by (auto simp: term_putc_def term_newline_def term_scroll_def term_input_def Let_def
      bind_eq_Some_conv split: if_splits)

subsection \<open>Start-up and the system calls of a terminal\<close>

fun init_terms :: "term_t list \<Rightarrow> term_t list option" where
  "init_terms [] = Some []"
| "init_terms (t # ts) =
     (case (wr (buff_save t) 0 0, put_cells 0 2000 32 (vid_save t), init_terms ts) of
        (Some b, Some v, Some ts') \<Rightarrow>
          Some (t\<lparr>x_save := 0, y_save := 0, buff_save := b, enters_save := 0, buff_index_save := 0,
                  vid_save := v\<rparr> # ts')
      | _ \<Rightarrow> None)"

definition init_terminal :: "'a tty_scheme \<Rightarrow> 'a tty_scheme option" where
  "init_terminal s = do {
     ts \<leftarrow> init_terms (terms s);
     Some (s\<lparr>terms := ts, curr_term_id := 0, exec_term_id := 0\<rparr>)
   }"

text \<open>One character of \<open>terminal_write\<close>.\<close>

definition tty_putc :: "u8 \<Rightarrow> 'a tty_scheme \<Rightarrow> 'a tty_scheme option" where
  "tty_putc c s =
     (if curr_term_id s = exec_term_id s then putc c s else non_display_putc c (exec_term_id s) s)"

function terminal_write_loop ::
  "u8 list \<Rightarrow> int \<Rightarrow> int \<Rightarrow> 'a tty_scheme \<Rightarrow> (int \<times> 'a tty_scheme) option" where
  "terminal_write_loop buf nbytes bytes_read s =
     (if bytes_read < nbytes
      then (case rd buf bytes_read of
              None \<Rightarrow> None
            | Some c \<Rightarrow> (case tty_putc c s of
                           None \<Rightarrow> None
                         | Some s' \<Rightarrow> terminal_write_loop buf nbytes (bytes_read + 1) s'))
      else Some (bytes_read, s))"
  by pat_completeness auto
termination
  by (relation "measure (\<lambda>(buf, nbytes, k, s). nat (nbytes - k))") auto

declare terminal_write_loop.simps [simp del]

definition terminal_write ::
  "int \<Rightarrow> u8 list option \<Rightarrow> int \<Rightarrow> 'a tty_scheme \<Rightarrow> (int \<times> 'a tty_scheme) option" where
  "terminal_write fd buf nbytes s =
     (let s = cli s
      in case buf of
           Some b \<Rightarrow> map_option (\<lambda>(n, s). (n, sti s)) (terminal_write_loop b nbytes 0 s)
         | None \<Rightarrow> Some (0, sti s))"

definition terminal_open :: "u8 list \<Rightarrow> int" where "terminal_open filename = 0"

definition terminal_close :: "int \<Rightarrow> int" where "terminal_close fd = 0"

subsection \<open>Virtual terminals\<close>

definition tty_screen :: "'a tty_scheme \<Rightarrow> nat \<Rightarrow> scr" where
  "tty_screen s i = (if int i = curr_term_id s then con_view s else term_view (terms s ! i))"

definition tty_input :: "'a tty_scheme \<Rightarrow> nat \<Rightarrow> u8 list \<times> int \<times> int" where
  "tty_input s i =
     (if int i = curr_term_id s then (key_buff s, num_enters s, buff_index s)
      else term_input (terms s ! i))"

definition tty_ids_ok :: "'a tty_scheme \<Rightarrow> bool" where
  "tty_ids_ok s \<longleftrightarrow>
     length (terms s) = NUM_TERMINALS \<and> 0 \<le> curr_term_id s \<and> curr_term_id s < int NUM_TERMINALS \<and>
     0 \<le> exec_term_id s \<and> exec_term_id s < int NUM_TERMINALS"

definition tty_ok :: "'a tty_scheme \<Rightarrow> bool" where
  "tty_ok s \<longleftrightarrow> tty_ids_ok s \<and> (\<forall>i < NUM_TERMINALS. scr_ok (tty_screen s i))"

text \<open>Equal terminals and console; the interrupt flag, the log of the ports and the process slots may differ.\<close>

definition same_tty :: "'a tty_scheme \<Rightarrow> 'a tty_scheme \<Rightarrow> bool" where
  "same_tty s s' \<longleftrightarrow> tty.truncate s' = (tty.truncate s)\<lparr>out_log := out_log s', iflag := iflag s', processes := processes s'\<rparr>"

lemma same_tty_view:
  assumes "same_tty s s'"
  shows "tty_screen s' = tty_screen s" "tty_input s' = tty_input s" "exec_term_id s' = exec_term_id s"
    "curr_term_id s' = curr_term_id s" "tty_ok s' = tty_ok s"
  using assms
  by (auto simp: same_tty_def tty.defs tty_screen_def tty_input_def tty_ok_def tty_ids_ok_def con_view_def fun_eq_iff)

text \<open>
  What the executing program's output may change: nothing but the console fields and the saved
  terminals, and of those only the screen of the executing terminal.
\<close>

definition tty_erase :: "'a tty_scheme \<Rightarrow> 'a tty_scheme" where
  "tty_erase s = con_erase (s\<lparr>terms := []\<rparr>)"

definition tty_frame :: "'a tty_scheme \<Rightarrow> 'a tty_scheme \<Rightarrow> bool" where
  "tty_frame s s' \<longleftrightarrow>
     tty_erase s' = tty_erase s \<and> length (terms s') = length (terms s) \<and>
     (\<forall>i < length (terms s). tty_input s' i = tty_input s i \<and>
        (int i \<noteq> exec_term_id s \<longrightarrow> tty_screen s' i = tty_screen s i))"

lemma tty_erase_sel:
  assumes "tty_erase s' = tty_erase s"
  shows "curr_term_id s' = curr_term_id s" "exec_term_id s' = exec_term_id s"
    "key_buff s' = key_buff s" "num_enters s' = num_enters s" "buff_index s' = buff_index s"
    "iflag s' = iflag s" "processes s' = processes s"
proof -
  have "curr_term_id (tty_erase s') = curr_term_id (tty_erase s)"
    "exec_term_id (tty_erase s') = exec_term_id (tty_erase s)"
    "key_buff (tty_erase s') = key_buff (tty_erase s)" "num_enters (tty_erase s') = num_enters (tty_erase s)"
    "buff_index (tty_erase s') = buff_index (tty_erase s)" "iflag (tty_erase s') = iflag (tty_erase s)"
    "processes (tty_erase s') = processes (tty_erase s)"
    using assms by simp_all
  then show "curr_term_id s' = curr_term_id s" "exec_term_id s' = exec_term_id s"
    "key_buff s' = key_buff s" "num_enters s' = num_enters s" "buff_index s' = buff_index s"
    "iflag s' = iflag s" "processes s' = processes s"
    by (simp_all add: tty_erase_def con_erase_def)
qed

lemma tty_frame_refl: "tty_frame s s"
  by (simp add: tty_frame_def)

lemma tty_frame_trans: "tty_frame s t \<Longrightarrow> tty_frame t u \<Longrightarrow> tty_frame s u"
  using tty_erase_sel(2) [of t s] by (auto simp: tty_frame_def)

lemma tty_frame_sel:
  assumes "tty_frame s s'"
  shows "curr_term_id s' = curr_term_id s" "exec_term_id s' = exec_term_id s"
    "length (terms s') = length (terms s)" "tty_ids_ok s' \<longleftrightarrow> tty_ids_ok s"
  using assms tty_erase_sel [of s' s] by (auto simp: tty_frame_def tty_ids_ok_def)

lemma tty_putc_frame:
  assumes "tty_putc c s = Some s'"
  shows "tty_frame s s'"
proof (cases "curr_term_id s = exec_term_id s")
  case True
  with assms have "con_frame s s'" by (auto simp: tty_putc_def dest: putc_frame)
  then obtain l x y v where
    "s' = s\<lparr>out_log := l, screen_x := x, screen_y := y, video_mem := v\<rparr>"
    by (rule con_frame_elim)
  with True show ?thesis
    by (auto simp: tty_frame_def tty_erase_def con_erase_def tty_input_def tty_screen_def)
next
  case False
  let ?e = "nat (exec_term_id s)"
  from False assms obtain t where t: "0 \<le> exec_term_id s" "exec_term_id s < int (length (terms s))"
      "term_putc c (terms s ! ?e) = Some t" "s' = s\<lparr>terms := (terms s)[?e := t]\<rparr>"
    by (auto simp: tty_putc_def non_display_putc_def on_term_def bind_eq_Some_conv rd_Some_iff wr_Some_iff)
  with term_putc_input [OF t(3)] False show ?thesis
    by (auto simp: tty_frame_def tty_erase_def con_erase_def tty_input_def tty_screen_def
        con_view_def nth_list_update)
qed

text \<open>The virtual screen of the executing terminal is a text screen.\<close>

definition exec_view :: "'a tty_scheme \<Rightarrow> scr" where
  "exec_view s = (if tty_ids_ok s then tty_screen s (nat (exec_term_id s)) else (0, 0, []))"

lemma tty_putc_view:
  assumes "scr_ok (exec_view s)"
  shows "\<exists>s'. tty_putc c s = Some s' \<and> exec_view s' = scr_putc c (exec_view s)"
proof -
  from assms have ok: "tty_ids_ok s" by (auto simp: exec_view_def split: if_splits)
  let ?e = "nat (exec_term_id s)"
  from ok have e: "int ?e = exec_term_id s" "?e < length (terms s)" by (auto simp: tty_ids_ok_def)
  have view: "exec_view s' = tty_screen s' ?e" if "tty_putc c s = Some s'" for s'
    using ok tty_frame_sel [OF tty_putc_frame [OF that]] by (simp add: exec_view_def)
  show ?thesis
  proof (cases "curr_term_id s = exec_term_id s")
    case True
    with assms ok e have "con_ok s" by (simp add: exec_view_def tty_screen_def)
    from putc_view [OF this, of c] obtain s' where
      s': "putc c s = Some s'" "con_view s' = scr_putc c (con_view s)" by blast
    then have p: "tty_putc c s = Some s'" using True by (simp add: tty_putc_def)
    have "curr_term_id s' = exec_term_id s"
      using tty_frame_sel [OF tty_putc_frame [OF p]] True by simp
    with p s' view [OF p] ok True e show ?thesis by (simp add: exec_view_def tty_screen_def)
  next
    case False
    with assms ok e have "scr_ok (term_view (terms s ! ?e))" by (simp add: exec_view_def tty_screen_def)
    from term_putc_view [OF this, of c] obtain t where
      t: "term_putc c (terms s ! ?e) = Some t" "term_view t = scr_putc c (term_view (terms s ! ?e))" by blast
    then have p: "tty_putc c s = Some (s\<lparr>terms := (terms s)[?e := t]\<rparr>)"
      using False e ok
      by (auto simp: tty_putc_def non_display_putc_def on_term_def rd_def wr_def tty_ids_ok_def)
    with t view [OF p] ok False e show ?thesis by (simp add: exec_view_def tty_screen_def)
  qed
qed

interpretation exec_screen: text_screen tty_putc exec_view
  by unfold_locales (rule tty_putc_view)

subsection \<open>Writing to a terminal\<close>

lemma put_all_tty_frame: "put_all tty_putc cs s = Some s' \<Longrightarrow> tty_frame s s'"
  by (induction cs arbitrary: s)
    (auto simp: tty_frame_refl split: option.splits dest: tty_putc_frame intro: tty_frame_trans)

lemma terminal_write_loop_put_all:
  assumes "k \<le> n" "n \<le> length buf"
  shows "terminal_write_loop buf (int n) (int k) s =
    map_option (Pair (int n)) (put_all tty_putc (take (n - k) (drop k buf)) s)"
  using assms
proof (induction "n - k" arbitrary: k s)
  case 0
  then show ?case by (simp add: terminal_write_loop.simps)
next
  case (Suc r)
  then have k: "k < n" "k < length buf" by simp_all
  have split: "take (n - k) (drop k buf) = buf ! k # take (n - Suc k) (drop (Suc k) buf)"
    using k by (metis Cons_nth_drop_Suc Suc_diff_Suc take_Suc_Cons)
  have "terminal_write_loop buf (int n) (1 + int k) t =
      map_option (Pair (int n)) (put_all tty_putc (take (n - Suc k) (drop (Suc k) buf)) t)" for t :: "'a tty_scheme"
    using Suc.hyps(1) [of "Suc k" t] Suc.hyps(2) Suc.prems k by simp
  then show ?case
    using k by (subst terminal_write_loop.simps) (simp add: split rd_nat add.commute split: option.split)
qed

lemma tty_cli_sti:
  "tty_ids_ok (cli s) = tty_ids_ok s" "exec_term_id (cli s) = exec_term_id s" "terms (cli s) = terms s"
  "tty_screen (cli s) = tty_screen s" "tty_input (cli s) = tty_input s"
  "tty_ids_ok (sti s) = tty_ids_ok s" "tty_screen (sti s) = tty_screen s"
  "tty_input (sti s) = tty_input s" "iflag (sti s)" "exec_term_id (sti s) = exec_term_id s"
  by (auto simp: cli_def sti_def tty_ids_ok_def fun_eq_iff tty_screen_def tty_input_def con_view_def)

lemma terminal_write_ok:
  assumes "tty_ok s" "n \<le> length buf"
  shows "\<exists>s'. terminal_write fd (Some buf) (int n) s = Some (int n, s') \<and> tty_ok s' \<and>
    exec_term_id s' = exec_term_id s \<and> iflag s' \<and>
    tty_screen s' (nat (exec_term_id s)) =
      fold scr_putc (take n buf) (tty_screen s (nat (exec_term_id s))) \<and>
    (\<forall>i < NUM_TERMINALS. tty_input s' i = tty_input s i \<and>
       (int i \<noteq> exec_term_id s \<longrightarrow> tty_screen s' i = tty_screen s i))"
proof -
  let ?s = "cli s"
  note ids = tty_cli_sti(1-5) [of s]
  from assms(1) have ok: "tty_ids_ok s" "scr_ok (exec_view ?s)"
    by (auto simp: tty_ok_def exec_view_def ids) (auto simp: tty_ids_ok_def)
  obtain t where t: "put_all tty_putc (take n buf) ?s = Some t"
      "exec_view t = fold scr_putc (take n buf) (exec_view ?s)" "scr_ok (exec_view t)"
    using exec_screen.put_all_view [OF ok(2)] by blast
  have fr: "tty_frame ?s t" using put_all_tty_frame [OF t(1)] .
  then have e: "exec_term_id t = exec_term_id s" "tty_ids_ok t"
    using ids ok tty_frame_sel [OF fr] by auto
  have "terminal_write fd (Some buf) (int n) s = Some (int n, sti t)"
    using terminal_write_loop_put_all [of 0 n buf ?s] assms(2) t(1) by (simp add: terminal_write_def)
  moreover have l: "length (terms s) = 3" using ok(1) by (simp add: tty_ids_ok_def)
  moreover have "scr_ok (tty_screen (sti t) i)" if "i < 3" for i
  proof (cases "int i = exec_term_id s")
    case True
    then have "nat (exec_term_id s) = i" by (metis nat_int)
    then show ?thesis using t(3) e by (simp add: tty_cli_sti exec_view_def)
  qed (use fr ids assms(1) that l in \<open>simp add: tty_cli_sti tty_frame_def tty_ok_def\<close>)
  ultimately show ?thesis using t(2) fr e ids ok
    by (intro exI [of _ "sti t"]) (simp add: tty_cli_sti exec_view_def tty_frame_def tty_ok_def)
qed

text \<open>
  C22: \<open>terminal_write\<close> shows the bytes on the terminal of the running program, whether that
  terminal is displayed or not, returns their number with interrupts enabled, and changes neither the
  screen of another terminal nor the pending input of any.
\<close>

theorem terminal_write_screen:
  assumes "tty_ok s" "n \<le> length buf"
  shows "\<exists>s'. terminal_write fd (Some buf) (int n) s = Some (int n, s') \<and> tty_ids_ok s' \<and> iflag s' \<and>
    tty_screen s' (nat (exec_term_id s)) =
      fold scr_putc (take n buf) (tty_screen s (nat (exec_term_id s))) \<and>
    (\<forall>i < NUM_TERMINALS. tty_input s' i = tty_input s i \<and>
       (int i \<noteq> exec_term_id s \<longrightarrow> tty_screen s' i = tty_screen s i))"
  using terminal_write_ok [OF assms, of fd] by (auto simp: tty_ok_def)

subsection \<open>Switching the displayed terminal\<close>

text \<open>
  The first part of \<open>switch_displaying_term\<close>: save the displayed terminal and load the other one.
  The two \<open>memcpy\<close> pairs copy whole arrays of equal size.
\<close>

definition switch_swap :: "int \<Rightarrow> 'a tty_scheme \<Rightarrow> 'a tty_scheme option" where
  "switch_swap term_id s = do {
     s \<leftarrow> on_term (curr_term_id s) (\<lambda>t. Some (t\<lparr>buff_save := key_buff s, vid_save := video_mem s,
            x_save := get_x s, y_save := get_y s, enters_save := num_enters s,
            buff_index_save := buff_index s\<rparr>)) s;
     t \<leftarrow> rd (terms s) term_id;
     let s = s\<lparr>key_buff := buff_save t, video_mem := vid_save t\<rparr>;
     let s = set_y (y_save t) (set_x (x_save t) s);
     let s = s\<lparr>num_enters := enters_save t, buff_index := buff_index_save t\<rparr>;
     Some (send_eoi KEYBOARD_IRQ (s\<lparr>curr_term_id := term_id\<rparr>))
   }"

text \<open>The switch succeeds for every terminal, and every virtual terminal is unchanged.\<close>

lemma switch_swap_virtual:
  assumes "tty_ids_ok s" "0 \<le> term_id" "term_id < int NUM_TERMINALS"
  shows "\<exists>s'. switch_swap term_id s = Some s' \<and> curr_term_id s' = term_id \<and>
    exec_term_id s' = exec_term_id s \<and> tty_ids_ok s' \<and>
    (\<forall>i < NUM_TERMINALS. tty_screen s' i = tty_screen s i \<and> tty_input s' i = tty_input s i)"
proof -
  let ?c = "nat (curr_term_id s)" and ?k = "nat term_id"
  let ?t = "(terms s ! ?c)\<lparr>buff_save := key_buff s, vid_save := video_mem s, x_save := get_x s,
      y_save := get_y s, enters_save := num_enters s, buff_index_save := buff_index s\<rparr>"
  let ?ts = "(terms s)[?c := ?t]"
  have r: "?c < 3" "?k < 3" "length (terms s) = 3" "0 \<le> curr_term_id s"
    using assms by (auto simp: tty_ids_ok_def)
  have "\<exists>l. switch_swap term_id s = Some (s\<lparr>out_log := l, terms := ?ts, key_buff := buff_save (?ts ! ?k),
      video_mem := vid_save (?ts ! ?k), screen_x := x_save (?ts ! ?k), screen_y := y_save (?ts ! ?k),
      num_enters := enters_save (?ts ! ?k), buff_index := buff_index_save (?ts ! ?k),
      curr_term_id := term_id\<rparr>)"
    using r assms(2,3)
    by (intro exI [of _ "out_log (the (switch_swap term_id s))"])
      (simp add: switch_swap_def on_term_def rd_in wr_in set_x_def set_y_def move_cursor_def
        send_eoi_def outb_def Let_def)
  then obtain l where s': "switch_swap term_id s = Some (s\<lparr>out_log := l, terms := ?ts,
      key_buff := buff_save (?ts ! ?k), video_mem := vid_save (?ts ! ?k),
      screen_x := x_save (?ts ! ?k), screen_y := y_save (?ts ! ?k),
      num_enters := enters_save (?ts ! ?k), buff_index := buff_index_save (?ts ! ?k),
      curr_term_id := term_id\<rparr>)" (is "_ = Some ?s") ..
  have "tty_screen ?s i = tty_screen s i \<and> tty_input ?s i = tty_input s i" if "i < 3" for i
    using r that assms(2,3)
    by (auto simp: tty_screen_def tty_input_def con_view_def term_view_def term_input_def
        nth_list_update get_x_def get_y_def nat_eq_iff2)
  with s' r assms show ?thesis by (auto simp: tty_ids_ok_def)
qed

subsection \<open>Properties\<close>

text \<open>
  C30: A terminal in the background renders output exactly as the displayed one does: whatever is
  written, \<open>putc\<close> and \<open>non_display_putc\<close> take equal screens to equal screens, and neither
  leaves its screen memory.
\<close>

theorem background_renders_alike:
  assumes "con_ok s" "term_view t = con_view s"
  shows "\<exists>s' t'. put_all putc cs s = Some s' \<and> put_all term_putc cs t = Some t' \<and>
    term_view t' = con_view s' \<and> con_ok s'"
  using display.put_all_view [OF assms(1), of cs] background.put_all_view [of t cs] assms by auto

end
