(* ===== verification/Rtc.thy ===== *)
theory Rtc
  imports Terminal Printf
begin

text \<open>
  The real time clock driver, \<open>src/student-distrib/rtc.c\<close>. The bytes read from the clock's data
  port are arguments (\<open>prev\<close>). \<open>rtc_read\<close> spins until its terminal's flag is set; the
  interrupts taken while it spins are an explicit list of handler runs (\<open>spin\<close>), and running out
  of them is the state of a caller that still waits.
\<close>

abbreviation INDEX_PORT :: u16 where "INDEX_PORT \<equiv> 0x70"
abbreviation RW_PORT :: u16 where "RW_PORT \<equiv> 0x71"
abbreviation RTC_REG_A :: u8 where "RTC_REG_A \<equiv> 0x8A"
abbreviation RTC_REG_B :: u8 where "RTC_REG_B \<equiv> 0x8B"
abbreviation RTC_REG_C :: u8 where "RTC_REG_C \<equiv> 0x8C"
abbreviation RTC_IRQ :: u32 where "RTC_IRQ \<equiv> 8"
abbreviation DEFAULT_FREQ :: u32 where "DEFAULT_FREQ \<equiv> 2"

record rtc = tty +
  rtc_flags :: "int list"

subsection \<open>Setting the rate\<close>

text \<open>
  The chain of comparisons of \<open>set_frequency\<close>: \<open>None\<close> for the frequencies it refuses.
  For a frequency the chain does not mention the C variable stays uninitialised, here \<open>junk\<close>.
\<close>

definition frequency_rate :: "u8 \<Rightarrow> u32 \<Rightarrow> u8 option" where
  "frequency_rate junk frequency =
     (if frequency = 32768 \<or> frequency = 16384 \<or> frequency = 8192 \<or> frequency = 4096 \<or> frequency = 2048
      then None
      else Some
        (if frequency = 1024 then 6 else if frequency = 512 then 7 else if frequency = 256 then 8
         else if frequency = 128 then 9 else if frequency = 64 then 10 else if frequency = 32 then 11
         else if frequency = 16 then 12 else if frequency = 8 then 13 else if frequency = 4 then 14
         else if frequency = 2 then 15 else junk))"

definition set_frequency :: "u8 \<Rightarrow> u8 \<Rightarrow> u32 \<Rightarrow> 'a hw_scheme \<Rightarrow> 'a hw_scheme" where
  "set_frequency junk prev frequency s =
     (case frequency_rate junk frequency of
        None \<Rightarrow> s
      | Some rate \<Rightarrow>
          let rate = rate AND 0x0F;
              s = cli s;
              s = outb RTC_REG_A INDEX_PORT s;
              s = outb RTC_REG_A INDEX_PORT s;
              s = outb ((prev AND 0xF0) OR rate) RW_PORT s
          in sti s)"

definition init_rtc :: "u8 \<Rightarrow> u8 \<Rightarrow> u8 \<Rightarrow> 'a pic_scheme \<Rightarrow> 'a pic_scheme" where
  "init_rtc junk prev_b prev_a s =
     (let s = cli s;
          s = outb RTC_REG_A INDEX_PORT s;
          s = outb 0x20 RW_PORT s;
          s = outb RTC_REG_B INDEX_PORT s;
          s = outb RTC_REG_B INDEX_PORT s;
          s = outb (prev_b OR 0x40) RW_PORT s;
          s = set_frequency junk prev_a DEFAULT_FREQ s;
          s = enable_irq RTC_IRQ s
      in sti s)"

subsection \<open>The handler and the system calls\<close>

definition rtc_handler :: "'a rtc_scheme \<Rightarrow> 'a rtc_scheme option" where
  "rtc_handler s =
     (let s = cli s;
          s = outb RTC_REG_C INDEX_PORT s;
          s = send_eoi RTC_IRQ s
      in do {
        f0 \<leftarrow> wr (rtc_flags s) 0 1;
        f1 \<leftarrow> wr f0 1 1;
        f2 \<leftarrow> wr f1 2 1;
        Some (sti (s\<lparr>rtc_flags := f2\<rparr>))
      })"

definition rtc_open :: "u8 \<Rightarrow> u8 \<Rightarrow> u8 list \<Rightarrow> 'a rtc_scheme \<Rightarrow> (int \<times> 'a rtc_scheme) option" where
  "rtc_open junk prev filename s = do {
     let s = set_frequency junk prev DEFAULT_FREQ s;
     (n, s) \<leftarrow> printf (''rtc_open called. '' @ [CHR 0x0A]) [] s;
     Some (0, s)
   }"

text \<open>
  A wait loop with interrupts enabled: each element of the list is the effect of one interrupt taken
  while the loop spins.
\<close>

datatype 's spin_result = Waiting 's | Ready 's "('s \<Rightarrow> 's option) list"

fun spin :: "('s \<Rightarrow> bool option) \<Rightarrow> ('s \<Rightarrow> 's option) list \<Rightarrow> 's \<Rightarrow> 's spin_result option" where
  "spin ready irqs s =
     (case ready s of
        None \<Rightarrow> None
      | Some True \<Rightarrow> Some (Ready s irqs)
      | Some False \<Rightarrow> (case irqs of
                        [] \<Rightarrow> Some (Waiting s)
                      | irq # irqs' \<Rightarrow> (case irq s of None \<Rightarrow> None | Some s' \<Rightarrow> spin ready irqs' s')))"

declare spin.simps [simp del]

datatype 's rtc_read_result = Rtc_waits 's | Rtc_returns int 's

definition rtc_read ::
  "('a rtc_scheme \<Rightarrow> 'a rtc_scheme option) list \<Rightarrow> int \<Rightarrow> u8 list option \<Rightarrow> int \<Rightarrow> 'a rtc_scheme \<Rightarrow>
     'a rtc_scheme rtc_read_result option" where
  "rtc_read irqs fd buf nbytes s =
     (if buf = None \<or> nbytes < 0 then Some (Rtc_returns (- 1) s)
      else do {
        r \<leftarrow> spin (\<lambda>s. map_option (\<lambda>f. f \<noteq> 0) (rd (rtc_flags s) (exec_term_id s))) irqs s;
        case r of
          Waiting s \<Rightarrow> Some (Rtc_waits s)
        | Ready s _ \<Rightarrow> do {
            fs \<leftarrow> wr (rtc_flags s) (exec_term_id s) 0;
            Some (Rtc_returns 0 (s\<lparr>rtc_flags := fs\<rparr>))
          }
      })"

text \<open>\<open>freq\<close> is the 32-bit integer at \<open>buf\<close>, \<open>None\<close> the null pointer.\<close>

definition rtc_write :: "u8 \<Rightarrow> u8 \<Rightarrow> int \<Rightarrow> u32 option \<Rightarrow> int \<Rightarrow> 'a hw_scheme \<Rightarrow> int \<times> 'a hw_scheme" where
  "rtc_write junk prev fd freq nbytes s =
     (case freq of
        None \<Rightarrow> (- 1, s)
      | Some f \<Rightarrow> if nbytes \<noteq> 4 then (- 1, s) else (nbytes, set_frequency junk prev f s))"

definition rtc_close :: "u8 \<Rightarrow> u8 \<Rightarrow> int \<Rightarrow> 'a hw_scheme \<Rightarrow> int \<times> 'a hw_scheme" where
  "rtc_close junk prev fd s = (0, set_frequency junk prev DEFAULT_FREQ s)"

subsection \<open>The rate programmed into the clock\<close>

text \<open>The interrupt frequency of the chip for a value of register A.\<close>

definition rtc_hz :: "u8 \<Rightarrow> nat" where
  "rtc_hz reg_a = (let rate = unat (reg_a AND 0x0F) in 32768 div 2 ^ (rate - 1))"

definition supported_hz :: "u32 list" where
  "supported_hz = map (\<lambda>k. 2 ^ k) [1..<11]"

lemma rate_low_nibble: "((prev AND 0xF0) OR (r AND 0x0F)) AND 0x0F = (r AND 0x0F :: u8)"
proof -
  have "(0xF0 :: u8) AND 0x0F = 0" by simp
  then show ?thesis by (simp add: bit.conj_disj_distrib2 and.assoc)
qed

lemma rate_high_nibble: "((prev AND 0xF0) OR (r AND 0x0F)) AND 0xF0 = (prev AND 0xF0 :: u8)"
proof -
  have "(0x0F :: u8) AND 0xF0 = 0" by simp
  then show ?thesis by (simp add: bit.conj_disj_distrib2 and.assoc)
qed

lemma supported_rate:
  assumes "f \<in> set supported_hz"
  shows "\<exists>r. frequency_rate junk f = Some r \<and> r AND 0x0F = r \<and> 32768 div 2 ^ (unat r - 1) = unat f"
proof -
  from assms have "f \<in> {2, 4, 8, 16, 32, 64, 128, 256, 512, 1024}"
    by (auto simp: supported_hz_def upt_rec)
  then show ?thesis by (auto simp: frequency_rate_def)
qed

text \<open>
  For each of the ten supported frequencies (2 to 1024 Hz, powers of two) \<open>set_frequency\<close>
  selects register A and writes a rate whose frequency is the requested one, keeping the upper four bits
  of the register.
\<close>

lemma set_frequency_programs:
  assumes "f \<in> set supported_hz"
  shows "\<exists>v. last_out RW_PORT (set_frequency junk prev f s) = Some v \<and>
    last_out INDEX_PORT (set_frequency junk prev f s) = Some RTC_REG_A \<and>
    rtc_hz v = unat f \<and> v AND 0xF0 = prev AND 0xF0"
proof -
  obtain r where r: "frequency_rate junk f = Some r" "r AND 0x0F = r" "32768 div 2 ^ (unat r - 1) = unat f"
    using supported_rate [OF assms] by blast
  let ?v = "(prev AND 0xF0) OR r"
  have "?v AND 0x0F = r" "?v AND 0xF0 = prev AND 0xF0"
    using rate_low_nibble [of prev r] rate_high_nibble [of prev r] r(2) by simp_all
  with r show ?thesis
    by (auto simp: set_frequency_def rtc_hz_def Let_def port_simps)
qed

subsection \<open>Waiting for an interrupt\<close>

lemma rtc_handler_flags:
  "length (rtc_flags s) = 3 \<Longrightarrow> \<exists>s'. rtc_handler s = Some s' \<and> rtc_flags s' = [1, 1, 1] \<and>
     exec_term_id s' = exec_term_id s \<and> iflag s'"
  by (auto simp: rtc_handler_def wr_def Let_def sti_def cli_def outb_def send_eoi_def length_Suc_conv
      numeral_3_eq_3)

text \<open>
  A reader whose flag is clear waits when nothing happens and returns 0 after the next clock
  interrupt, with its own flag cleared and the flags of the other terminals set.
\<close>

lemma rtc_read_waits:
  assumes "rd (rtc_flags s) (exec_term_id s) = Some 0" "buf \<noteq> None" "0 \<le> nbytes"
  shows "rtc_read [] fd buf nbytes s = Some (Rtc_waits s)"
  using assms by (simp add: rtc_read_def spin.simps)

text \<open>
  A blocked \<open>rtc_read\<close> returns 0 after the next RTC interrupt, and consumes the tick of its own
  terminal only: the two other terminals still see theirs.
\<close>

lemma rtc_read_after_interrupt:
  assumes "length (rtc_flags s) = 3" "0 \<le> exec_term_id s" "exec_term_id s < 3"
    and "rd (rtc_flags s) (exec_term_id s) = Some 0" "buf \<noteq> None" "0 \<le> nbytes"
  shows "\<exists>s'. rtc_read [rtc_handler] fd buf nbytes s = Some (Rtc_returns 0 s') \<and>
    rtc_flags s' = [1, 1, 1][nat (exec_term_id s) := 0]"
proof -
  obtain t where t: "rtc_handler s = Some t" "rtc_flags t = [1, 1, 1]" "exec_term_id t = exec_term_id s"
    using rtc_handler_flags [OF assms(1)] by blast
  have "rd [1, 1, 1 :: int] (exec_term_id s) = Some 1"
    using assms(2,3) by (auto simp: rd_def nth_Cons' nat_eq_iff)
  with t assms show ?thesis by (simp add: rtc_read_def spin.simps wr_in)
qed

end
