(* ===== verification/Paging.thy ===== *)
theory Paging
  imports Rtc
begin

text \<open>
  Virtual memory, \<open>src/student-distrib/paging.c\<close> and \<open>paging.h\<close>. A page directory or
  page table entry is its 32-bit word; the bit fields of \<open>pde_t\<close> and \<open>pte_t\<close> are set with
  \<open>set_field\<close>. The addresses the linker gives to the page tables and the saved screens are the
  record \<open>layout\<close>, an argument of the operations that use them.

  \<open>translate\<close> is the two-level walk of the processor with 4 MB pages enabled, the meaning the
  theorems give to the tables.
\<close>

record layout =
  page_directory_addr :: u32
  page_table_0_addr :: u32
  vid_page_table_0_addr :: u32
  vid_save_addr :: "int \<Rightarrow> u32"

record paging = rtc +
  page_directory :: "u32 list"
  page_table_0 :: "u32 list"
  vid_page_table_0 :: "u32 list"
  cr0 :: u32
  cr3 :: u32
  cr4 :: u32
  active_tasks :: int

abbreviation PAGE_TABLE_SIZE :: nat where "PAGE_TABLE_SIZE \<equiv> 1024"
abbreviation VID_MAP_VIRTUAL_INDEX :: nat where "VID_MAP_VIRTUAL_INDEX \<equiv> 31"
abbreviation USER_PD_INDEX :: int where "USER_PD_INDEX \<equiv> 32"

subsection \<open>Bit fields\<close>

definition get_field :: "nat \<Rightarrow> nat \<Rightarrow> u32 \<Rightarrow> u32" where
  "get_field lo n w = take_bit n (drop_bit lo w)"

definition set_field :: "nat \<Rightarrow> nat \<Rightarrow> u32 \<Rightarrow> u32 \<Rightarrow> u32" where
  "set_field lo n v w = (w AND NOT (push_bit lo (mask n))) OR push_bit lo (take_bit n v)"

lemma bit_set_field:
  "i < 32 \<Longrightarrow> bit (set_field lo n v w) i = (if lo \<le> i \<and> i < lo + n then bit v (i - lo) else bit w i)"
  by (auto simp: set_field_def bit_simps)

lemma get_set_field_same: "lo + n \<le> 32 \<Longrightarrow> get_field lo n (set_field lo n v w) = take_bit n v"
  by (rule bit_word_eqI) (auto simp: get_field_def bit_simps bit_set_field)

lemma get_set_field_other:
  assumes "lo + n \<le> 32" "lo + n \<le> lo' \<or> lo' + n' \<le> lo"
  shows "get_field lo n (set_field lo' n' v w) = get_field lo n w"
  using assms by (intro bit_word_eqI) (auto simp: get_field_def bit_simps bit_set_field)

lemmas field_simps' = get_set_field_same get_set_field_other

text \<open>The fields of an entry (\<open>size\<close> is \<open>pat_index\<close> in a page table entry).\<close>

definition set_present :: "u32 \<Rightarrow> u32 \<Rightarrow> u32" where "set_present = set_field 0 1"
definition set_addr :: "u32 \<Rightarrow> u32 \<Rightarrow> u32" where "set_addr = set_field 12 20"

definition present :: "u32 \<Rightarrow> u32" where "present = get_field 0 1"
definition rw :: "u32 \<Rightarrow> u32" where "rw = get_field 1 1"
definition privilege_level :: "u32 \<Rightarrow> u32" where "privilege_level = get_field 2 1"
definition size_bit :: "u32 \<Rightarrow> u32" where "size_bit = get_field 7 1"
definition addr :: "u32 \<Rightarrow> u32" where "addr = get_field 12 20"

lemmas entry_defs = set_present_def set_addr_def present_def rw_def privilege_level_def size_bit_def addr_def

text \<open>The eleven assignments with which every entry is filled, in their order.\<close>

definition fill_entry :: "u32 \<Rightarrow> u32 \<Rightarrow> u32 \<Rightarrow> u32 \<Rightarrow> u32 \<Rightarrow> u32" where
  "fill_entry a global_page ps privilege w =
     (let w = set_addr a w;
          w = set_field 9 3 0 w;
          w = set_field 8 1 global_page w;
          w = set_field 7 1 ps w;
          w = set_field 6 1 0 w;
          w = set_field 5 1 0 w;
          w = set_field 4 1 0 w;
          w = set_field 3 1 0 w;
          w = set_field 2 1 privilege w;
          w = set_field 1 1 1 w
      in set_present 1 w)"

lemma fill_entry_fields:
  "present (fill_entry a g sz pl w) = 1" "rw (fill_entry a g sz pl w) = 1"
  "privilege_level (fill_entry a g sz pl w) = take_bit 1 pl"
  "size_bit (fill_entry a g sz pl w) = take_bit 1 sz"
  "addr (fill_entry a g sz pl w) = take_bit 20 a"
  by (simp_all add: fill_entry_def entry_defs Let_def field_simps')

subsection \<open>The operations\<close>

fun clear_entries :: "nat \<Rightarrow> nat \<Rightarrow> u32 list \<Rightarrow> u32 list \<Rightarrow> (u32 list \<times> u32 list) option" where
  "clear_entries i 0 pd pt = Some (pd, pt)"
| "clear_entries i (Suc n) pd pt =
     (case (rd pd (int i), rd pt (int i)) of
        (Some d, Some t) \<Rightarrow>
          clear_entries (Suc i) n (pd[i := set_present 0 d]) (pt[i := set_present 0 t])
      | _ \<Rightarrow> None)"

definition clear_page_directory_table :: "'a paging_scheme \<Rightarrow> 'a paging_scheme option" where
  "clear_page_directory_table s =
     map_option (\<lambda>(pd, pt). s\<lparr>page_directory := pd, page_table_0 := pt\<rparr>)
       (clear_entries 0 PAGE_TABLE_SIZE (page_directory s) (page_table_0 s))"

definition kernel_paging_init :: "'a paging_scheme \<Rightarrow> 'a paging_scheme option" where
  "kernel_paging_init s = do {
     d \<leftarrow> rd (page_directory s) 1;
     pd \<leftarrow> wr (page_directory s) 1 (fill_entry 0x400 1 1 0 d);
     Some (s\<lparr>page_directory := pd\<rparr>)
   }"

definition vga_paging_init :: "layout \<Rightarrow> 'a paging_scheme \<Rightarrow> 'a paging_scheme option" where
  "vga_paging_init L s = do {
     t \<leftarrow> rd (page_table_0 s) 0xB8;
     pt \<leftarrow> wr (page_table_0 s) 0xB8 (fill_entry 0xB8 0 0 0 t);
     d \<leftarrow> rd (page_directory s) 0;
     pd \<leftarrow> wr (page_directory s) 0
       (fill_entry (drop_bit 12 (page_table_0_addr L AND 0xFFFFF000)) 0 0 0 d);
     Some (s\<lparr>page_table_0 := pt, page_directory := pd\<rparr>)
   }"

definition setup_control_registers :: "layout \<Rightarrow> 'a paging_scheme \<Rightarrow> 'a paging_scheme" where
  "setup_control_registers L s =
     s\<lparr>cr3 := page_directory_addr L, cr4 := cr4 s OR 0x10, cr0 := cr0 s OR 0x80000000\<rparr>"

definition reload_cr3 :: "layout \<Rightarrow> 'a paging_scheme \<Rightarrow> 'a paging_scheme" where
  "reload_cr3 L s = s\<lparr>cr3 := page_directory_addr L\<rparr>"

definition init_paging :: "layout \<Rightarrow> 'a paging_scheme \<Rightarrow> 'a paging_scheme option" where
  "init_paging L s = do {
     s \<leftarrow> clear_page_directory_table s;
     s \<leftarrow> kernel_paging_init s;
     s \<leftarrow> vga_paging_init L s;
     let s = setup_control_registers L s;
     Some (s\<lparr>active_tasks := 0\<rparr>)
   }"

definition create_user_4mb_page ::
  "int \<Rightarrow> int \<Rightarrow> 'a paging_scheme \<Rightarrow> (int \<times> 'a paging_scheme) option" where
  "create_user_4mb_page real_index virt_index s =
     (if real_index < 2 \<or> virt_index < 2 \<or> int PAGE_TABLE_SIZE \<le> real_index \<or> int PAGE_TABLE_SIZE \<le> virt_index
      then Some (- 1, s)
      else do {
        d \<leftarrow> rd (page_directory s) virt_index;
        pd \<leftarrow> wr (page_directory s) virt_index (fill_entry (push_bit 10 (word_of_int real_index)) 0 1 1 d);
        Some (0, s\<lparr>page_directory := pd\<rparr>)
      })"

definition create_vid_4kb_page :: "layout \<Rightarrow> 'a paging_scheme \<Rightarrow> (u32 \<times> 'a paging_scheme) option" where
  "create_vid_4kb_page L s = do {
     d \<leftarrow> rd (page_directory s) (int VID_MAP_VIRTUAL_INDEX);
     pd \<leftarrow> wr (page_directory s) (int VID_MAP_VIRTUAL_INDEX)
       (fill_entry (drop_bit 12 (vid_page_table_0_addr L AND 0xFFFFF000)) 0 0 1 d);
     t \<leftarrow> rd (vid_page_table_0 s) 0;
     pt \<leftarrow> wr (vid_page_table_0 s) 0 (fill_entry 0xB8 0 0 1 t);
     Some (push_bit 22 (of_nat VID_MAP_VIRTUAL_INDEX), s\<lparr>page_directory := pd, vid_page_table_0 := pt\<rparr>)
   }"

definition remap_vid :: "layout \<Rightarrow> int \<Rightarrow> 'a paging_scheme \<Rightarrow> 'a paging_scheme option" where
  "remap_vid L term_id s = do {
     t \<leftarrow> rd (vid_page_table_0 s) 0;
     pt \<leftarrow> wr (vid_page_table_0 s) 0
       (set_addr (if term_id = curr_term_id s then 0xB8
                  else drop_bit 12 (vid_save_addr L term_id AND 0xFFFFF000)) t);
     Some (s\<lparr>vid_page_table_0 := pt\<rparr>)
   }"

subsection \<open>The processor's view\<close>

text \<open>Access rights of an entry: present, and for user mode also the user and the write bit.\<close>

definition grants :: "bool \<Rightarrow> u32 \<Rightarrow> bool" where
  "grants user e \<longleftrightarrow> present e = 1 \<and> (user \<longrightarrow> privilege_level e = 1 \<and> rw e = 1)"

definition table_at :: "layout \<Rightarrow> 'a paging_scheme \<Rightarrow> u32 \<Rightarrow> u32 list" where
  "table_at L s a =
     (if a = page_table_0_addr L then page_table_0 s
      else if a = vid_page_table_0_addr L then vid_page_table_0 s else [])"

definition translate :: "layout \<Rightarrow> 'a paging_scheme \<Rightarrow> bool \<Rightarrow> u32 \<Rightarrow> u32 option" where
  "translate L s user va = do {
     pde \<leftarrow> rd (page_directory s) (uint (drop_bit 22 va));
     if \<not> grants user pde then None
     else if size_bit pde = 1 then Some (push_bit 22 (drop_bit 10 (addr pde)) OR take_bit 22 va)
     else do {
       pte \<leftarrow> rd (table_at L s (push_bit 12 (addr pde))) (uint (take_bit 10 (drop_bit 12 va)));
       if \<not> grants user pte then None
       else Some (push_bit 12 (addr pte) OR take_bit 12 va)
     }
   }"

subsection \<open>Effect of the operations on address translation\<close>

lemma split_join: "push_bit n (drop_bit n w) OR take_bit n w = (w :: u32)"
  by (rule bit_word_eqI) (auto simp: bit_simps)

lemma push_or_take: "push_bit n b OR take_bit n w = push_bit n b + (take_bit n w :: u32)"
  by (simp add: disjunctive_add [symmetric] bit_push_bit_iff bit_take_bit_iff)

lemma page_base: "push_bit 12 (take_bit 20 (drop_bit 12 (a AND 0xFFFFF000))) = (a AND 0xFFFFF000 :: u32)"
proof -
  have m: "(0xFFFFF000 :: u32) = push_bit 12 (mask 20)" by (simp add: mask_eq_exp_minus_1)
  show ?thesis unfolding m by (rule bit_word_eqI) (auto simp: bit_simps)
qed

lemma frame_index:
  assumes "0 \<le> r" "r < 1024"
  shows "drop_bit 10 (take_bit 20 (push_bit 10 (word_of_int r :: u32))) = word_of_int r"
proof -
  have "take_bit 10 r = r" using assms by (simp add: take_bit_int_eq_self)
  then have b: "bit r i \<Longrightarrow> i < 10" for i by (metis bit_take_bit_iff)
  then have "bit r i \<Longrightarrow> i < 22" for i using less_trans [OF b] by simp
  with b show ?thesis by (intro bit_word_eqI) (auto simp: bit_simps)
qed

lemma uint_frame: "0 \<le> r \<Longrightarrow> r < 1024 \<Longrightarrow> uint (word_of_int r :: u32) = r"
  by (simp add: uint_word_of_int)

lemma pd_index: "nat (uint (drop_bit 22 (va :: u32))) < 1024"
proof -
  have "unat (drop_bit 22 va) < 1024"
    using u32_bound [of va] by (simp add: drop_bit_eq_div unat_div)
  then show ?thesis by (simp only: unat_eq_nat_uint)
qed

lemma unat_eq_nat_iff: "0 \<le> v \<Longrightarrow> unat w = nat v \<longleftrightarrow> uint w = v"
  by (simp only: unat_eq_nat_uint eq_nat_nat_iff [OF uint_ge_0])

text \<open>Translation reads the three tables only.\<close>

lemma translate_cong:
  assumes "page_directory s' = page_directory s" "page_table_0 s' = page_table_0 s"
    "vid_page_table_0 s' = vid_page_table_0 s"
  shows "translate L s' = translate L s"
  unfolding fun_eq_iff translate_def table_at_def assms by simp

text \<open>The new page and nothing else.\<close>

lemma create_user_4mb_page_eq:
  assumes "length (page_directory s) = 1024" "2 \<le> r" "r < 1024" "2 \<le> v" "v < 1024"
  shows "create_user_4mb_page r v s = Some (0, s\<lparr>page_directory := (page_directory s)[nat v :=
    fill_entry (push_bit 10 (word_of_int r)) 0 1 1 (page_directory s ! nat v)]\<rparr>)"
  using assms by (simp add: create_user_4mb_page_def rd_in wr_in)

lemma translate_user_page:
  assumes "length (page_directory s) = 1024" "2 \<le> r" "r < 1024" "2 \<le> v" "v < 1024"
    and "create_user_4mb_page r v s = Some (0, s')"
  shows "translate L s' user va =
    (if uint (drop_bit 22 va) = v then Some (push_bit 22 (word_of_int r) OR take_bit 22 va)
     else translate L s user va)"
proof -
  note s' = assms(6) [unfolded create_user_4mb_page_eq [OF assms(1-5)], simplified, symmetric]
  have tab: "table_at L s' = table_at L s" by (simp add: table_at_def s' fun_eq_iff)
  show ?thesis
  proof (cases "uint (drop_bit 22 va) = v")
    case True
    then show ?thesis
      using assms(1-5)
      by (simp add: translate_def s' rd_in grants_def fill_entry_fields frame_index)
  next
    case False
    then have "rd (page_directory s') (uint (drop_bit 22 va)) = rd (page_directory s) (uint (drop_bit 22 va))"
      using assms(4) unat_eq_nat_iff [of v "drop_bit 22 va"] by (auto simp: s' rd_def nth_list_update)
    then show ?thesis using False unfolding translate_def tab by simp
  qed
qed

subsection \<open>Start-up\<close>

lemma clear_entries_eq:
  assumes "i + n = 1024" "length pd = 1024" "length pt = 1024"
  shows "clear_entries i n pd pt =
    Some (take i pd @ map (set_present 0) (drop i pd), take i pt @ map (set_present 0) (drop i pt))"
  using assms
proof (induction n arbitrary: i pd pt)
  case (Suc n)
  then have "i < 1024" by simp
  with Suc show ?case
    by (simp add: rd_nat take_Suc_update Cons_nth_drop_Suc [symmetric])
qed simp

definition vga_entry :: u32 where "vga_entry = fill_entry 0xB8 0 0 0 0"

lemma present_cleared: "\<not> grants user (set_present 0 w)"
  by (simp add: grants_def entry_defs field_simps')

lemma init_paging_tables:
  assumes "length (page_directory s) = 1024" "length (page_table_0 s) = 1024"
  shows "\<exists>s'. init_paging L s = Some s' \<and>
    page_directory s' = (map (set_present 0) (page_directory s))
      [1 := fill_entry 0x400 1 1 0 (set_present 0 (page_directory s ! 1)),
       0 := fill_entry (drop_bit 12 (page_table_0_addr L AND 0xFFFFF000)) 0 0 0
              (set_present 0 (page_directory s ! 0))] \<and>
    page_table_0 s' = (map (set_present 0) (page_table_0 s))
      [0xB8 := fill_entry 0xB8 0 0 0 (set_present 0 (page_table_0 s ! 0xB8))] \<and>
    vid_page_table_0 s' = vid_page_table_0 s"
  using assms
  by (simp add: init_paging_def clear_page_directory_table_def clear_entries_eq kernel_paging_init_def
      vga_paging_init_def setup_control_registers_def rd_in wr_in)

subsection \<open>Isolation of user programs\<close>

text \<open>
  The only entries a user program can use are the 4 MB program page (index 32), which maps a frame
  above the kernel, and the first page behind index 31, which maps the screen or a saved screen.
  The kernel's own page maps itself, the table behind index 0 maps the screen, and nothing else is mapped.
\<close>

definition vid_targets :: "layout \<Rightarrow> u32 set" where
  "vid_targets L = insert 0xB8 ((\<lambda>i. take_bit 20 (drop_bit 12 (vid_save_addr L i AND 0xFFFFF000))) ` {0..<3})"

definition paging_inv :: "layout \<Rightarrow> 'a paging_scheme \<Rightarrow> bool" where
  "paging_inv L s \<longleftrightarrow>
     length (page_directory s) = 1024 \<and> length (page_table_0 s) = 1024 \<and> length (vid_page_table_0 s) = 1024 \<and>
     (\<forall>i < 1024. i \<noteq> 31 \<longrightarrow> i \<noteq> 32 \<longrightarrow> \<not> grants True (page_directory s ! i)) \<and>
     (\<forall>i < 1024. 1 < i \<longrightarrow> i \<noteq> 31 \<longrightarrow> i \<noteq> 32 \<longrightarrow> \<not> grants False (page_directory s ! i)) \<and>
     size_bit (page_directory s ! 0) = 0 \<and>
     push_bit 12 (addr (page_directory s ! 0)) = page_table_0_addr L AND 0xFFFFF000 \<and>
     (\<forall>i < 1024. grants False (page_table_0 s ! i) \<longrightarrow> addr (page_table_0 s ! i) = 0xB8) \<and>
     (grants False (page_directory s ! 32) \<longrightarrow>
        size_bit (page_directory s ! 32) = 1 \<and>
        (\<exists>r. 2 \<le> r \<and> r < 9 \<and> drop_bit 10 (addr (page_directory s ! 32)) = word_of_int r)) \<and>
     (grants False (page_directory s ! 31) \<longrightarrow>
        size_bit (page_directory s ! 31) = 0 \<and>
        push_bit 12 (addr (page_directory s ! 31)) = vid_page_table_0_addr L) \<and>
     (\<forall>i < 1024. 0 < i \<longrightarrow> \<not> grants False (vid_page_table_0 s ! i)) \<and>
     (grants False (vid_page_table_0 s ! 0) \<longrightarrow> addr (vid_page_table_0 s ! 0) \<in> vid_targets L) \<and>
     grants False (page_directory s ! 1) \<and> size_bit (page_directory s ! 1) = 1 \<and>
     drop_bit 10 (addr (page_directory s ! 1)) = 1"

text \<open>
  Sensible link addresses: page aligned, different tables at different places, and the saved screens
  in the kernel image, which ends at 8 MB.
\<close>

definition layout_ok :: "layout \<Rightarrow> bool" where
  "layout_ok L \<longleftrightarrow>
     page_table_0_addr L AND 0xFFFFF000 = page_table_0_addr L \<and>
     vid_page_table_0_addr L AND 0xFFFFF000 = vid_page_table_0_addr L \<and>
     page_table_0_addr L \<noteq> vid_page_table_0_addr L \<and>
     (\<forall>i \<in> {0..<3}. vid_save_addr L i < 0x800000 \<and> vid_save_addr L i AND 0xFFFFF000 = vid_save_addr L i)"

inductive paging_step :: "layout \<Rightarrow> 'a paging_scheme \<Rightarrow> 'a paging_scheme \<Rightarrow> bool" for L where
  map_program: "0 \<le> pid \<Longrightarrow> pid < 7 \<Longrightarrow> create_user_4mb_page (pid + 2) USER_PD_INDEX s = Some (r, s') \<Longrightarrow>
    paging_step L s s'"
| map_video: "create_vid_4kb_page L s = Some (a, s') \<Longrightarrow> paging_step L s s'"
| remap_video: "0 \<le> i \<Longrightarrow> i < 3 \<Longrightarrow> remap_vid L i s = Some s' \<Longrightarrow> paging_step L s s'"
| flush: "paging_step L s (reload_cr3 L s)"

text \<open>States after \<open>init_paging\<close> on the zero-initialised tables of the kernel image.\<close>

inductive paging_reach :: "layout \<Rightarrow> 'a paging_scheme \<Rightarrow> bool" for L where
  start: "page_directory s0 = replicate 1024 0 \<Longrightarrow> page_table_0 s0 = replicate 1024 0 \<Longrightarrow>
    vid_page_table_0 s0 = replicate 1024 0 \<Longrightarrow> init_paging L s0 = Some s \<Longrightarrow> paging_reach L s"
| step: "paging_reach L s \<Longrightarrow> paging_step L s s' \<Longrightarrow> paging_reach L s'"

lemma grants_fill_entry:
  "grants user (fill_entry a g ps pl w) \<longleftrightarrow> (user \<longrightarrow> take_bit 1 pl = (1 :: u32))"
  by (simp add: grants_def fill_entry_fields)

lemma grants_weaken: "grants True e \<Longrightarrow> grants user e"
  by (simp add: grants_def)

lemma grants_zero: "\<not> grants user 0"
  by (simp add: grants_def entry_defs get_field_def)

lemma addr_set_addr: "addr (set_addr a w) = take_bit 20 a"
  and grants_set_addr: "grants user (set_addr a w) = grants user w"
  by (simp_all add: grants_def entry_defs field_simps')

lemma paging_inv_start:
  assumes "page_directory s0 = replicate 1024 0" "page_table_0 s0 = replicate 1024 0"
    "vid_page_table_0 s0 = replicate 1024 0" "init_paging L s0 = Some s"
  shows "paging_inv L s"
proof -
  obtain s' where s': "init_paging L s0 = Some s'"
    "page_directory s' = (replicate 1024 (set_present 0 0))
      [1 := fill_entry 0x400 1 1 0 (set_present 0 0),
       0 := fill_entry (drop_bit 12 (page_table_0_addr L AND 0xFFFFF000)) 0 0 0 (set_present 0 0)]"
    "page_table_0 s' = (replicate 1024 (set_present 0 0))[0xB8 := fill_entry 0xB8 0 0 0 (set_present 0 0)]"
    "vid_page_table_0 s' = replicate 1024 0"
    using init_paging_tables [of s0 L] assms(1-3) by (simp add: map_replicate_const) auto
  define e0 where "e0 = fill_entry (drop_bit 12 (page_table_0_addr L AND 0xFFFFF000)) 0 0 0 (set_present 0 0)"
  have e0: "size_bit e0 = 0" "\<not> grants True e0" "push_bit 12 (addr e0) = page_table_0_addr L AND 0xFFFFF000"
    unfolding e0_def fill_entry_fields page_base by (simp_all add: grants_fill_entry)
  from s' [folded e0_def] e0 assms(4) show ?thesis
    by (auto simp: paging_inv_def nth_list_update grants_fill_entry present_cleared grants_zero
        fill_entry_fields)
qed

lemma paging_inv_map_program:
  assumes "paging_inv L s" "0 \<le> pid" "pid < 7"
    and "create_user_4mb_page (pid + 2) USER_PD_INDEX s = Some (r, s')"
  shows "paging_inv L s'"
proof -
  have eq: "create_user_4mb_page (pid + 2) USER_PD_INDEX s = Some (0, s\<lparr>page_directory :=
      (page_directory s)[nat 32 := fill_entry (push_bit 10 (word_of_int (pid + 2))) 0 1 1
        (page_directory s ! nat 32)]\<rparr>)"
    using assms(1-3) by (intro create_user_4mb_page_eq) (auto simp: paging_inv_def)
  have frame: "drop_bit 10 (take_bit 20 (push_bit 10 (word_of_int (pid + 2) :: u32))) = word_of_int (pid + 2)"
    using assms(2,3) by (intro frame_index) auto
  let ?d = "fill_entry (push_bit 10 (word_of_int (pid + 2))) 0 1 1 (page_directory s ! 32)"
  have s': "s' = s\<lparr>page_directory := (page_directory s)[32 := ?d]\<rparr>"
    using assms(4) unfolding eq by simp
  have d: "size_bit ?d = 1" "\<exists>r. 2 \<le> r \<and> r < 9 \<and> drop_bit 10 (addr ?d) = word_of_int r"
    using frame assms(2,3) by (auto simp: fill_entry_fields simp del: of_int_add intro!: exI [of _ "pid + 2"])
  have len: "length (page_directory s) = 1024" using assms(1) by (simp add: paging_inv_def)
  from assms(1) show ?thesis
    unfolding paging_inv_def s' by (simp add: nth_list_update len d del: of_int_add)
qed

lemma paging_inv_map_video:
  assumes "layout_ok L" "paging_inv L s" "create_vid_4kb_page L s = Some (a, s')"
  shows "paging_inv L s'"
proof -
  let ?d = "fill_entry (drop_bit 12 (vid_page_table_0_addr L AND 0xFFFFF000)) 0 0 1 (page_directory s ! 31)"
  let ?t = "fill_entry 0xB8 0 0 1 (vid_page_table_0 s ! 0)"
  have len: "length (page_directory s) = 1024" "length (vid_page_table_0 s) = 1024"
    using assms(2) by (simp_all add: paging_inv_def)
  have s': "s' = s\<lparr>page_directory := (page_directory s)[31 := ?d],
      vid_page_table_0 := (vid_page_table_0 s)[0 := ?t]\<rparr>"
    using assms(3) len by (simp add: create_vid_4kb_page_def rd_in wr_in)
  have al: "vid_page_table_0_addr L AND 0xFFFFF000 = vid_page_table_0_addr L"
    using assms(1) by (simp add: layout_ok_def)
  have d: "size_bit ?d = 0" "push_bit 12 (addr ?d) = vid_page_table_0_addr L"
    using page_base [of "vid_page_table_0_addr L", unfolded al] by (simp_all add: fill_entry_fields al)
  have t: "addr ?t \<in> vid_targets L" by (simp add: fill_entry_fields vid_targets_def)
  obtain e1 e2 where e: "s' = s\<lparr>page_directory := (page_directory s)[31 := e1],
      vid_page_table_0 := (vid_page_table_0 s)[0 := e2]\<rparr>" "size_bit e1 = 0"
      "push_bit 12 (addr e1) = vid_page_table_0_addr L" "addr e2 \<in> vid_targets L"
    using s' d t by blast
  from assms(2) show ?thesis
    unfolding paging_inv_def e(1) by (simp add: nth_list_update e(2-))
qed

lemma paging_inv_remap_video:
  assumes "paging_inv L s" "0 \<le> i" "i < 3" "remap_vid L i s = Some s'"
  shows "paging_inv L s'"
proof -
  let ?a = "if i = curr_term_id s then 0xB8 else drop_bit 12 (vid_save_addr L i AND 0xFFFFF000)"
  have len: "length (vid_page_table_0 s) = 1024" using assms(1) by (simp add: paging_inv_def)
  have "take_bit 20 ?a \<in> vid_targets L" using assms(2,3) by (auto simp: vid_targets_def)
  then obtain e where e: "s' = s\<lparr>vid_page_table_0 := (vid_page_table_0 s)[0 := e]\<rparr>"
      "grants True e = grants True (vid_page_table_0 s ! 0)" "addr e \<in> vid_targets L"
    using assms(4) len addr_set_addr [of ?a] grants_set_addr [of True ?a]
    by (simp add: remap_vid_def rd_in wr_in) metis
  from assms(1) show ?thesis
    unfolding paging_inv_def e(1) by (simp add: nth_list_update e(2,3))
qed

lemma remap_vid_upd:
  assumes "length (vid_page_table_0 s) = 1024"
  obtains pt where "remap_vid L i s = Some (s\<lparr>vid_page_table_0 := pt\<rparr>)" "length pt = 1024"
proof -
  let ?a = "if i = curr_term_id s then 0xB8 else drop_bit 12 (vid_save_addr L i AND 0xFFFFF000)"
  have "remap_vid L i s = Some (s\<lparr>vid_page_table_0 :=
      (vid_page_table_0 s)[0 := set_addr ?a (vid_page_table_0 s ! 0)]\<rparr>)"
    using assms by (simp only: remap_vid_def) (simp add: rd_in wr_in)
  then show ?thesis by (rule that) (simp add: assms)
qed

lemma paging_inv_cong:
  assumes "page_directory s' = page_directory s" "page_table_0 s' = page_table_0 s"
    "vid_page_table_0 s' = vid_page_table_0 s"
  shows "paging_inv L s' = paging_inv L s"
  by (simp add: paging_inv_def assms)

lemma paging_inv_reach: "paging_reach L s \<Longrightarrow> layout_ok L \<Longrightarrow> paging_inv L s"
proof (induction rule: paging_reach.induct)
  case (step s s')
  from step.hyps(2) show ?case
  proof cases
    case flush
    with step.IH [OF step.prems] show ?thesis by (simp add: reload_cr3_def paging_inv_def)
  qed (use step.IH [OF step.prems] step.prems in
    \<open>blast intro: paging_inv_map_program paging_inv_map_video paging_inv_remap_video\<close>)+
qed (rule paging_inv_start)

text \<open>What a user program can reach, and that the kernel stays mapped to itself.\<close>

lemma user_entry:
  assumes "paging_inv L s" "grants True (page_directory s ! i)" "i < 1024"
  shows "i = 31 \<or> i = 32"
  using assms unfolding paging_inv_def by blast

lemma uint_int: "uint w = int (unat w)"
  by simp

lemma unat_pd_index: "unat (drop_bit 22 (va :: u32)) < 1024"
  and unat_pt_index: "unat (take_bit 10 (w :: u32)) < 1024"
  using pd_index [of va] take_bit_nat_less_exp [of 10 "unat w"] by (simp_all add: unsigned_take_bit_eq)

lemma video_page_index:
  assumes "unat (drop_bit 22 (va :: u32)) = 31" "unat (take_bit 10 (drop_bit 12 va)) = 0"
  shows "unat (drop_bit 12 va) = 31 * 1024"
proof -
  let ?d = "drop_bit 12 va"
  have "drop_bit 22 va = drop_bit 10 ?d" by simp
  then have "unat ?d div 1024 = 31" using assms(1) by (simp only: drop_bit_eq_div unat_div) simp
  moreover have "unat ?d mod 1024 = 0"
    using assms(2) unfolding unsigned_take_bit_eq by (simp add: take_bit_eq_mod)
  ultimately show ?thesis using div_mult_mod_eq [of "unat ?d" 1024] by simp
qed

lemma paging_inv_user_access:
  assumes "paging_inv L s" "translate L s True va = Some pa" "layout_ok L"
  shows "(unat (drop_bit 22 va) = 32 \<and>
            (\<exists>r. 2 \<le> r \<and> r < 9 \<and> pa = push_bit 22 (word_of_int r) OR take_bit 22 va)) \<or>
         (unat (drop_bit 12 va) = 31 * 1024 \<and>
            (\<exists>b \<in> vid_targets L. pa = push_bit 12 b OR take_bit 12 va))"
proof -
  let ?i = "unat (drop_bit 22 va)" and ?j = "unat (take_bit 10 (drop_bit 12 va))"
  have len: "length (page_directory s) = 1024" "length (vid_page_table_0 s) = 1024"
    using assms(1) by (simp_all add: paging_inv_def)
  have pde: "rd (page_directory s) (uint (drop_bit 22 va)) = Some (page_directory s ! ?i)"
    using unat_pd_index [of va] by (simp only: uint_int rd_nat len) simp
  with assms(2) have g: "grants True (page_directory s ! ?i)"
    by (auto simp: translate_def split: if_splits)
  from user_entry [OF assms(1) g unat_pd_index] show ?thesis
  proof
    assume i: "?i = 32"
    with assms(1) grants_weaken [OF g] obtain r where r: "size_bit (page_directory s ! 32) = 1" "2 \<le> r" "r < 9"
        "drop_bit 10 (addr (page_directory s ! 32)) = word_of_int r"
      by (auto simp: paging_inv_def)
    then have "pa = push_bit 22 (word_of_int r) OR take_bit 22 va"
      using assms(2) pde g i by (simp add: translate_def)
    with i r show ?thesis by blast
  next
    assume i: "?i = 31"
    with assms(1) grants_weaken [OF g] have e: "size_bit (page_directory s ! 31) = 0"
        "table_at L s (push_bit 12 (addr (page_directory s ! 31))) = vid_page_table_0 s"
      using assms(3) by (auto simp: paging_inv_def table_at_def layout_ok_def)
    have pte: "rd (vid_page_table_0 s) (uint (take_bit 10 (drop_bit 12 va))) = Some (vid_page_table_0 s ! ?j)"
      using unat_pt_index [of "drop_bit 12 va"] by (simp only: uint_int rd_nat len) simp
    have t: "grants True (vid_page_table_0 s ! ?j)" "pa = push_bit 12 (addr (vid_page_table_0 s ! ?j)) OR take_bit 12 va"
      using assms(2) pde g i e pte by (auto simp: translate_def split: if_splits)
    then have j: "?j = 0"
      using assms(1) unat_pt_index [of "drop_bit 12 va"] grants_weaken [OF t(1)] unfolding paging_inv_def by blast
    with grants_weaken [OF t(1)] assms(1) have "addr (vid_page_table_0 s ! 0) \<in> vid_targets L" by (simp add: paging_inv_def)
    with t j video_page_index [OF i j] show ?thesis by auto
  qed
qed

lemma paging_inv_kernel:
  assumes "paging_inv L s" "unat (drop_bit 22 va) = 1"
  shows "translate L s False va = Some va" "translate L s True va = None"
proof -
  have len: "length (page_directory s) = 1024" using assms(1) by (simp add: paging_inv_def)
  have pde: "rd (page_directory s) (uint (drop_bit 22 va)) = Some (page_directory s ! 1)"
    using assms(2) by (simp only: uint_int rd_nat len) simp
  have "drop_bit 22 va = 1" using assms(2) by (metis unsigned_1 unsigned_word_eqI)
  then have "push_bit 22 1 OR take_bit 22 va = va" using split_join [of 22 va] by simp
  with assms(1) pde show "translate L s False va = Some va" "translate L s True va = None"
    by (auto simp: translate_def paging_inv_def)
qed

text \<open>Above the kernel image, not even the kernel reaches anything but the mapped program.\<close>

lemma unat_exp: "n < 32 \<Longrightarrow> unat (2 ^ n :: u32) = 2 ^ n"
proof -
  assume "n < 32"
  then have "(2 :: nat) ^ n < 2 ^ 32" by (intro power_strict_increasing) simp_all
  then have "unat (of_nat (2 ^ n) :: u32) = 2 ^ n" by (simp only: unat_of_nat) (simp add: take_bit_nat_eq_self)
  then show ?thesis by simp
qed

lemma low_wordI:
  assumes "\<And>i. bit w i \<Longrightarrow> i < n" "n < 32"
  shows "(w :: u32) < 2 ^ n"
proof -
  have "take_bit n (unat w) = unat w" using assms(1) by (intro bit_eqI) (auto simp: bit_simps)
  then have "unat w < 2 ^ n" by (simp add: take_bit_nat_eq_self_iff)
  then show ?thesis using assms(2) by (simp add: word_less_nat_alt unat_exp)
qed

lemma low_wordD:
  assumes "(w :: u32) < 2 ^ n" "n < 32" "bit w i"
  shows "i < n"
proof -
  have "unat w < 2 ^ n" using assms(1,2) by (simp add: word_less_nat_alt unat_exp)
  then have "take_bit n (unat w) = unat w" by (simp add: take_bit_nat_eq_self_iff)
  moreover have "bit (unat w) i" using assms(3) bit_imp_le_length [OF assms(3)] by (simp add: bit_simps)
  ultimately show ?thesis by (metis bit_take_bit_iff)
qed

lemma low_page:
  assumes "b < 2 ^ 11"
  shows "push_bit 12 b OR take_bit 12 va < (2 ^ 23 :: u32)"
proof -
  have "i < 23" if "bit b (i - 12)" for i using low_wordD [OF assms _ that] by simp
  then show ?thesis by (intro low_wordI) (auto simp: bit_simps)
qed

lemma vid_target_low:
  assumes "b \<in> vid_targets L" "layout_ok L"
  shows "b < 2 ^ 11"
proof -
  have "take_bit 20 (drop_bit 12 (x AND 0xFFFFF000)) < (2 ^ 11 :: u32)" if "x < 0x800000" for x :: u32
  proof -
    have "i < 11" if "bit x (12 + i)" for i using low_wordD [of x 23 "12 + i"] \<open>x < 0x800000\<close> that by simp
    then show ?thesis by (intro low_wordI) (auto simp: bit_simps)
  qed
  then show ?thesis using assms by (auto simp: vid_targets_def layout_ok_def)
qed

lemma paging_inv_access:
  assumes "paging_inv L s" "layout_ok L" "translate L s user va = Some pa" "0x800000 \<le> pa"
  shows "unat (drop_bit 22 va) = 32 \<and> pa = push_bit 22 (drop_bit 10 (addr (page_directory s ! 32))) OR take_bit 22 va"
proof -
  let ?i = "unat (drop_bit 22 va)" and ?j = "unat (take_bit 10 (drop_bit 12 va))"
  let ?e = "page_directory s ! ?i"
  have len: "length (page_directory s) = 1024" "length (page_table_0 s) = 1024" "length (vid_page_table_0 s) = 1024"
    using assms(1) by (simp_all add: paging_inv_def)
  have pde: "rd (page_directory s) (uint (drop_bit 22 va)) = Some ?e"
    using unat_pd_index [of va] by (simp only: uint_int rd_nat len) simp
  have g: "grants False ?e" using assms(3) pde by (auto simp: translate_def grants_def split: if_splits)
  have pte: "rd t (uint (take_bit 10 (drop_bit 12 va))) = Some (t ! ?j)" if "length t = 1024" for t :: "u32 list"
    using unat_pt_index [of "drop_bit 12 va"] that by (simp only: uint_int rd_nat) simp
  have small: "size_bit ?e = 1 \<or> table_at L s (push_bit 12 (addr ?e)) \<noteq> t"
    if "length t = 1024" "grants False (t ! ?j) \<Longrightarrow> addr (t ! ?j) < 2 ^ 11" for t
  proof (rule ccontr)
    assume "\<not> ?thesis"
    then have "grants False (t ! ?j)" "pa = push_bit 12 (addr (t ! ?j)) OR take_bit 12 va"
      using assms(3) pde pte [OF that(1)] by (auto simp: translate_def grants_def split: if_splits)
    with that(2) low_page [of "addr (t ! ?j)" va] assms(4) show False by simp
  qed
  have j: "?j < 1024" using unat_pt_index [of "drop_bit 12 va"] .
  have "?i = 32 \<or> ?i = 0 \<or> ?i = 1 \<or> ?i = 31"
    using assms(1) g unat_pd_index [of va] unfolding paging_inv_def by (metis less_one linorder_neqE_nat)
  then show ?thesis
  proof (elim disjE)
    assume i: "?i = 32"
    with assms(1) g have "size_bit ?e = 1" by (simp add: paging_inv_def)
    with assms(3) pde i show ?thesis by (simp add: translate_def split: if_splits)
  next
    assume i: "?i = 0"
    then have "size_bit ?e = 0" "table_at L s (push_bit 12 (addr ?e)) = page_table_0 s"
      using assms(1,2) by (simp_all add: paging_inv_def table_at_def layout_ok_def)
    then show ?thesis using small [OF len(2)] assms(1) j by (simp add: paging_inv_def)
  next
    assume i: "?i = 1"
    have "pa = va" using assms(3) paging_inv_kernel [OF assms(1) i] by (cases user) auto
    moreover have "unat va div 2 ^ 22 = 1" using i by (simp add: drop_bit_eq_div unat_div)
    ultimately show ?thesis using assms(4) by (simp add: word_le_nat_alt)
  next
    assume i: "?i = 31"
    then have "size_bit ?e = 0" "table_at L s (push_bit 12 (addr ?e)) = vid_page_table_0 s"
      using assms(1,2) g by (auto simp: paging_inv_def table_at_def layout_ok_def)
    moreover have "grants False (vid_page_table_0 s ! ?j) \<Longrightarrow> addr (vid_page_table_0 s ! ?j) < 2 ^ 11"
      using assms(1) j vid_target_low [OF _ assms(2)] unfolding paging_inv_def by (metis gr_zeroI)
    ultimately show ?thesis using small [OF len(3)] by simp
  qed
qed

subsection \<open>Properties\<close>

text \<open>
  C24: In every state that follows \<open>init_paging\<close> on cleared tables by any sequence of the four operations
  the kernel uses on them (mapping the page of one of the seven processes at 128 MB, mapping the video
  page, switching it between the screen and the saved screen of a terminal, reloading CR3), the kernel's
  own 4 MB are mapped to themselves for the kernel and closed to user mode.
\<close>

theorem kernel_always_mapped:
  assumes "paging_reach L s" "layout_ok L" "unat (drop_bit 22 va) = 1"
  shows "translate L s False va = Some va \<and> translate L s True va = None"
  using paging_inv_kernel [OF paging_inv_reach [OF assms(1,2)] assms(3)] by blast

text \<open>
  \<open>create_user_4mb_page\<close> rejects the kernel's first two frames and table indices and anything
  beyond the table with -1, changing nothing; otherwise it maps exactly the given 4 MB page to the
  given frame, for user and kernel, and leaves the translation of every other address as it was.
\<close>

lemma create_user_4mb_page_maps:
  assumes "length (page_directory s) = 1024"
  shows "if r < 2 \<or> v < 2 \<or> 1024 \<le> r \<or> 1024 \<le> v then create_user_4mb_page r v s = Some (- 1, s)
    else \<exists>s'. create_user_4mb_page r v s = Some (0, s') \<and>
      (\<forall>user va. translate L s' user va =
         (if uint (drop_bit 22 va) = v then Some (push_bit 22 (word_of_int r) OR take_bit 22 va)
          else translate L s user va))"
proof (cases "r < 2 \<or> v < 2 \<or> 1024 \<le> r \<or> 1024 \<le> v")
  case False
  then have "2 \<le> r" "r < 1024" "2 \<le> v" "v < 1024" by auto
  with create_user_4mb_page_eq [OF assms this] translate_user_page [OF assms this] False
  show ?thesis by auto
qed (auto simp: create_user_4mb_page_def)

end
