(* ===== verification/Process.thy ===== *)
theory Process
  imports Paging Filesys
begin

text \<open>
  Processes: the process control blocks of \<open>src/student-distrib/syscall.h\<close>, the lookup functions
  at the end of \<open>syscall.c\<close>, and the memory of user programs.

  A PCB sits at a fixed kernel address computed from its process id, so a PCB pointer is a process
  id and \<open>pcbs\<close> maps ids to blocks; \<open>get_pcb_by_PID\<close> is the address. \<open>user_mem\<close> is the
  physical memory above the kernel, where the program pages lie; the kernel stores into a program
  through the page tables (\<open>store_bytes\<close>).

  The specification: the processes of terminal \<open>t\<close> form a chain from \<open>t\<close> to the program
  that runs on it, linked in both directions, and a process slot is taken exactly when it is in a
  chain.
\<close>

subsection \<open>Data\<close>

datatype fo_jump_table_t =
    file_fo_jump_table | dir_fo_jump_table | stdin_jump_table | stdout_jump_table | rtc_jump_table

record fd_entry_t =
  fo_jump_table_ptr :: "fo_jump_table_t option"
  fd_inode_index :: u32
  file_position :: u32
  fd_flags :: u32

record pcb_t =
  fd_array :: "fd_entry_t list"
  filenames :: "u8 list list"
  process_id :: nat
  parent_ebp :: u32
  parent_esp :: u32
  parent_pcb :: "nat option"
  child_pcb :: "nat option"
  pcb_args :: "u8 list"
  return_ebp :: u32
  return_esp :: u32
  pcb_entry :: u32

record kstate = paging +
  pcbs :: "nat \<Rightarrow> pcb_t"
  tss_esp0 :: u32
  tss_ss0 :: u16
  user_mem :: mem
  fs_mem :: mem
  fs_sections :: fs

abbreviation FD_ARRAY_LEN :: nat where "FD_ARRAY_LEN \<equiv> 8"
abbreviation MAX_NUM_PROCESSES :: nat where "MAX_NUM_PROCESSES \<equiv> 7"
abbreviation KERNEL_DS :: u16 where "KERNEL_DS \<equiv> 0x18"

text \<open>The bit field \<open>active\<close> of a descriptor's flags.\<close>

definition fd_active :: "fd_entry_t \<Rightarrow> bool" where
  "fd_active e \<longleftrightarrow> get_field 0 1 (fd_flags e) = 1"

definition set_active :: "u32 \<Rightarrow> fd_entry_t \<Rightarrow> fd_entry_t" where
  "set_active b e = e\<lparr>fd_flags := set_field 0 1 b (fd_flags e)\<rparr>"

lemma fd_active_set_active: "fd_active (set_active b e) \<longleftrightarrow> take_bit 1 b = (1 :: u32)"
  by (simp add: fd_active_def set_active_def field_simps')

subsection \<open>Finding a process\<close>

definition get_pcb_by_PID :: "int \<Rightarrow> u32" where
  "get_pcb_by_PID pid = 0x800000 - (word_of_int (pid + 1)) * 0x1000"

text \<open>
  \<open>get_pcb_by_PID(pid - 1) - 4\<close> subtracts four PCBs of 544 bytes; \<open>pit_handler\<close> casts first
  and subtracts four bytes.
\<close>

abbreviation SIZEOF_PCB :: u32 where "SIZEOF_PCB \<equiv> 544"

definition kernel_esp0 :: "int \<Rightarrow> u32" where
  "kernel_esp0 pid = get_pcb_by_PID (pid - 1) - 4 * SIZEOF_PCB"

definition pit_esp0 :: "int \<Rightarrow> u32" where
  "pit_esp0 pid = get_pcb_by_PID (pid - 1) - 4"

partial_function (option) leaf_pcb :: "(nat \<Rightarrow> pcb_t) \<Rightarrow> nat \<Rightarrow> nat option" where
  "leaf_pcb P p = (case child_pcb (P p) of None \<Rightarrow> Some p | Some c \<Rightarrow> leaf_pcb P c)"

definition get_current_executing_pcb :: "'a kstate_scheme \<Rightarrow> nat option" where
  "get_current_executing_pcb s = leaf_pcb (pcbs s) (nat (exec_term_id s))"

definition get_current_displaying_pcb :: "'a kstate_scheme \<Rightarrow> nat option" where
  "get_current_displaying_pcb s = leaf_pcb (pcbs s) (nat (curr_term_id s))"

definition upd_pcb :: "nat \<Rightarrow> (pcb_t \<Rightarrow> pcb_t) \<Rightarrow> 'a kstate_scheme \<Rightarrow> 'a kstate_scheme" where
  "upd_pcb p f s = s\<lparr>pcbs := (pcbs s)(p := f (pcbs s p))\<rparr>"

subsection \<open>Kernel stacks\<close>

text \<open>
  The stack of process \<open>p\<close> starts at \<open>kernel_esp0 p\<close> and grows down to its own PCB: it lies
  strictly between the PCB of \<open>p\<close> and the next one.
\<close>

lemma pcb_address:
  assumes "-1 \<le> pid" "pid < 7"
  shows "uint (get_pcb_by_PID pid) = 0x800000 - (pid + 1) * 0x1000"
proof -
  from assms have "pid \<in> {-1, 0, 1, 2, 3, 4, 5, 6}" by auto
  then show ?thesis by (auto simp: get_pcb_by_PID_def)
qed

lemma kernel_stack_above_pcb:
  assumes "0 \<le> pid" "pid < 7"
  shows "uint (kernel_esp0 pid) = uint (get_pcb_by_PID pid) + 1920"
    and "uint (pit_esp0 pid) = uint (get_pcb_by_PID pid) + 4092"
proof -
  from assms have "pid \<in> {0, 1, 2, 3, 4, 5, 6}" by auto
  then show "uint (kernel_esp0 pid) = uint (get_pcb_by_PID pid) + 1920"
    "uint (pit_esp0 pid) = uint (get_pcb_by_PID pid) + 4092"
    by (auto simp: get_pcb_by_PID_def kernel_esp0_def pit_esp0_def)
qed

subsection \<open>Storing into a program\<close>

definition store_byte :: "layout \<Rightarrow> u32 \<Rightarrow> u8 \<Rightarrow> 'a kstate_scheme \<Rightarrow> 'a kstate_scheme option" where
  "store_byte L va b s =
     (case translate L s False va of
        None \<Rightarrow> None
      | Some pa \<Rightarrow> if pa < 0x800000 then None else Some (s\<lparr>user_mem := (user_mem s)(pa := b)\<rparr>))"

fun store_bytes :: "layout \<Rightarrow> u32 \<Rightarrow> u8 list \<Rightarrow> 'a kstate_scheme \<Rightarrow> 'a kstate_scheme option" where
  "store_bytes L va [] s = Some s"
| "store_bytes L va (b # bs) s =
     (case store_byte L va b s of None \<Rightarrow> None | Some s' \<Rightarrow> store_bytes L (va + 1) bs s')"

text \<open>The byte a user program reads at an address.\<close>

definition user_load :: "layout \<Rightarrow> 'a kstate_scheme \<Rightarrow> u32 \<Rightarrow> u8 option" where
  "user_load L s va = map_option (user_mem s) (translate L s True va)"

text \<open>
  The address at an offset in the program page, and the memory after bytes were stored from an offset
  of frame \<open>r\<close> on.
\<close>

definition user_va :: "nat \<Rightarrow> u32" where
  "user_va off = 0x08000000 + of_nat off"

definition overlay :: "int \<Rightarrow> nat \<Rightarrow> u8 list \<Rightarrow> mem \<Rightarrow> mem" where
  "overlay r off bs m = (\<lambda>pa.
     let o' = unat (take_bit 22 pa)
     in if drop_bit 22 pa = word_of_int r \<and> off \<le> o' \<and> o' < off + length bs then bs ! (o' - off) else m pa)"

text \<open>The program page is mapped to frame \<open>r\<close>.\<close>

definition program_frame :: "layout \<Rightarrow> 'a kstate_scheme \<Rightarrow> int \<Rightarrow> bool" where
  "program_frame L s r \<longleftrightarrow>
     (\<forall>user va. unat (drop_bit 22 va) = 32 \<longrightarrow>
        translate L s user va = Some (push_bit 22 (word_of_int r) OR take_bit 22 va))"

lemma user_va_Suc: "user_va off + 1 = user_va (Suc off)"
  by (simp add: user_va_def)

lemma user_va_parts:
  assumes "off < 2 ^ 22"
  shows "unat (drop_bit 22 (user_va off)) = 32" "unat (take_bit 22 (user_va off)) = off"
proof -
  have u: "unat (user_va off) = 32 * 2 ^ 22 + off"
    using assms by (simp add: user_va_def unat_word_ariths unat_of_nat)
  then show "unat (drop_bit 22 (user_va off)) = 32"
    using assms by (simp only: drop_bit_eq_div unat_div) simp
  have "unat (take_bit 22 (user_va off)) = take_bit 22 (unat (user_va off))"
    by (rule unsigned_take_bit_eq)
  then show "unat (take_bit 22 (user_va off)) = off"
    using assms unfolding u by (simp only: take_bit_nat_def mod_mult_self3 mod_less)
qed

lemma frame_parts:
  assumes "0 \<le> r" "r < 1024"
  shows "drop_bit 22 (push_bit 22 (word_of_int r) OR take_bit 22 va) = (word_of_int r :: u32)"
    and "take_bit 22 (push_bit 22 (word_of_int r) OR take_bit 22 va) = (take_bit 22 va :: u32)"
proof -
  have "take_bit 10 r = r" using assms by (simp add: take_bit_int_eq_self)
  then have b: "bit r i \<Longrightarrow> i < 10" for i by (metis bit_take_bit_iff)
  then show "drop_bit 22 (push_bit 22 (word_of_int r) OR take_bit 22 va) = (word_of_int r :: u32)"
    by (intro bit_word_eqI) (auto simp: bit_simps)
  show "take_bit 22 (push_bit 22 (word_of_int r) OR take_bit 22 va) = (take_bit 22 va :: u32)"
    by (rule bit_word_eqI) (auto simp: bit_simps)
qed

lemma frame_above_kernel:
  assumes "2 \<le> r" "r < 1024"
  shows "\<not> push_bit 22 (word_of_int r) OR take_bit 22 va < (0x800000 :: u32)"
proof -
  let ?pa = "push_bit 22 (word_of_int r) OR take_bit 22 va :: u32"
  have "unat (drop_bit 22 ?pa) = nat r"
    using frame_parts(1) [of r va] assms by (simp add: unat_word_of_int)
  then have "nat r * 2 ^ 22 \<le> unat ?pa"
    using div_times_less_eq_dividend [of "unat ?pa" "2 ^ 22"] by (simp only: drop_bit_eq_div unat_div) simp
  then show ?thesis using assms(1) by (simp add: word_less_nat_alt)
qed

lemma program_frame_mem [simp]: "program_frame L (s\<lparr>user_mem := m\<rparr>) r = program_frame L s r"
  using translate_cong [of "s\<lparr>user_mem := m\<rparr>" s L] by (simp add: program_frame_def)

lemma overlay_Cons:
  assumes "0 \<le> r" "r < 1024" "off < 2 ^ 22"
  shows "overlay r off (b # bs) m =
    overlay r (Suc off) bs (m(push_bit 22 (word_of_int r) OR take_bit 22 (user_va off) := b))"
proof (rule ext)
  fix pa :: u32
  let ?x = "push_bit 22 (word_of_int r) OR take_bit 22 (user_va off) :: u32"
  have x: "drop_bit 22 ?x = word_of_int r" "unat (take_bit 22 ?x) = off"
    using frame_parts [OF assms(1,2)] user_va_parts [OF assms(3)] by simp_all
  have eq: "pa = ?x" if "drop_bit 22 pa = word_of_int r" "unat (take_bit 22 pa) = off"
  proof -
    have "take_bit 22 pa = take_bit 22 ?x" using that(2) x(2) by (metis unsigned_word_eqI)
    then show ?thesis using that(1) x(1) split_join [of 22 pa] split_join [of 22 ?x] by simp
  qed
  show "overlay r off (b # bs) m pa = overlay r (Suc off) bs (m(?x := b)) pa"
  proof (cases "drop_bit 22 pa = word_of_int r \<and> unat (take_bit 22 pa) = off")
    case True
    with eq have "pa = ?x" by blast
    with x show ?thesis by (simp add: overlay_def Let_def)
  next
    case False
    then have "pa \<noteq> ?x" using x by auto
    moreover have "(b # bs) ! (unat (take_bit 22 pa) - off) = bs ! (unat (take_bit 22 pa) - Suc off)"
      if "off < unat (take_bit 22 pa)"
      using that by (simp add: nth_Cons')
    ultimately show ?thesis
      using False by (simp add: overlay_def Let_def) (metis Suc_leI le_neq_implies_less Suc_le_lessD order_less_imp_le)
  qed
qed

lemma store_bytes_overlay:
  assumes "program_frame L s r" "2 \<le> r" "r < 1024" "off + length bs \<le> 2 ^ 22"
  shows "store_bytes L (user_va off) bs s = Some (s\<lparr>user_mem := overlay r off bs (user_mem s)\<rparr>)"
  using assms(1,4)
proof (induction bs arbitrary: off s)
  case Nil
  have "overlay r off [] (user_mem s) = user_mem s" by (auto simp: overlay_def Let_def fun_eq_iff)
  then show ?case by simp
next
  case (Cons b bs)
  let ?pa = "push_bit 22 (word_of_int r) OR take_bit 22 (user_va off) :: u32"
  have off: "off < 2 ^ 22" using Cons.prems(2) by simp
  have "store_byte L (user_va off) b s = Some (s\<lparr>user_mem := (user_mem s)(?pa := b)\<rparr>)"
    using Cons.prems(1) user_va_parts(1) [OF off] frame_above_kernel [OF assms(2,3), of "user_va off"]
    by (simp add: store_byte_def program_frame_def)
  moreover have "store_bytes L (user_va (Suc off)) bs (s\<lparr>user_mem := (user_mem s)(?pa := b)\<rparr>) =
      Some (s\<lparr>user_mem := overlay r (Suc off) bs ((user_mem s)(?pa := b))\<rparr>)"
    using Cons.IH [of "s\<lparr>user_mem := (user_mem s)(?pa := b)\<rparr>" "Suc off"] Cons.prems by (simp add: fun_upd_def)
  ultimately show ?case
    using overlay_Cons [of r off b bs "user_mem s"] assms(2,3) off by (simp add: user_va_Suc)
qed

text \<open>A program reads back what was stored, and other frames are untouched.\<close>

lemma user_load_overlay:
  assumes "program_frame L s r" "0 \<le> r" "r < 1024" "off + i < 2 ^ 22" "i < length bs"
  shows "user_load L (s\<lparr>user_mem := overlay r off bs m\<rparr>) (user_va (off + i)) = Some (bs ! i)"
  using program_frame_mem [of L "overlay r off bs m" s r] assms(1) user_va_parts [OF assms(4)]
    frame_parts [OF assms(2,3), of "user_va (off + i)"] assms(5)
  by (simp add: user_load_def program_frame_def overlay_def Let_def del: program_frame_mem)

lemma overlay_other_frame: "drop_bit 22 pa \<noteq> word_of_int r \<Longrightarrow> overlay r off bs m pa = m pa"
  by (simp add: overlay_def)

lemma create_user_4mb_page_frame:
  assumes "length (page_directory s) = 1024" "2 \<le> r" "r < 1024"
    and "create_user_4mb_page r USER_PD_INDEX s = Some (c, s')"
  shows "program_frame L s' r" "c = 0"
proof -
  show c: "c = 0" using assms create_user_4mb_page_eq [of s r 32] by simp
  have "uint (drop_bit 22 va) = 32" if "unat (drop_bit 22 va) = 32" for va :: u32
    using that unfolding uint_int by simp
  with c show "program_frame L s' r"
    using translate_user_page [of s r 32 s' L] assms by (simp add: program_frame_def)
qed

subsection \<open>Chains\<close>

fun chain :: "(nat \<Rightarrow> pcb_t) \<Rightarrow> nat list \<Rightarrow> bool" where
  "chain P [] \<longleftrightarrow> False"
| "chain P [p] \<longleftrightarrow> child_pcb (P p) = None"
| "chain P (p # q # ps) \<longleftrightarrow> child_pcb (P p) = Some q \<and> parent_pcb (P q) = Some p \<and> chain P (q # ps)"

text \<open>The walk over the children ends, at the last process of the chain.\<close>

lemma leaf_pcb_chain: "chain P ps \<Longrightarrow> leaf_pcb P (hd ps) = Some (last ps)"
  by (induction P ps rule: chain.induct) (auto simp: leaf_pcb.simps)

lemma chain_cong:
  "\<forall>p \<in> set ps. child_pcb (Q p) = child_pcb (P p) \<and> parent_pcb (Q p) = parent_pcb (P p) \<Longrightarrow>
     chain Q ps = chain P ps"
  by (induction P ps rule: chain.induct) auto

lemma chain_nonempty: "chain P ps \<Longrightarrow> ps \<noteq> []"
  by auto

lemma chain_snoc:
  assumes "chain P ps" "c \<notin> set ps" "distinct ps"
    and "\<And>p. p \<in> set ps \<Longrightarrow> p \<noteq> last ps \<Longrightarrow> child_pcb (Q p) = child_pcb (P p)"
    and "\<And>p. p \<in> set ps \<Longrightarrow> parent_pcb (Q p) = parent_pcb (P p)"
    and "child_pcb (Q (last ps)) = Some c" "parent_pcb (Q c) = Some (last ps)" "child_pcb (Q c) = None"
  shows "chain Q (ps @ [c])"
  using assms
proof (induction P ps rule: chain.induct)
  case (3 P p q ps)
  then have "last (q # ps) \<noteq> p" by (auto dest: last_in_set)
  with 3 show ?case by auto
qed auto

lemma chain_butlast:
  assumes "chain P (ps @ [q, c])" "distinct (ps @ [q])"
    and "\<And>p. p \<in> set ps \<Longrightarrow> child_pcb (Q p) = child_pcb (P p)"
    and "\<And>p. p \<in> set (ps @ [q]) \<Longrightarrow> parent_pcb (Q p) = parent_pcb (P p)"
    and "child_pcb (Q q) = None"
  shows "chain Q (ps @ [q])"
  using assms
proof (induction ps)
  case (Cons p ps)
  then have "chain Q (ps @ [q])" by (cases ps) auto
  with Cons.prems show ?case by (cases ps) auto
qed simp

lemma chain_last_parent: "chain P (ps @ [q, c]) \<Longrightarrow> parent_pcb (P c) = Some q"
proof (induction ps)
  case (Cons p ps)
  then show ?case by (cases ps) auto
qed simp

subsection \<open>The process invariant\<close>

abbreviation members :: "(nat \<Rightarrow> nat list) \<Rightarrow> nat list" where
  "members cs \<equiv> cs 0 @ cs 1 @ cs 2"

definition pcb_shape :: "pcb_t \<Rightarrow> bool" where
  "pcb_shape b \<longleftrightarrow> length (fd_array b) = FD_ARRAY_LEN \<and> length (filenames b) = FD_ARRAY_LEN \<and>
     (\<forall>f \<in> set (filenames b). length f = 32) \<and> length (pcb_args b) = 128"

definition proc_chains :: "(nat \<Rightarrow> nat list) \<Rightarrow> 'a kstate_scheme \<Rightarrow> bool" where
  "proc_chains cs s \<longleftrightarrow>
     length (processes s) = MAX_NUM_PROCESSES \<and> (\<forall>p. pcb_shape (pcbs s p)) \<and>
     (\<forall>t < NUM_TERMINALS. chain (pcbs s) (cs t) \<and> hd (cs t) = t \<and> parent_pcb (pcbs s t) = None) \<and>
     distinct (members cs) \<and> set (members cs) \<subseteq> {..<MAX_NUM_PROCESSES} \<and>
     (\<forall>p. 3 \<le> p \<longrightarrow> p < MAX_NUM_PROCESSES \<longrightarrow> (processes s ! p \<longleftrightarrow> p \<in> set (members cs))) \<and>
     (\<forall>p \<in> set (members cs). process_id (pcbs s p) = p)"

definition proc_inv :: "'a kstate_scheme \<Rightarrow> bool" where
  "proc_inv s \<longleftrightarrow> (\<exists>cs. proc_chains cs s)"

lemma less_3_cases: "t < 3 \<Longrightarrow> t = 0 \<or> t = 1 \<or> t = (2 :: nat)"
  by auto

lemma chain_in_members: "t < 3 \<Longrightarrow> set (cs t) \<subseteq> set (members cs)"
  by (auto dest!: less_3_cases)

lemma chain_distinct: "distinct (members cs) \<Longrightarrow> t < 3 \<Longrightarrow> distinct (cs t)"
  by (auto dest!: less_3_cases)

lemma chains_disjoint:
  "distinct (members cs) \<Longrightarrow> t < 3 \<Longrightarrow> u < 3 \<Longrightarrow> t \<noteq> u \<Longrightarrow> set (cs t) \<inter> set (cs u) = {}"
  by (auto dest!: less_3_cases)

lemma members_snoc:
  "t < 3 \<Longrightarrow> set (members (cs(t := cs t @ [c]))) = insert c (set (members cs))"
  "t < 3 \<Longrightarrow> distinct (members (cs(t := cs t @ [c]))) \<longleftrightarrow> distinct (members cs) \<and> c \<notin> set (members cs)"
  by (auto dest!: less_3_cases)

lemma members_butlast:
  assumes "t < 3" "cs t = ps @ [c]" "distinct (members cs)"
  shows "set (members (cs(t := ps))) = set (members cs) - {c}" "distinct (members (cs(t := ps)))"
  using less_3_cases [OF assms(1)] assms(2,3) by (elim disjE; auto)+

text \<open>The lookup of the executing process is total on states with the invariant.\<close>

lemma executing_pcb:
  assumes "proc_chains cs s" "tty_ids_ok s"
  shows "get_current_executing_pcb s = Some (last (cs (nat (exec_term_id s))))"
proof -
  let ?e = "nat (exec_term_id s)"
  have "?e < 3" using assms(2) by (auto simp: tty_ids_ok_def)
  with assms(1) have "chain (pcbs s) (cs ?e)" "hd (cs ?e) = ?e" by (auto simp: proc_chains_def)
  then show ?thesis using leaf_pcb_chain [of "pcbs s" "cs ?e"] by (simp add: get_current_executing_pcb_def)
qed

lemma executing_member:
  assumes "proc_chains cs s" "t < 3"
  shows "last (cs t) \<in> set (cs t)" "last (cs t) < MAX_NUM_PROCESSES" "process_id (pcbs s (last (cs t))) = last (cs t)"
proof -
  have "chain (pcbs s) (cs t)" using assms by (simp add: proc_chains_def)
  then show l: "last (cs t) \<in> set (cs t)" by (intro last_in_set chain_nonempty)
  with chain_in_members [OF assms(2), of cs] have m: "last (cs t) \<in> set (members cs)" by blast
  then show "last (cs t) < MAX_NUM_PROCESSES" "process_id (pcbs s (last (cs t))) = last (cs t)"
    using assms(1) unfolding proc_chains_def by blast+
qed

text \<open>The parts of the state the invariant reads.\<close>

lemma proc_chains_cong:
  assumes "processes s' = processes s" "pcbs s' = pcbs s"
  shows "proc_chains cs s' = proc_chains cs s"
  by (simp add: proc_chains_def assms)

text \<open>
  Changes of a PCB that leave its links and its id alone (opening and closing descriptors, saving
  registers) keep the invariant.
\<close>

lemma proc_chains_upd_pcb:
  assumes "proc_chains cs s"
    and "\<And>b. child_pcb (f b) = child_pcb b" "\<And>b. parent_pcb (f b) = parent_pcb b"
      "\<And>b. process_id (f b) = process_id b" "\<And>b. pcb_shape b \<Longrightarrow> pcb_shape (f b)"
  shows "proc_chains cs (upd_pcb p f s)"
proof -
  have "chain (pcbs (upd_pcb p f s)) ps = chain (pcbs s) ps" for ps
    by (rule chain_cong) (simp add: upd_pcb_def assms)
  with assms show ?thesis by (simp add: proc_chains_def) (simp add: upd_pcb_def)
qed

subsection \<open>Adding and removing a process\<close>

lemma members_roots:
  assumes "proc_chains cs s" "t < 3"
  shows "t \<in> set (cs t)" "c \<in> set (cs t) \<Longrightarrow> c < 3 \<Longrightarrow> c = t"
proof -
  have h: "chain (pcbs s) (cs u)" "hd (cs u) = u" if "u < 3" for u
    using assms(1) that by (simp_all add: proc_chains_def)
  have r: "u \<in> set (cs u)" if "u < 3" for u
    using h [OF that] hd_in_set [OF chain_nonempty, of "pcbs s" "cs u"] by simp
  show "t \<in> set (cs t)" using r [OF assms(2)] .
  show "c = t" if "c \<in> set (cs t)" "c < 3"
    using chains_disjoint [of cs t c] r [OF that(2)] that assms by (auto simp: proc_chains_def)
qed

lemma proc_chains_extend:
  assumes "proc_chains cs s" "e < 3" "c \<notin> set (members cs)" "3 \<le> c" "c < 7"
    and "processes s' = (processes s)[c := True]"
    and "pcbs s' = (pcbs s)(last (cs e) := (pcbs s (last (cs e)))\<lparr>child_pcb := Some c\<rparr>, c := nb)"
    and "parent_pcb nb = Some (last (cs e))" "child_pcb nb = None" "process_id nb = c" "pcb_shape nb"
  shows "proc_chains (cs(e := cs e @ [c])) s'"
proof -
  let ?l = "last (cs e)"
  have inv: "length (processes s) = 7" "\<forall>p. pcb_shape (pcbs s p)" "distinct (members cs)"
      "set (members cs) \<subseteq> {..<7}" "\<forall>p \<in> set (members cs). process_id (pcbs s p) = p"
      "\<forall>p. 3 \<le> p \<longrightarrow> p < 7 \<longrightarrow> (processes s ! p \<longleftrightarrow> p \<in> set (members cs))"
    using assms(1) unfolding proc_chains_def by blast+
  have ch: "chain (pcbs s) (cs t)" "hd (cs t) = t" "parent_pcb (pcbs s t) = None" if "t < 3" for t
    using assms(1) that by (simp_all add: proc_chains_def)
  have l: "?l \<in> set (cs e)" "?l \<noteq> c"
    using executing_member(1) [OF assms(1,2)] chain_in_members [OF assms(2), of cs] assms(3) by auto
  have cm: "c \<notin> set (cs t)" if "t < 3" for t using chain_in_members [OF that, of cs] assms(3) by blast
  have new: "chain (pcbs s') (cs e @ [c])"
    using ch(1) [OF assms(2)] cm [OF assms(2)] chain_distinct [OF inv(3) assms(2)] l assms(7-9)
    by (intro chain_snoc [where P = "pcbs s"]) auto
  have old: "chain (pcbs s') (cs t)" if "t < 3" "t \<noteq> e" for t
  proof -
    have "?l \<notin> set (cs t)" using chains_disjoint [OF inv(3) that(1) assms(2) that(2)] l(1) by blast
    then have "child_pcb (pcbs s' p) = child_pcb (pcbs s p) \<and> parent_pcb (pcbs s' p) = parent_pcb (pcbs s p)"
      if "p \<in> set (cs t)" for p
      using that cm [OF \<open>t < 3\<close>] assms(7) by (cases "p = c \<or> p = ?l") auto
    then show ?thesis using chain_cong [of "cs t" "pcbs s'" "pcbs s"] ch(1) [OF that(1)] by blast
  qed
  have "chain (pcbs s') ((cs(e := cs e @ [c])) t) \<and> hd ((cs(e := cs e @ [c])) t) = t \<and>
      parent_pcb (pcbs s' t) = None" if "t < 3" for t
    using that new old [OF that] ch [OF that] assms(4,7) chain_nonempty [OF ch(1) [OF that]] by auto
  moreover have "processes s' ! p \<longleftrightarrow> p \<in> insert c (set (members cs))" if "3 \<le> p" "p < 7" for p
    using inv(6) [rule_format, OF that] inv(1) assms(6) that by (cases "p = c") simp_all
  moreover have "process_id (pcbs s' p) = p" if "p \<in> insert c (set (members cs))" for p
    using that inv(5) assms(7,10) by auto
  moreover have "pcb_shape (pcbs s' p)" for p using inv(2) assms(7,11) by (auto simp: pcb_shape_def)
  ultimately show ?thesis
    unfolding proc_chains_def members_snoc [OF assms(2)] using inv assms(3,5,6) by auto
qed

lemma proc_chains_shrink:
  assumes "proc_chains cs s" "e < 3" "cs e = ps @ [q, c]"
    and "processes s' = (processes s)[c := False]"
    and "\<And>p. p \<noteq> q \<Longrightarrow> child_pcb (pcbs s' p) = child_pcb (pcbs s p)" "child_pcb (pcbs s' q) = None"
    and "\<And>p. parent_pcb (pcbs s' p) = parent_pcb (pcbs s p)"
    and "\<And>p. process_id (pcbs s' p) = process_id (pcbs s p)" "\<And>p. pcb_shape (pcbs s' p)"
  shows "proc_chains (cs(e := ps @ [q])) s'"
proof -
  have inv: "length (processes s) = 7" "distinct (members cs)"
      "set (members cs) \<subseteq> {..<7}" "\<forall>p \<in> set (members cs). process_id (pcbs s p) = p"
      "\<forall>p. 3 \<le> p \<longrightarrow> p < 7 \<longrightarrow> (processes s ! p \<longleftrightarrow> p \<in> set (members cs))"
    using assms(1) unfolding proc_chains_def by blast+
  have ch: "chain (pcbs s) (cs t)" "hd (cs t) = t" "parent_pcb (pcbs s t) = None" if "t < 3" for t
    using assms(1) that by (simp_all add: proc_chains_def)
  have cs_e: "cs e = (ps @ [q]) @ [c]" using assms(3) by simp
  note mem = members_butlast [OF assms(2) cs_e inv(2)]
  have de: "distinct (ps @ [q, c])" using chain_distinct [OF inv(2) assms(2)] assms(3) by simp
  have new: "chain (pcbs s') (ps @ [q])"
  proof (rule chain_butlast [where P = "pcbs s" and c = c])
    show "child_pcb (pcbs s' p) = child_pcb (pcbs s p)" if "p \<in> set ps" for p
      using that de by (intro assms(5)) auto
  qed (use ch(1) [OF assms(2)] de assms(3,6,7) in auto)
  have old: "chain (pcbs s') (cs t)" if "t < 3" "t \<noteq> e" for t
  proof -
    have "q \<notin> set (cs t)" using chains_disjoint [OF inv(2) that(1) assms(2) that(2)] assms(3) by auto
    then show ?thesis using chain_cong [of "cs t" "pcbs s'" "pcbs s"] ch(1) [OF that(1)] assms(5,7) by metis
  qed
  have "hd (ps @ [q]) = e" using ch(2) [OF assms(2)] assms(3) by (cases ps) auto
  then have "chain (pcbs s') ((cs(e := ps @ [q])) t) \<and> hd ((cs(e := ps @ [q])) t) = t \<and>
      parent_pcb (pcbs s' t) = None" if "t < 3" for t
    using that new old [OF that] ch [OF that] assms(7) by auto
  moreover have "c \<in> set (members cs)" using chain_in_members [OF assms(2), of cs] assms(3) by auto
  then have "processes s' ! p \<longleftrightarrow> p \<in> set (members cs) - {c}" if "3 \<le> p" "p < 7" for p
    using inv(5) [rule_format, OF that] inv(1) assms(4) that by (cases "p = c") simp_all
  ultimately show ?thesis
    unfolding proc_chains_def mem(1) using inv mem(2) assms(4,8,9) by auto
qed

subsection \<open>Properties\<close>

text \<open>
  C33: \<open>get_current_executing_pcb\<close> and \<open>get_current_displaying_pcb\<close> return: in a state with the
  process invariant the walk over the children ends at the last process of the terminal's chain, which
  is a process of the table, carries its own id and has no child.
\<close>

theorem current_pcb_found:
  assumes "proc_chains cs s" "tty_ids_ok s"
  shows "get_current_executing_pcb s = Some (last (cs (nat (exec_term_id s)))) \<and>
    get_current_displaying_pcb s = Some (last (cs (nat (curr_term_id s)))) \<and>
    (\<forall>t < NUM_TERMINALS. last (cs t) < MAX_NUM_PROCESSES \<and> process_id (pcbs s (last (cs t))) = last (cs t) \<and>
       child_pcb (pcbs s (last (cs t))) = None)"
proof -
  have t: "nat (curr_term_id s) < 3" using assms(2) by (auto simp: tty_ids_ok_def)
  with assms(1) have "chain (pcbs s) (cs (nat (curr_term_id s)))" "hd (cs (nat (curr_term_id s))) = nat (curr_term_id s)"
    by (simp_all add: proc_chains_def)
  then have "get_current_displaying_pcb s = Some (last (cs (nat (curr_term_id s))))"
    using leaf_pcb_chain [of "pcbs s" "cs (nat (curr_term_id s))"] by (simp add: get_current_displaying_pcb_def)
  moreover have "child_pcb (P (last ps)) = None" if "chain P ps" for P ps
    using that by (induction P ps rule: chain.induct) auto
  then have "child_pcb (pcbs s (last (cs t))) = None" if "t < 3" for t
    using assms(1) that by (simp add: proc_chains_def)
  ultimately show ?thesis using executing_pcb [OF assms] executing_member(2,3) [OF assms(1)] by blast
qed

text \<open>
  The kernel stacks of the seven processes do not meet: the stack of a process starts strictly
  between its own PCB and the next higher one, 1920 bytes above its PCB after \<open>execute\<close>,
  \<open>halt\<close> and \<open>boot\<close> (which subtract from a PCB pointer) and 4092 bytes after
  \<open>pit_handler\<close> (which subtracts from an integer), and all PCBs lie in the kernel's 4 MB.
\<close>

lemma kernel_stacks_apart:
  assumes "0 \<le> pid" "pid < 7"
  shows "uint (kernel_esp0 pid) = uint (get_pcb_by_PID pid) + 1920 \<and>
    uint (pit_esp0 pid) = uint (get_pcb_by_PID pid) + 4092 \<and>
    uint (pit_esp0 pid) < uint (get_pcb_by_PID (pid - 1)) \<and>
    0x400000 \<le> uint (get_pcb_by_PID pid) \<and> uint (get_pcb_by_PID (pid - 1)) \<le> 0x800000"
  using kernel_stack_above_pcb [OF assms] pcb_address [of pid] pcb_address [of "pid - 1"] assms
  by simp

end
