(* ===== verification/Keyboard.thy ===== *)
theory Keyboard
  imports Process
begin

text \<open>
  Keyboard input: \<open>src/student-distrib/keyboard.c\<close>, and of \<open>terminal.c\<close> the two
  functions that meet it, \<open>switch_displaying_term\<close> (called for Alt+F1 to Alt+F3) and
  \<open>terminal_read\<close>. The scan code read from the port is an argument of the handler.

  \<open>shift_buffer\<close> copies one byte from behind \<open>key_buff\<close>; it is the argument
  \<open>beyond\<close>. The main lemma is that typing a line and reading it gives back the line.
\<close>

subsection \<open>Scan code tables\<close>

definition no_modifier :: "u8 list" where
  "no_modifier = [0, 0] @ bytes ''1234567890-='' @ [0, 0] @ bytes ''qwertyuiop[]'' @ [0, 0]
     @ bytes ''asdfghjkl;'' @ [39, 96, 0, 92] @ bytes ''zxcvbnm,./'' @ [0, 42, 0, 32, 0, 0]"

definition shift_pressed :: "u8 list" where
  "shift_pressed = [0, 0] @ bytes ''!@#$%^&*()_+'' @ [8, 0] @ bytes ''QWERTYUIOP{}'' @ [0, 0]
     @ bytes ''ASDFGHJKL:'' @ [34, 126, 0, 124] @ bytes ''ZXCVBNM<>?'' @ [0, 42, 0, 32, 0, 0]"

definition caps_pressed :: "u8 list" where
  "caps_pressed = [0, 0] @ bytes ''1234567890-='' @ [0, 0] @ bytes ''QWERTYUIOP[]'' @ [0, 0]
     @ bytes ''ASDFGHJKL;'' @ [39, 96, 0, 92] @ bytes ''ZXCVBNM,./'' @ [0, 42, 0, 32, 0, 0]"

definition caps_shift_pressed :: "u8 list" where
  "caps_shift_pressed = [0, 0] @ bytes ''!@#$%^&*()_+'' @ [0, 0] @ bytes ''qwertyuiop{}'' @ [0, 0]
     @ bytes ''asdfghjkl:'' @ [34, 126, 0, 92] @ bytes ''zxcvbnm<>?'' @ [0, 42, 0, 32, 0, 0]"

lemma length_tables:
  "length no_modifier = 60" "length shift_pressed = 60" "length caps_pressed = 60"
  "length caps_shift_pressed = 60"
  by (simp_all add: no_modifier_def shift_pressed_def caps_pressed_def caps_shift_pressed_def)

subsection \<open>The handler\<close>

definition init_keyboard :: "'a tty_scheme \<Rightarrow> 'a tty_scheme" where
  "init_keyboard s = (enable_irq KEYBOARD_IRQ (s\<lparr>buff_index := 0, num_enters := 0\<rparr>))
     \<lparr>key_buff := replicate BUFF_SIZE 0\<rparr>"

text \<open>A handler returns to its wrapper or, when it starts a shell, leaves for user mode.\<close>

datatype 's kb_result = Kb_return 's | Kb_iret u32 's

text \<open>The second part of \<open>switch_displaying_term\<close>: the first switch to a terminal starts its shell.\<close>

definition start_shell :: "layout \<Rightarrow> int \<Rightarrow> 'a kstate_scheme \<Rightarrow> 'a kstate_scheme kb_result option" where
  "start_shell L term_id s = do {
     started \<leftarrow> rd (processes s) (curr_term_id s);
     if started then Some (Kb_return s)
     else do {
       ps \<leftarrow> wr (processes s) (curr_term_id s) True;
       (r, s) \<leftarrow> create_user_4mb_page (term_id + 2) 32 (s\<lparr>processes := ps\<rparr>);
       let s = reload_cr3 L s;
       let s = s\<lparr>tss_esp0 := kernel_esp0 term_id, tss_ss0 := KERNEL_DS, exec_term_id := term_id\<rparr>;
       Some (Kb_iret (pcb_entry (pcbs s (nat term_id))) (sti (cli s)))
     }
   }"

definition switch_displaying_term ::
  "layout \<Rightarrow> int \<Rightarrow> 'a kstate_scheme \<Rightarrow> 'a kstate_scheme kb_result option" where
  "switch_displaying_term L term_id s = do { s \<leftarrow> switch_swap term_id s; start_shell L term_id s }"

text \<open>The table lookup of \<open>set_buffer\<close> under the modifier flags.\<close>

definition key_table :: "'a tty_scheme \<Rightarrow> u8 list" where
  "key_table s =
     (if CAPS_LOCK_FLAG s \<and> (SHIFT_RIGHT_FLAG s \<or> SHIFT_LEFT_FLAG s) then caps_shift_pressed
      else if SHIFT_LEFT_FLAG s \<or> SHIFT_RIGHT_FLAG s then shift_pressed
      else if CAPS_LOCK_FLAG s then caps_pressed
      else no_modifier)"

text \<open>\<open>key_buff[buff_index] = c; printf("%c", key_buff[buff_index]); buff_index++\<close>\<close>

definition buffer_char :: "u8 \<Rightarrow> 'a tty_scheme \<Rightarrow> 'a tty_scheme option" where
  "buffer_char c s = do {
     kb \<leftarrow> wr (key_buff s) (buff_index s) c;
     (n, s) \<leftarrow> printf ''%c'' [VInt (scast c)] (s\<lparr>key_buff := kb\<rparr>);
     Some (s\<lparr>buff_index := buff_index s + 1\<rparr>)
   }"

definition set_buffer :: "layout \<Rightarrow> u8 \<Rightarrow> 'a kstate_scheme \<Rightarrow> 'a kstate_scheme kb_result option" where
  "set_buffer L key s =
     (if CTRL_FLAG s \<and> key = 0x26 then map_option Kb_return (clear s)
      else if 0x3B \<le> key \<and> key \<le> 0x3D
      then (if alt_flag s
            then do {
              r \<leftarrow> switch_displaying_term L (uint (key - 0x3B)) (cli s);
              case r of Kb_return s \<Rightarrow> Some (Kb_return (sti s)) | Kb_iret e s \<Rightarrow> Some (Kb_iret e s)
            }
            else Some (Kb_return s))
      else if key = 0x0F \<or> key = 0x01 \<or> key = 0x2A \<or> key = 0x37 then Some (Kb_return s)
      else if buff_index s < int BUFF_SIZE - 1 \<and> key < 0x3B
      then do {
        c \<leftarrow> rd (key_table s) (uint key);
        map_option Kb_return (buffer_char c s)
      }
      else Some (Kb_return s))"

definition backspace :: "'a tty_scheme \<Rightarrow> 'a tty_scheme option" where
  "backspace s =
     (let s = s\<lparr>buff_index := buff_index s - 1\<rparr>;
          s = (if buff_index s < 0 then s\<lparr>buff_index := 0\<rparr> else s)
      in do {
        c \<leftarrow> rd (key_buff s) (buff_index s);
        s \<leftarrow> (if c \<noteq> 0 then print_backspace s else Some s);
        kb \<leftarrow> wr (key_buff s) (buff_index s) 0;
        Some (s\<lparr>key_buff := kb\<rparr>)
      })"

definition enter :: "'a tty_scheme \<Rightarrow> 'a tty_scheme option" where
  "enter s =
     (if buff_index s < int BUFF_SIZE
      then do {
        kb \<leftarrow> wr (key_buff s) (buff_index s) NEWLINE;
        let s = s\<lparr>key_buff := kb, buff_index := buff_index s + 1\<rparr>;
        (n, s) \<leftarrow> printf ''%c'' [VInt 10] s;
        Some (s\<lparr>num_enters := num_enters s + 1\<rparr>)
      }
      else Some s)"

definition keyboard_handler :: "layout \<Rightarrow> u8 \<Rightarrow> 'a kstate_scheme \<Rightarrow> 'a kstate_scheme kb_result option" where
  "keyboard_handler L key s = do {
     r \<leftarrow> (if key = 0x2A then Some (Kb_return (s\<lparr>SHIFT_LEFT_FLAG := True\<rparr>))
           else if key = 0x36 then Some (Kb_return (s\<lparr>SHIFT_RIGHT_FLAG := True\<rparr>))
           else if key = 0xAA then Some (Kb_return (s\<lparr>SHIFT_LEFT_FLAG := False\<rparr>))
           else if key = 0xB6 then Some (Kb_return (s\<lparr>SHIFT_RIGHT_FLAG := False\<rparr>))
           else if key = 0x1C then map_option Kb_return (enter s)
           else if key = 0x1D then Some (Kb_return (s\<lparr>CTRL_FLAG := True\<rparr>))
           else if key = 0x9D then Some (Kb_return (s\<lparr>CTRL_FLAG := False\<rparr>))
           else if key = 0x0E then map_option Kb_return (backspace s)
           else if key = 0x3A then Some (Kb_return (s\<lparr>CAPS_LOCK_FLAG := \<not> CAPS_LOCK_FLAG s\<rparr>))
           else if key = 0x38 then Some (Kb_return (s\<lparr>alt_flag := True\<rparr>))
           else if key = 0xE0 then Some (Kb_return (s\<lparr>alt_flag := True\<rparr>))
           else if key = 0xB8 then Some (Kb_return (s\<lparr>alt_flag := False\<rparr>))
           else set_buffer L key s);
     Some (case r of Kb_return s \<Rightarrow> Kb_return (send_eoi KEYBOARD_IRQ s) | Kb_iret e s \<Rightarrow> Kb_iret e s)
   }"

subsection \<open>Reading a line\<close>

fun clear_upto :: "nat \<Rightarrow> u8 list \<Rightarrow> u8 list option" where
  "clear_upto 0 buf = Some buf"
| "clear_upto (Suc n) buf = (case clear_upto n buf of None \<Rightarrow> None | Some b \<Rightarrow> wr b (int n) 0)"

definition shift_buffer :: "u8 \<Rightarrow> nat \<Rightarrow> 'a tty_scheme \<Rightarrow> 'a tty_scheme option" where
  "shift_buffer beyond index s = do {
     b \<leftarrow> clear_upto (Suc index) (key_buff s);
     let n = BUFF_SIZE - index - 1;
     let s = s\<lparr>key_buff := take n (drop (index + 2) (b @ [beyond])) @ drop n b\<rparr>;
     if exec_term_id s = curr_term_id s
     then Some (s\<lparr>buff_index := buff_index s - (int index + 1)\<rparr>)
     else on_term (exec_term_id s)
            (\<lambda>t. Some (t\<lparr>buff_index_save := buff_index_save t - (int index + 1)\<rparr>)) s
   }"

text \<open>The copy loop of \<open>terminal_read\<close>: its result is the counter \<open>i\<close>, and \<open>temp\<close> then
  holds the first \<open>i\<close> bytes of \<open>key_buff\<close>.\<close>

function read_line_loop :: "u8 list \<Rightarrow> int \<Rightarrow> nat \<Rightarrow> nat option" where
  "read_line_loop kb nbytes i =
     (case rd kb (int i) of
        None \<Rightarrow> None
      | Some c \<Rightarrow> if c \<noteq> NEWLINE \<and> int i < nbytes then read_line_loop kb nbytes (Suc i) else Some i)"
  by pat_completeness auto
termination
  by (relation "measure (\<lambda>(kb, nbytes, i). length kb - i)") (auto simp: rd_Some_iff)

declare read_line_loop.simps [simp del]

datatype 's read_result = Read_waits 's | Read_returns int "u8 list" 's

definition terminal_read ::
  "u8 \<Rightarrow> ('a tty_scheme \<Rightarrow> 'a tty_scheme option) list \<Rightarrow> int \<Rightarrow> int \<Rightarrow> 'a tty_scheme \<Rightarrow>
     'a tty_scheme read_result option" where
  "terminal_read beyond irqs fd nbytes s = do {
     r \<leftarrow> spin (\<lambda>s. Some (exec_term_id s = curr_term_id s \<and> 0 < num_enters s)) irqs s;
     case r of
       Waiting s \<Rightarrow> Some (Read_waits (sti s))
     | Ready s _ \<Rightarrow>
         (let s = cli s; s = s\<lparr>num_enters := num_enters s - 1\<rparr>
          in do {
            i \<leftarrow> read_line_loop (key_buff s) nbytes 0;
            s' \<leftarrow> shift_buffer beyond i s;
            Some (Read_returns (int i) (take i (key_buff s)) s')
          })
   }"

subsection \<open>Typing\<close>

lemma printf_char: "printf ''%c'' [VInt (scast c)] st = map_option (Pair 2) (putc c st)"
proof -
  have "ucast (scast c :: u32) = c" by (rule bit_word_eqI) (auto simp: bit_simps)
  then show ?thesis by (simp add: printf_def bytes_def of_char_def split: option.splits)
qed

text \<open>The state after some characters went into the buffer and to the screen.\<close>

definition typed :: "'a tty_scheme \<Rightarrow> u8 list \<Rightarrow> int \<Rightarrow> int \<Rightarrow> 'a tty_scheme \<Rightarrow> bool" where
  "typed s kb bi ne s' \<longleftrightarrow> con_frame (s\<lparr>key_buff := kb, buff_index := bi, num_enters := ne\<rparr>) s'"

lemma typed_sel:
  assumes "typed s kb bi ne s'"
  shows "key_buff s' = kb" "buff_index s' = bi" "num_enters s' = ne" "exec_term_id s' = exec_term_id s"
    "curr_term_id s' = curr_term_id s" "CTRL_FLAG s' = CTRL_FLAG s" "key_table s' = key_table s"
    "terms s' = terms s"
  using assms unfolding typed_def by (auto elim!: con_frame_elim simp: key_table_def)

lemma typed_trans:
  assumes "typed s kb bi ne t" "typed t kb' bi' ne' u"
  shows "typed s kb' bi' ne' u"
proof -
  from assms(1) [unfolded typed_def] obtain l x y v where
    "t = s\<lparr>key_buff := kb, buff_index := bi, num_enters := ne,
           out_log := l, screen_x := x, screen_y := y, video_mem := v\<rparr>" by (rule con_frame_elim)
  with assms(2) show ?thesis by (simp add: typed_def con_frame_def con_erase_def)
qed

lemma typed_eoi: "typed s kb bi ne t \<Longrightarrow> typed s kb bi ne (send_eoi n t)"
  by (simp add: typed_def con_frame_def con_erase_def send_eoi_def outb_def)

lemma con_view_eoi: "con_view (send_eoi n t) = con_view t"
  by (simp add: send_eoi_def outb_def con_view_def)

lemma buffer_char_typed:
  assumes "con_ok s" "buff_index s = int n" "n < length (key_buff s)"
  shows "\<exists>s'. buffer_char c s = Some s' \<and> con_view s' = scr_putc c (con_view s) \<and>
    typed s ((key_buff s)[n := c]) (int n + 1) (num_enters s) s'"
proof -
  let ?s = "s\<lparr>key_buff := (key_buff s)[n := c]\<rparr>"
  have v: "con_view ?s = con_view s" by (simp add: con_view_def)
  obtain t where t: "putc c ?s = Some t" "con_view t = scr_putc c (con_view s)"
    using putc_view [of ?s c] assms(1) v by auto
  from putc_frame [OF t(1)] obtain l x y w where
    f: "t = ?s\<lparr>out_log := l, screen_x := x, screen_y := y, video_mem := w\<rparr>" by (rule con_frame_elim)
  have "typed s ((key_buff s)[n := c]) (int n + 1) (num_enters s) (t\<lparr>buff_index := int n + 1\<rparr>)"
    using f assms(2) by (simp add: typed_def con_frame_def con_erase_def)
  moreover have "buffer_char c s = Some (t\<lparr>buff_index := int n + 1\<rparr>)"
    using assms(2,3) t(1) f by (simp add: buffer_char_def wr_def printf_char)
  moreover have "con_view (t\<lparr>buff_index := int n + 1\<rparr>) = scr_putc c (con_view s)"
    using t(2) by (simp add: con_view_def)
  ultimately show ?thesis by blast
qed

lemma enter_typed:
  assumes "con_ok s" "buff_index s = int n" "n < length (key_buff s)" "n < BUFF_SIZE"
  shows "\<exists>s'. enter s = Some s' \<and> con_view s' = scr_putc NEWLINE (con_view s) \<and>
    typed s ((key_buff s)[n := NEWLINE]) (int n + 1) (num_enters s + 1) s'"
proof -
  let ?s = "s\<lparr>key_buff := (key_buff s)[n := NEWLINE], buff_index := int n + 1\<rparr>"
  have v: "con_view ?s = con_view s" by (simp add: con_view_def)
  obtain t where t: "putc NEWLINE ?s = Some t" "con_view t = scr_putc NEWLINE (con_view s)"
    using putc_view [of ?s NEWLINE] assms(1) v by auto
  from putc_frame [OF t(1)] obtain l x y w where
    f: "t = ?s\<lparr>out_log := l, screen_x := x, screen_y := y, video_mem := w\<rparr>" by (rule con_frame_elim)
  have "typed s ((key_buff s)[n := NEWLINE]) (int n + 1) (num_enters s + 1)
      (t\<lparr>num_enters := num_enters s + 1\<rparr>)"
    using f by (simp add: typed_def con_frame_def con_erase_def)
  moreover have "enter s = Some (t\<lparr>num_enters := num_enters s + 1\<rparr>)"
    using assms t(1) f by (simp add: enter_def wr_def printf_newline)
  moreover have "con_view (t\<lparr>num_enters := num_enters s + 1\<rparr>) = scr_putc NEWLINE (con_view s)"
    using t(2) by (simp add: con_view_def)
  ultimately show ?thesis by blast
qed

text \<open>Keys that stand for a character under every combination of modifiers.\<close>

definition plain_key :: "u8 \<Rightarrow> bool" where
  "plain_key k \<longleftrightarrow> k < 0x3B \<and> k \<notin> {0x01, 0x0E, 0x0F, 0x1C, 0x1D, 0x2A, 0x36, 0x37, 0x38, 0x3A}"

definition key_char :: "'a tty_scheme \<Rightarrow> u8 \<Rightarrow> u8" where
  "key_char s k = key_table s ! unat k"

lemma length_key_table: "length (key_table s) = 60"
  by (simp add: key_table_def length_tables)

lemma keyboard_handler_plain:
  assumes "con_ok s" "buff_index s = int n" "n < 127" "length (key_buff s) = BUFF_SIZE"
    and "plain_key k" "\<not> CTRL_FLAG s"
  shows "\<exists>s'. keyboard_handler L k s = Some (Kb_return s') \<and>
    con_view s' = scr_putc (key_char s k) (con_view s) \<and>
    typed s ((key_buff s)[n := key_char s k]) (int n + 1) (num_enters s) s'"
proof -
  have k: "k < 0x3B" "\<not> 0x3B \<le> k" using assms(5) by (auto simp: plain_key_def)
  have released: "k \<notin> {0xAA, 0xB6, 0x9D, 0xE0, 0xB8}" using k(1) by auto
  have rd: "rd (key_table s) (uint k) = Some (key_char s k)"
    using k(1) by (simp add: key_char_def rd_def length_key_table word_less_alt)
  obtain t where t: "buffer_char (key_char s k) s = Some t"
      "con_view t = scr_putc (key_char s k) (con_view s)"
      "typed s ((key_buff s)[n := key_char s k]) (int n + 1) (num_enters s) t"
    using buffer_char_typed [OF assms(1,2)] assms(3,4) by force
  have "set_buffer L k s = Some (Kb_return t)"
    using assms k rd t(1) by (simp add: set_buffer_def plain_key_def)
  moreover have "keyboard_handler L k s = map_option (case_kb_result (\<lambda>s. Kb_return (send_eoi KEYBOARD_IRQ s)) Kb_iret)
      (set_buffer L k s)"
    using assms(5) released unfolding keyboard_handler_def plain_key_def
    by (simp add: map_conv_bind_option comp_def)
  ultimately have "keyboard_handler L k s = Some (Kb_return (send_eoi KEYBOARD_IRQ t))" by simp
  with t(2) typed_eoi [OF t(3)] show ?thesis by (simp add: con_view_eoi)
qed

lemma keyboard_handler_enter:
  assumes "con_ok s" "buff_index s = int n" "n < BUFF_SIZE" "length (key_buff s) = BUFF_SIZE"
  shows "\<exists>s'. keyboard_handler L 0x1C s = Some (Kb_return s') \<and>
    con_view s' = scr_putc NEWLINE (con_view s) \<and>
    typed s ((key_buff s)[n := NEWLINE]) (int n + 1) (num_enters s + 1) s'"
proof -
  obtain t where t: "enter s = Some t" "con_view t = scr_putc NEWLINE (con_view s)"
      "typed s ((key_buff s)[n := NEWLINE]) (int n + 1) (num_enters s + 1) t"
    using enter_typed [OF assms(1,2)] assms(3,4) by auto
  then have "keyboard_handler L 0x1C s = Some (Kb_return (send_eoi KEYBOARD_IRQ t))"
    by (simp add: keyboard_handler_def)
  with t(2) typed_eoi [OF t(3)] show ?thesis by (simp add: con_view_eoi)
qed

text \<open>A sequence of key interrupts none of which starts a shell.\<close>

fun type_keys :: "layout \<Rightarrow> u8 list \<Rightarrow> 'a kstate_scheme \<Rightarrow> 'a kstate_scheme option" where
  "type_keys L [] s = Some s"
| "type_keys L (k # ks) s =
     (case keyboard_handler L k s of Some (Kb_return s') \<Rightarrow> type_keys L ks s' | _ \<Rightarrow> None)"

lemma type_keys_plain:
  assumes "con_ok s" "buff_index s = int n" "n + length ks \<le> 127" "length (key_buff s) = BUFF_SIZE"
    and "list_all plain_key ks" "\<not> CTRL_FLAG s"
  shows "\<exists>s'. type_keys L ks s = Some s' \<and> con_ok s' \<and>
    con_view s' = fold scr_putc (map (key_char s) ks) (con_view s) \<and>
    typed s (take n (key_buff s) @ map (key_char s) ks @ drop (n + length ks) (key_buff s))
      (int (n + length ks)) (num_enters s) s'"
  using assms
proof (induction ks arbitrary: s n)
  case Nil
  then show ?case by (simp add: typed_def con_frame_def con_erase_def)
next
  case (Cons k ks)
  let ?kb = "(key_buff s)[n := key_char s k]"
  obtain t where t: "keyboard_handler L k s = Some (Kb_return t)"
      "con_view t = scr_putc (key_char s k) (con_view s)" "typed s ?kb (int n + 1) (num_enters s) t"
    using keyboard_handler_plain [of s n k L] Cons.prems by auto
  note sel = typed_sel [OF t(3)]
  have kc: "key_char t = key_char s" by (simp add: fun_eq_iff key_char_def sel)
  have "con_ok t" using t(2) scr_ok_putc [OF Cons.prems(1)] by simp
  from Cons.IH [OF this, of "Suc n"] obtain u where u: "type_keys L ks t = Some u" "con_ok u"
      "con_view u = fold scr_putc (map (key_char s) ks) (con_view t)"
      "typed t (take (Suc n) ?kb @ map (key_char s) ks @ drop (Suc n + length ks) ?kb)
        (int (Suc n + length ks)) (num_enters s) u"
    using Cons.prems unfolding sel kc by auto
  have "take (Suc n) ?kb = take n (key_buff s) @ [key_char s k]"
    using Cons.prems(3,4) by (simp add: take_Suc_update)
  with u t(1,2) typed_trans [OF t(3) u(4)] show ?case by auto
qed

subsection \<open>Reading back what was typed\<close>

lemma clear_upto_eq: "n \<le> length b \<Longrightarrow> clear_upto n b = Some (replicate n 0 @ drop n b)"
proof (induction n)
  case (Suc n)
  then have "(replicate n 0 @ drop n b)[n := 0] = replicate n 0 @ 0 # drop (Suc n) b"
    using append_drop_update [of "replicate n 0" b 0] by simp
  with Suc show ?case by (simp add: wr_nat replicate_append_same [symmetric])
qed simp

lemma read_line_loop_line:
  assumes "kb = w @ line @ NEWLINE # r" "NEWLINE \<notin> set line" "int (length w + length line) \<le> nbytes"
  shows "read_line_loop kb nbytes (length w) = Some (length w + length line)"
  using assms
proof (induction line arbitrary: w)
  case (Cons c line)
  from Cons.IH [of "w @ [c]"] Cons.prems show ?case
    by (subst read_line_loop.simps) (auto simp: rd_nat nth_append)
qed (subst read_line_loop.simps, simp add: rd_nat nth_append)

lemma terminal_read_line:
  assumes "key_buff s = line @ NEWLINE # r" "NEWLINE \<notin> set line" "length (key_buff s) = BUFF_SIZE"
    and "int (length line) \<le> nbytes" "exec_term_id s = curr_term_id s" "0 < num_enters s"
  shows "terminal_read beyond irqs fd nbytes s =
    Some (Read_returns (int (length line)) line
      (s\<lparr>iflag := False, num_enters := num_enters s - 1,
         key_buff := tl (r @ [beyond]) @ drop (length r) (replicate (Suc (length line)) 0 @ r),
         buff_index := buff_index s - (int (length line) + 1)\<rparr>))"
proof -
  let ?n = "length line" and ?s = "cli s\<lparr>num_enters := num_enters (cli s) - 1\<rparr>"
  have len: "length r = 127 - ?n" "?n \<le> 127" using assms(1,3) by auto
  have loop: "read_line_loop (key_buff s) nbytes 0 = Some ?n"
    using read_line_loop_line [of "key_buff s" "[]" line r nbytes] assms(1,2,4) by simp
  have clr: "clear_upto (Suc ?n) (key_buff s) = Some (replicate (Suc ?n) 0 @ r)"
    using assms(1,3) by (subst clear_upto_eq) auto
  have cp: "take (length r) (drop (?n + 2) ((replicate (Suc ?n) 0 @ r) @ [beyond])) = tl (r @ [beyond])"
    using len by (cases r) (auto simp: drop_Suc)
  have "shift_buffer beyond ?n ?s = Some (?s\<lparr>key_buff := tl (r @ [beyond]) @
      drop (length r) (replicate (Suc ?n) 0 @ r), buff_index := buff_index s - (int ?n + 1)\<rparr>)"
    using clr cp len assms(5) by (simp add: shift_buffer_def cli_def)
  then show ?thesis
    using loop assms(1,5,6)
    by (simp add: terminal_read_def spin.simps cli_def Let_def)
qed

lemma table_no_newline: "c \<in> set (key_table s) \<Longrightarrow> c \<noteq> NEWLINE"
  by (auto simp: key_table_def no_modifier_def shift_pressed_def caps_pressed_def caps_shift_pressed_def
      bytes_def of_char_def split: if_splits)

lemma key_char_no_newline: "plain_key k \<Longrightarrow> key_char s k \<noteq> NEWLINE"
proof -
  assume "plain_key k"
  then have "unat k < length (key_table s)"
    by (simp add: plain_key_def length_key_table word_less_nat_alt)
  then show ?thesis unfolding key_char_def by (intro table_no_newline [of _ s] nth_mem)
qed

lemma shifted_zeros:
  "tl (replicate (Suc m) z @ [b]) @ drop (Suc m) (replicate (Suc n) z @ replicate (Suc m) z) =
     (replicate (Suc (Suc (m + n))) z)[m := b]"
proof -
  have "replicate (Suc n) z @ replicate (Suc m) z = replicate (Suc m + Suc n) z"
    by (simp only: replicate_add [symmetric] add.commute)
  moreover have "replicate (Suc (Suc (m + n))) z = replicate m z @ z # replicate (Suc n) z"
    by (simp add: replicate_add [symmetric] replicate_app_Cons_same)
  ultimately show ?thesis by (simp add: append_update_here')
qed

lemma type_keys_append:
  "type_keys L ks s = Some t \<Longrightarrow> type_keys L (ks @ ks') s = type_keys L ks' t"
  by (induction ks arbitrary: s) (auto split: option.splits kb_result.splits)

text \<open>
  C23: From the keys to the program: typing up to 126 printing keys and Enter echoes the line on the
  screen, and \<open>terminal_read\<close> of the program on that terminal returns exactly the typed characters
  and leaves the keyboard state empty (but for the byte behind the buffer that \<open>shift_buffer\<close> copies
  into it).
\<close>

theorem type_and_read:
  assumes "con_ok s" "buff_index s = 0" "num_enters s = 0" "key_buff s = replicate BUFF_SIZE 0"
    and "exec_term_id s = curr_term_id s" "\<not> CTRL_FLAG s"
    and "list_all plain_key ks" "length ks < 127"
    and "int (length ks) \<le> nbytes"
  shows "\<exists>s1 s2. type_keys L (ks @ [0x1C]) s = Some s1 \<and>
    con_view s1 = fold scr_putc (map (key_char s) ks @ [NEWLINE]) (con_view s) \<and>
    terminal_read beyond irqs fd nbytes s1 =
      Some (Read_returns (int (length ks)) (map (key_char s) ks) s2) \<and>
    buff_index s2 = 0 \<and> num_enters s2 = 0 \<and>
    key_buff s2 = (replicate BUFF_SIZE 0)[126 - length ks := beyond]"
proof -
  let ?cs = "map (key_char s) ks" and ?n = "length ks"
  obtain t where t: "type_keys L ks s = Some t" "con_ok t" "con_view t = fold scr_putc ?cs (con_view s)"
      "typed s (?cs @ replicate (128 - ?n) 0) (int ?n) 0 t"
    using type_keys_plain [of s 0 ks L] assms by auto
  note sel = typed_sel [OF t(4)]
  have z: "replicate (128 - ?n) (0 :: u8) = 0 # replicate (127 - ?n) 0"
    using assms(8) by (simp flip: replicate_Suc add: Suc_diff_le)
  have kb: "(key_buff t)[?n := NEWLINE] = ?cs @ NEWLINE # replicate (127 - ?n) 0"
    unfolding sel z using append_update_here' [of ?n ?cs] by simp
  obtain u where u: "keyboard_handler L 0x1C t = Some (Kb_return u)"
      "con_view u = scr_putc NEWLINE (con_view t)" "typed t ((key_buff t)[?n := NEWLINE]) (int ?n + 1) 1 u"
    using keyboard_handler_enter [of t ?n L] t(2) assms(8) sel by auto
  note sel' = typed_sel [OF u(3)]
  have nl: "NEWLINE \<notin> set ?cs"
    using assms(7) key_char_no_newline [of _ s] by (auto simp: list_all_iff)
  have r: "tl (replicate (127 - ?n) 0 @ [beyond]) @
      drop (length (replicate (127 - ?n) (0 :: u8))) (replicate (Suc (length ?cs)) 0 @ replicate (127 - ?n) 0) =
      (replicate BUFF_SIZE 0)[126 - ?n := beyond]"
  proof -
    have "127 - ?n = Suc (126 - ?n)" "BUFF_SIZE = Suc (Suc (126 - ?n + ?n))" using assms(8) by simp_all
    then show ?thesis
      by (simp only: length_replicate length_map shifted_zeros)
  qed
  have "type_keys L (ks @ [0x1C]) s = Some u" using type_keys_append [OF t(1), of "[0x1C]"] u(1) by simp
  moreover have "con_view u = fold scr_putc (?cs @ [NEWLINE]) (con_view s)" using u(2) t(3) by simp
  moreover have "terminal_read beyond irqs fd nbytes u = Some (Read_returns (int (length ?cs)) ?cs
      (u\<lparr>iflag := False, num_enters := num_enters u - 1,
         key_buff := (replicate BUFF_SIZE 0)[126 - ?n := beyond],
         buff_index := buff_index u - (int (length ?cs) + 1)\<rparr>))"
    using assms nl sel sel' kb unfolding r [symmetric] by (intro terminal_read_line) auto
  ultimately show ?thesis using sel' by (intro exI conjI) auto
qed

text \<open>
  C40: When two lines are in the buffer, the first \<open>terminal_read\<close> returns the first line, and the
  second one returns the second line without its first character: \<open>shift_buffer\<close> moves the buffer
  by one byte more than the line and its newline.
\<close>

theorem read_two_lines:
  assumes "key_buff s = l1 @ NEWLINE # c # l2 @ NEWLINE # r" "NEWLINE \<notin> set l1" "NEWLINE \<notin> set (c # l2)"
    and "length (key_buff s) = BUFF_SIZE" "exec_term_id s = curr_term_id s" "num_enters s = 2"
    and "int (length l1) \<le> nbytes" "int (length l2) \<le> nbytes"
  shows "\<exists>s1 s2. terminal_read b1 [] fd nbytes s = Some (Read_returns (int (length l1)) l1 s1) \<and>
    terminal_read b2 [] fd nbytes s1 = Some (Read_returns (int (length l2)) l2 s2)"
proof -
  let ?r = "c # l2 @ NEWLINE # r"
  let ?kb = "tl (?r @ [b1]) @ drop (length ?r) (replicate (Suc (length l1)) 0 @ ?r)"
  let ?s = "s\<lparr>iflag := False, num_enters := num_enters s - 1, key_buff := ?kb,
      buff_index := buff_index s - (int (length l1) + 1)\<rparr>"
  have 1: "terminal_read b1 [] fd nbytes s = Some (Read_returns (int (length l1)) l1 ?s)"
    using assms by (intro terminal_read_line) auto
  have "key_buff ?s = l2 @ NEWLINE # (r @ [b1] @ drop (length ?r) (replicate (Suc (length l1)) 0 @ ?r))"
    by simp
  moreover have "length (key_buff ?s) = BUFF_SIZE" using assms(1,4) by auto
  ultimately have "\<exists>s2. terminal_read b2 [] fd nbytes ?s = Some (Read_returns (int (length l2)) l2 s2)"
    using assms(3,5,6,8) terminal_read_line [of ?s l2] by auto
  with 1 show ?thesis by blast
qed

subsection \<open>Switching terminals\<close>

text \<open>
  C29: Switching the display to a terminal whose shell runs changes no terminal: the screen and the
  pending input of each of the three are the same before and after, though one of them moves from its
  save area to the display and another back.
\<close>

theorem switch_started:
  assumes "tty_ids_ok s" "0 \<le> k" "k < int NUM_TERMINALS" "length (processes s) = 7" "processes s ! nat k"
  shows "\<exists>s'. switch_displaying_term L k s = Some (Kb_return s') \<and> curr_term_id s' = k \<and>
    exec_term_id s' = exec_term_id s \<and> tty_ids_ok s' \<and>
    (\<forall>i < NUM_TERMINALS. tty_screen s' i = tty_screen s i \<and> tty_input s' i = tty_input s i)"
proof -
  obtain s' where s': "switch_swap k s = Some s'" "curr_term_id s' = k" "exec_term_id s' = exec_term_id s"
      "tty_ids_ok s'" "\<forall>i < NUM_TERMINALS. tty_screen s' i = tty_screen s i \<and> tty_input s' i = tty_input s i"
    using switch_swap_virtual [OF assms(1-3)] by blast
  have "processes s' = processes s"
    using s'(1) by (auto simp: switch_swap_def on_term_def set_x_def set_y_def move_cursor_def send_eoi_def
        outb_def Let_def bind_eq_Some_conv)
  then have "start_shell L k s' = Some (Kb_return s')"
    using s'(2) assms by (simp add: start_shell_def rd_in)
  with s' show ?thesis by (auto simp: switch_displaying_term_def)
qed

end
