(* ===== verification/Syscall.thy ===== *)
theory Syscall
  imports Keyboard
begin

text \<open>
  The system calls on descriptors and arguments, \<open>src/student-distrib/syscall.c\<close>: \<open>open\<close>,
  \<open>close\<close>, \<open>read\<close>, \<open>write\<close>, \<open>getargs\<close>, \<open>vidmap\<close> and the two stubs,
  with the jump tables. A call through a jump table is a case distinction on the table; calling
  through a null table is \<open>None\<close>.

  Values the C code reads that no store of the kernel determines (uninitialised locals, device
  registers, the byte behind \<open>key_buff\<close>, the stack and base pointer) are the record \<open>env\<close>.
\<close>

record env =
  beyond_key_buff :: u8
  uninit_rate :: u8
  rtc_reg_a :: u8
  uninit_dentry :: dentry_t
  uninit_cmd :: "u8 list"
  uninit_args :: "u8 list"
  before_args :: u8
  uninit_entry :: u32
  reg_esp :: u32
  reg_ebp :: u32

subsection \<open>No-operations\<close>

definition read_no_op :: "int \<Rightarrow> int \<Rightarrow> int" where "read_no_op fd nbytes = - 1"
definition write_no_op :: "int \<Rightarrow> int \<Rightarrow> int" where "write_no_op fd nbytes = - 1"
definition open_no_op :: "u8 list \<Rightarrow> int" where "open_no_op filename = - 1"
definition close_no_op :: "int \<Rightarrow> int" where "close_no_op fd = - 1"

subsection \<open>Opening and closing\<close>

text \<open>The search loop of \<open>open\<close>; \<open>Some None\<close> is the return when all entries are taken.\<close>

function find_fd :: "fd_entry_t list \<Rightarrow> nat \<Rightarrow> nat option option" where
  "find_fd fds i =
     (case rd fds (int i) of
        None \<Rightarrow> None
      | Some e \<Rightarrow>
          if fd_active e then (if FD_ARRAY_LEN \<le> Suc i then Some None else find_fd fds (Suc i))
          else Some (Some i))"
  by pat_completeness auto
termination
  by (relation "measure (\<lambda>(fds, i). FD_ARRAY_LEN - i)") auto

declare find_fd.simps [simp del]

text \<open>The \<open>switch\<close> on the file type: the jump table and the inode, \<open>None\<close> the default case.\<close>

definition type_entry :: "dentry_t \<Rightarrow> (fo_jump_table_t \<times> u32) option" where
  "type_entry d =
     (if file_type d = 0 then Some (rtc_jump_table, 0)
      else if file_type d = 1 then Some (dir_fo_jump_table, 0)
      else if file_type d = 2 then Some (file_fo_jump_table, inode_index d)
      else None)"

definition upd_fd :: "nat \<Rightarrow> (fd_entry_t \<Rightarrow> fd_entry_t) \<Rightarrow> pcb_t \<Rightarrow> pcb_t" where
  "upd_fd i f b = b\<lparr>fd_array := (fd_array b)[i := f (fd_array b ! i)]\<rparr>"

definition sys_open :: "env \<Rightarrow> u8 list option \<Rightarrow> 'a kstate_scheme \<Rightarrow> (int \<times> 'a kstate_scheme) option" where
  "sys_open E filename s =
     (case filename of
        None \<Rightarrow> Some (- 1, s)
      | Some fname \<Rightarrow> do {
          (r, d) \<leftarrow> read_dentry_by_name (fs_mem s) (fs_sections s) fname (uninit_dentry E);
          if r \<noteq> 0 then Some (- 1, s)
          else do {
            p \<leftarrow> get_current_executing_pcb s;
            slot \<leftarrow> find_fd (fd_array (pcbs s p)) 2;
            case slot of
              None \<Rightarrow> Some (- 1, s)
            | Some i \<Rightarrow> do {
                let s = upd_pcb p (upd_fd i (\<lambda>e. e\<lparr>file_position := 0\<rparr>)) s;
                old \<leftarrow> rd (filenames (pcbs s p)) (int i);
                nm \<leftarrow> strncpy old (dentry_bytes d) 32;
                let s = upd_pcb p (\<lambda>b. b\<lparr>filenames := (filenames b)[i := nm]\<rparr>) s;
                case type_entry d of
                  None \<Rightarrow> Some (- 1, s)
                | Some (jt, ino) \<Rightarrow>
                    Some (int i, upd_pcb p (upd_fd i (\<lambda>e. set_active 1
                      (e\<lparr>fo_jump_table_ptr := Some jt, fd_inode_index := ino\<rparr>))) s)
              }
          }
        })"

definition sys_close :: "int \<Rightarrow> 'a kstate_scheme \<Rightarrow> (int \<times> 'a kstate_scheme) option" where
  "sys_close fd s =
     (if fd < 2 \<or> int FD_ARRAY_LEN \<le> fd then Some (- 1, s)
      else do {
        p \<leftarrow> get_current_executing_pcb s;
        e \<leftarrow> rd (fd_array (pcbs s p)) fd;
        if \<not> fd_active e then Some (- 1, s)
        else Some (0, upd_pcb p (upd_fd (nat fd) (set_active 0)) s)
      })"

subsection \<open>Reading and writing\<close>

definition file_read ::
  "int \<Rightarrow> int \<Rightarrow> 'a kstate_scheme \<Rightarrow> (int \<times> u8 list \<times> 'a kstate_scheme) option" where
  "file_read fd nbytes s = do {
     p \<leftarrow> get_current_executing_pcb s;
     e \<leftarrow> rd (fd_array (pcbs s p)) fd;
     let (r, bs, pos) = file_read_at (fs_mem s) (fs_sections s) (fd_inode_index e) (file_position e)
                          (word_of_int nbytes);
     Some (r, bs, upd_pcb p (upd_fd (nat fd) (\<lambda>e. e\<lparr>file_position := pos\<rparr>)) s)
   }"

definition dir_read ::
  "env \<Rightarrow> int \<Rightarrow> int \<Rightarrow> 'a kstate_scheme \<Rightarrow> (int \<times> u8 list \<times> 'a kstate_scheme) option" where
  "dir_read E fd nbytes s = do {
     p \<leftarrow> get_current_executing_pcb s;
     e \<leftarrow> rd (fd_array (pcbs s p)) fd;
     (r, bs, pos) \<leftarrow> dir_read_at (fs_mem s) (fs_sections s) (uninit_dentry E) (file_position e)
                        (word_of_int nbytes);
     Some (r, bs, upd_pcb p (upd_fd (nat fd) (\<lambda>e. e\<lparr>file_position := pos\<rparr>)) s)
   }"

text \<open>
  \<open>read\<close>: the return value, the bytes stored from \<open>buf[0]\<close> on, and the state; \<open>null\<close>
  says whether \<open>buf\<close> is the null pointer.
\<close>

definition sys_read ::
  "env \<Rightarrow> ('a kstate_scheme \<Rightarrow> 'a kstate_scheme option) list \<Rightarrow> int \<Rightarrow> bool \<Rightarrow> int \<Rightarrow>
     'a kstate_scheme \<Rightarrow> 'a kstate_scheme read_result option" where
  "sys_read E irqs fd null nbytes s =
     (if fd < 0 \<or> int FD_ARRAY_LEN \<le> fd \<or> null \<or> nbytes < 0 then Some (Read_returns (- 1) [] s)
      else do {
        p \<leftarrow> get_current_executing_pcb s;
        e \<leftarrow> rd (fd_array (pcbs s p)) fd;
        if \<not> fd_active e then Some (Read_returns (- 1) [] s)
        else case fo_jump_table_ptr e of
          None \<Rightarrow> None
        | Some file_fo_jump_table \<Rightarrow> map_option (\<lambda>(r, bs, s). Read_returns r bs s) (file_read fd nbytes s)
        | Some dir_fo_jump_table \<Rightarrow> map_option (\<lambda>(r, bs, s). Read_returns r bs s) (dir_read E fd nbytes s)
        | Some stdin_jump_table \<Rightarrow> terminal_read (beyond_key_buff E) irqs fd nbytes s
        | Some stdout_jump_table \<Rightarrow> Some (Read_returns (read_no_op fd nbytes) [] s)
        | Some rtc_jump_table \<Rightarrow>
            map_option (\<lambda>r. case r of Rtc_waits s \<Rightarrow> Read_waits s | Rtc_returns v s \<Rightarrow> Read_returns v [] s)
              (rtc_read irqs fd (Some []) nbytes s)
      })"

definition buf_int32 :: "u8 list \<Rightarrow> u32 option" where
  "buf_int32 b = do {
     b0 \<leftarrow> rd b 0; b1 \<leftarrow> rd b 1; b2 \<leftarrow> rd b 2; b3 \<leftarrow> rd b 3;
     Some (ucast b0 + 2 ^ 8 * ucast b1 + 2 ^ 16 * ucast b2 + 2 ^ 24 * ucast b3)
   }"

definition sys_write ::
  "env \<Rightarrow> int \<Rightarrow> u8 list option \<Rightarrow> int \<Rightarrow> 'a kstate_scheme \<Rightarrow> (int \<times> 'a kstate_scheme) option" where
  "sys_write E fd buf nbytes s =
     (if fd < 0 \<or> int FD_ARRAY_LEN \<le> fd \<or> buf = None \<or> nbytes < 0 then Some (- 1, s)
      else do {
        p \<leftarrow> get_current_executing_pcb s;
        e \<leftarrow> rd (fd_array (pcbs s p)) fd;
        if \<not> fd_active e then Some (- 1, s)
        else case fo_jump_table_ptr e of
          None \<Rightarrow> None
        | Some file_fo_jump_table \<Rightarrow> Some (file_write fd (the buf) nbytes, s)
        | Some dir_fo_jump_table \<Rightarrow> Some (file_write fd (the buf) nbytes, s)
        | Some stdin_jump_table \<Rightarrow> Some (write_no_op fd nbytes, s)
        | Some stdout_jump_table \<Rightarrow> terminal_write fd buf nbytes s
        | Some rtc_jump_table \<Rightarrow>
            (if nbytes \<noteq> 4 then Some (rtc_write (uninit_rate E) (rtc_reg_a E) fd None nbytes s)
             else do {
               f \<leftarrow> buf_int32 (the buf);
               Some (rtc_write (uninit_rate E) (rtc_reg_a E) fd (Some f) nbytes s)
             })
      })"

subsection \<open>Arguments, video memory and signals\<close>

abbreviation USER_START :: u32 where "USER_START \<equiv> 0x08000000"
abbreviation USER_END :: u32 where "USER_END \<equiv> 0x08400000"

definition getargs :: "layout \<Rightarrow> u32 \<Rightarrow> int \<Rightarrow> 'a kstate_scheme \<Rightarrow> (int \<times> 'a kstate_scheme) option" where
  "getargs L buf nbytes s = do {
     p \<leftarrow> get_current_executing_pcb s;
     n \<leftarrow> strlen (pcb_args (pcbs s p));
     if n = 0 then Some (- 1, s)
     else if buf = 0 \<or> nbytes < int n \<or> buf < USER_START \<or> USER_END - 4 \<le> buf then Some (- 1, s)
     else do {
       let i = min n (nat nbytes);
       s \<leftarrow> store_bytes L buf (take i (pcb_args (pcbs s p))) s;
       s \<leftarrow> store_byte L (buf + of_nat i) 0 s;
       Some (0, s)
     }
   }"

definition vidmap :: "layout \<Rightarrow> u32 \<Rightarrow> 'a kstate_scheme \<Rightarrow> (int \<times> 'a kstate_scheme) option" where
  "vidmap L screen_start s =
     (if screen_start \<noteq> 0 \<and> USER_START \<le> screen_start \<and> screen_start < USER_END - 4
      then do {
        (a, s) \<leftarrow> create_vid_4kb_page L s;
        s \<leftarrow> store_bytes L screen_start (le32 a) s;
        Some (0, reload_cr3 L s)
      }
      else Some (- 1, s))"

definition set_handler :: "int \<Rightarrow> u32 \<Rightarrow> int" where "set_handler signum handler_address = - 1"

definition sigreturn :: int where "sigreturn = - 1"

subsection \<open>The descriptor table of the running program\<close>

definition running :: "'a kstate_scheme \<Rightarrow> nat" where
  "running s = the (get_current_executing_pcb s)"

text \<open>The open descriptors: jump table, inode and position of each active entry.\<close>

definition fd_view :: "'a kstate_scheme \<Rightarrow> nat \<Rightarrow> (fo_jump_table_t option \<times> u32 \<times> u32) option" where
  "fd_view s i =
     (let fds = fd_array (pcbs s (running s))
      in if i < length fds \<and> fd_active (fds ! i)
         then Some (fo_jump_table_ptr (fds ! i), fd_inode_index (fds ! i), file_position (fds ! i))
         else None)"

definition fd_ok :: "'a kstate_scheme \<Rightarrow> bool" where
  "fd_ok s \<longleftrightarrow> proc_inv s \<and> tty_ids_ok s"

lemma running_pcb: "fd_ok s \<Longrightarrow> get_current_executing_pcb s = Some (running s)"
  by (auto simp: fd_ok_def proc_inv_def running_def executing_pcb)

lemma running_shape: "fd_ok s \<Longrightarrow> pcb_shape (pcbs s p)"
  by (auto simp: fd_ok_def proc_inv_def proc_chains_def)

lemma pcb_shape_upd_fd: "pcb_shape b \<Longrightarrow> pcb_shape (upd_fd i f b)"
  by (simp add: pcb_shape_def upd_fd_def)

lemma fd_ok_upd:
  assumes "fd_ok s"
    and "\<And>b. child_pcb (f b) = child_pcb b" "\<And>b. parent_pcb (f b) = parent_pcb b"
      "\<And>b. process_id (f b) = process_id b" "\<And>b. pcb_shape b \<Longrightarrow> pcb_shape (f b)"
  shows "fd_ok (upd_pcb p f s)" "running (upd_pcb p f s) = running s"
proof -
  from assms(1) obtain cs where cs: "proc_chains cs s" "tty_ids_ok s" by (auto simp: fd_ok_def proc_inv_def)
  have cs': "proc_chains cs (upd_pcb p f s)" "tty_ids_ok (upd_pcb p f s)"
    using proc_chains_upd_pcb [OF cs(1) assms(2-5)] cs(2) by (auto simp: tty_ids_ok_def upd_pcb_def)
  then show "fd_ok (upd_pcb p f s)" by (auto simp: fd_ok_def proc_inv_def)
  show "running (upd_pcb p f s) = running s"
    using executing_pcb [OF cs] executing_pcb [OF cs'] by (simp add: running_def upd_pcb_def)
qed

lemma upd_fd_links [simp]:
  "child_pcb (upd_fd i f b) = child_pcb b" "parent_pcb (upd_fd i f b) = parent_pcb b"
  "process_id (upd_fd i f b) = process_id b" "filenames (upd_fd i f b) = filenames b"
  "pcb_args (upd_fd i f b) = pcb_args b"
  "fd_array (upd_fd i f b) = (fd_array b)[i := f (fd_array b ! i)]"
  by (simp_all add: upd_fd_def)

lemma fd_view_upd:
  assumes "fd_ok s" "i < FD_ARRAY_LEN"
  shows "fd_view (upd_pcb (running s) (upd_fd i f) s) = (fd_view s)(i :=
    (let e = f (fd_array (pcbs s (running s)) ! i)
     in if fd_active e then Some (fo_jump_table_ptr e, fd_inode_index e, file_position e) else None))"
proof -
  have "length (fd_array (pcbs s (running s))) = FD_ARRAY_LEN"
    using running_shape [OF assms(1)] by (simp add: pcb_shape_def)
  moreover have "running (upd_pcb (running s) (upd_fd i f) s) = running s"
    using assms(1) by (rule fd_ok_upd) (simp_all add: pcb_shape_upd_fd)
  ultimately show ?thesis
    using assms(2) by (auto simp: fd_view_def fun_eq_iff Let_def upd_pcb_def)
qed

lemma find_fd_find:
  "length fds = FD_ARRAY_LEN \<Longrightarrow> i < FD_ARRAY_LEN \<Longrightarrow>
     find_fd fds i = Some (find (\<lambda>j. \<not> fd_active (fds ! j)) [i..<FD_ARRAY_LEN])"
proof (induction fds i rule: find_fd.induct)
  case (1 fds i)
  then have rd: "rd fds (int i) = Some (fds ! i)" and up: "[i..<FD_ARRAY_LEN] = i # [Suc i..<FD_ARRAY_LEN]"
    by (simp_all add: rd_nat upt_conv_Cons)
  show ?case
  proof (cases "fd_active (fds ! i) \<and> Suc i < FD_ARRAY_LEN")
    case True
    with 1 rd show ?thesis unfolding up by (subst find_fd.simps) simp
  next
    case False
    with 1 rd show ?thesis unfolding up by (subst find_fd.simps) auto
  qed
qed

text \<open>\<open>close\<close> on a descriptor of the table, and everywhere else.\<close>

lemma sys_close_eq:
  assumes "fd_ok s" "2 \<le> i" "fd_view s i \<noteq> None"
  shows "sys_close (int i) s = Some (0, upd_pcb (running s) (upd_fd i (set_active 0)) s)"
proof -
  let ?fds = "fd_array (pcbs s (running s))"
  have a: "i < length ?fds" "fd_active (?fds ! i)" "length ?fds = FD_ARRAY_LEN"
    using assms(3) running_shape [OF assms(1)] by (auto simp: fd_view_def Let_def pcb_shape_def split: if_splits)
  then show ?thesis
    using assms(2) running_pcb [OF assms(1)] by (simp add: sys_close_def rd_nat)
qed

lemma sys_close_error:
  assumes "fd_ok s" "fd < 2 \<or> fd_view s (nat fd) = None"
  shows "sys_close fd s = Some (- 1, s)"
proof (cases "fd < 2 \<or> int FD_ARRAY_LEN \<le> fd")
  case False
  then have r: "rd (fd_array (pcbs s (running s))) fd = Some (fd_array (pcbs s (running s)) ! nat fd)"
    using running_shape [OF assms(1)] by (simp add: pcb_shape_def rd_in)
  with False assms(2) running_shape [OF assms(1), of "running s"]
  have "\<not> fd_active (fd_array (pcbs s (running s)) ! nat fd)"
    by (auto simp: fd_view_def Let_def pcb_shape_def split: if_splits)
  with False r running_pcb [OF assms(1)] show ?thesis by (simp add: sys_close_def)
qed (simp add: sys_close_def)

text \<open>The directory entry a name denotes for \<open>open\<close>.\<close>

definition lookup_name :: "'a kstate_scheme \<Rightarrow> u8 list \<Rightarrow> nat option" where
  "lookup_name s fname =
     (if cstr fname = [] then None
      else find (\<lambda>j. entry_name (fs_mem s) (fs_sections s) j = take 32 (cstr fname)) [0..<63])"

definition env_ok :: "env \<Rightarrow> bool" where
  "env_ok E \<longleftrightarrow> length (file_name (uninit_dentry E)) = 32 \<and>
     length (uninit_cmd E) = 128 \<and> length (uninit_args E) = 128"

lemma lookup_dentry:
  assumes "env_ok E" "0 \<in> set fname"
  shows "read_dentry_by_name (fs_mem s) (fs_sections s) fname (uninit_dentry E) =
    Some (case lookup_name s fname of
            None \<Rightarrow> (- 1, uninit_dentry E)
          | Some j \<Rightarrow> (0, dentry_at (fs_mem s) (fs_sections s) j (uninit_dentry E)))"
  using read_dentry_by_name_find [of "uninit_dentry E" fname] assms
  by (auto simp: lookup_name_def env_ok_def split: option.split)

text \<open>The lowest free descriptor from 2 on.\<close>

definition free_fd :: "'a kstate_scheme \<Rightarrow> nat option" where
  "free_fd s = find (\<lambda>i. fd_view s i = None) [2..<FD_ARRAY_LEN]"

lemma free_fd_range: "free_fd s = Some i \<Longrightarrow> 2 \<le> i \<and> i < FD_ARRAY_LEN \<and> fd_view s i = None"
  unfolding free_fd_def by (drule find_in_set) (simp del: upt_rec_numeral)

lemma free_slot:
  "fd_ok s \<Longrightarrow> find_fd (fd_array (pcbs s (running s))) 2 = Some (free_fd s)"
proof -
  assume "fd_ok s"
  then have l: "length (fd_array (pcbs s (running s))) = FD_ARRAY_LEN"
    by (simp add: running_shape [unfolded pcb_shape_def])
  have "find (\<lambda>i. \<not> fd_active (fd_array (pcbs s (running s)) ! i)) [2..<FD_ARRAY_LEN]
      = free_fd s"
    unfolding free_fd_def using l by (intro find_cong) (auto simp: fd_view_def Let_def)
  then show ?thesis using find_fd_find [OF l, of 2] by simp
qed

text \<open>The PCB after the two assignments before the \<open>switch\<close>, and after the descriptor is set up.\<close>

definition pcb_named :: "nat \<Rightarrow> u8 list \<Rightarrow> pcb_t \<Rightarrow> pcb_t" where
  "pcb_named i nm b = (upd_fd i (\<lambda>e. e\<lparr>file_position := 0\<rparr>) b)\<lparr>filenames := (filenames b)[i := nm]\<rparr>"

lemma pcb_named_links:
  "child_pcb (pcb_named i nm b) = child_pcb b" "parent_pcb (pcb_named i nm b) = parent_pcb b"
  "process_id (pcb_named i nm b) = process_id b"
  "fd_array (pcb_named i nm b) = fd_array (upd_fd i (\<lambda>e. e\<lparr>file_position := 0\<rparr>) b)"
  by (simp_all add: pcb_named_def)

lemma pcb_shape_named: "pcb_shape b \<Longrightarrow> length nm = 32 \<Longrightarrow> pcb_shape (pcb_named i nm b)"
  by (auto simp: pcb_shape_def pcb_named_def dest: set_update_subset_insert [THEN subsetD])

lemma sys_open_found:
  assumes "fd_ok s" "env_ok E" "0 \<in> set fname" "lookup_name s fname = Some j"
    and "free_fd s = Some i"
  shows "\<exists>nm. length nm = 32 \<and> sys_open E (Some fname) s =
    (let d = dentry_at (fs_mem s) (fs_sections s) j (uninit_dentry E);
         s1 = upd_pcb (running s) (pcb_named i nm) s
     in case type_entry d of
          None \<Rightarrow> Some (- 1, s1)
        | Some (jt, ino) \<Rightarrow> Some (int i, upd_pcb (running s) (upd_fd i (\<lambda>e. set_active 1
                              (e\<lparr>fo_jump_table_ptr := Some jt, fd_inode_index := ino\<rparr>))) s1))"
proof -
  let ?p = "running s"
  let ?d = "dentry_at (fs_mem s) (fs_sections s) j (uninit_dentry E)"
  have i: "i < FD_ARRAY_LEN" using free_fd_range [OF assms(5)] by simp
  have sh: "length (filenames (pcbs s ?p)) = 8" "length (filenames (pcbs s ?p) ! i) = 32"
    using running_shape [OF assms(1), of ?p] i by (simp_all add: pcb_shape_def)
  obtain nm where nm: "strncpy (filenames (pcbs s ?p) ! i) (dentry_bytes ?d) 32 = Some nm" "length nm = 32"
    using strncpy_eq [of 32 "filenames (pcbs s ?p) ! i" "dentry_bytes ?d"] sh(2)
    by (auto simp: dentry_bytes_def le32_def)
  have up: "upd_pcb ?p (\<lambda>b. b\<lparr>filenames := (filenames b)[i := nm]\<rparr>)
      (upd_pcb ?p (upd_fd i (\<lambda>e. e\<lparr>file_position := 0\<rparr>)) s) = upd_pcb ?p (pcb_named i nm) s"
    by (simp add: upd_pcb_def pcb_named_def)
  have r: "rd (filenames (pcbs (upd_pcb ?p (upd_fd i (\<lambda>e. e\<lparr>file_position := 0\<rparr>)) s) ?p)) (int i) =
      Some (filenames (pcbs s ?p) ! i)"
    using i sh by (simp add: upd_pcb_def rd_nat)
  show ?thesis
    using nm r lookup_dentry [OF assms(2,3), of s] assms(4) running_pcb [OF assms(1)]
      free_slot [OF assms(1)] assms(5)
    by (intro exI [of _ nm]) (simp add: sys_open_def up [simplified] Let_def split: option.split)
qed

lemma sys_open_missing:
  assumes "env_ok E" "0 \<in> set fname" "lookup_name s fname = None"
  shows "sys_open E (Some fname) s = Some (- 1, s)"
  using lookup_dentry [OF assms(1,2), of s] assms(3) by (simp add: sys_open_def)

lemma sys_open_full:
  assumes "fd_ok s" "env_ok E" "0 \<in> set fname" "free_fd s = None"
  shows "sys_open E (Some fname) s = Some (- 1, s)"
  using lookup_dentry [OF assms(2,3), of s] running_pcb [OF assms(1)] free_slot [OF assms(1)] assms(4)
  by (simp add: sys_open_def split: option.split)

text \<open>
  What \<open>open\<close> does to the descriptor table: either it fails and the table is as before, or it
  returns the lowest free descriptor from 2 on, now open at position 0.
\<close>

lemma sys_open_view:
  assumes "fd_ok s" "env_ok E" "0 \<in> set fname" "sys_open E (Some fname) s = Some (r, s')"
  shows "fd_ok s' \<and> running s' = running s \<and>
    (if r = - 1 then fd_view s' = fd_view s
     else \<exists>i jt ino. r = int i \<and> free_fd s = Some i \<and>
       fd_view s' = (fd_view s)(i \<mapsto> (Some jt, ino, 0)))"
proof (cases "lookup_name s fname")
  case None
  with assms sys_open_missing [OF assms(2,3) None] show ?thesis by simp
next
  case (Some j)
  show ?thesis
  proof (cases "free_fd s")
    case None
    with assms sys_open_full [OF assms(1-3) None] show ?thesis by simp
  next
    case (Some i)
    let ?d = "dentry_at (fs_mem s) (fs_sections s) j (uninit_dentry E)"
    note free = free_fd_range [OF Some]
    obtain nm where nm: "length nm = 32" and op: "sys_open E (Some fname) s =
      (let s1 = upd_pcb (running s) (pcb_named i nm) s
       in case type_entry ?d of
          None \<Rightarrow> Some (- 1, s1)
        | Some (jt, ino) \<Rightarrow> Some (int i, upd_pcb (running s) (upd_fd i (\<lambda>e. set_active 1
                              (e\<lparr>fo_jump_table_ptr := Some jt, fd_inode_index := ino\<rparr>))) s1))"
      using sys_open_found [OF assms(1-3) \<open>lookup_name s fname = Some j\<close> Some] by (auto simp: Let_def)
    let ?s = "upd_pcb (running s) (pcb_named i nm) s"
    have ok: "fd_ok ?s" "running ?s = running s"
      using fd_ok_upd [OF assms(1), of "pcb_named i nm" "running s"] pcb_shape_named [OF _ nm]
      by (simp_all add: pcb_named_links)
    have "fd_view ?s = fd_view (upd_pcb (running s) (upd_fd i (\<lambda>e. e\<lparr>file_position := 0\<rparr>)) s)"
      using ok(2) fd_ok_upd(2) [OF assms(1), of "upd_fd i (\<lambda>e. e\<lparr>file_position := 0\<rparr>)" "running s"]
      by (simp add: fd_view_def fun_eq_iff upd_pcb_def pcb_named_links pcb_shape_upd_fd)
    also have "\<dots> = fd_view s"
      using free running_shape [OF assms(1), of "running s"] unfolding fd_view_upd [OF assms(1) free [THEN conjunct2, THEN conjunct1]]
      by (auto simp: fun_eq_iff fd_view_def fd_active_def pcb_shape_def Let_def split: if_splits)
    finally have view: "fd_view ?s = fd_view s" .
    show ?thesis
    proof (cases "type_entry ?d")
      case None
      with op assms(4) ok view show ?thesis by simp
    next
      case ty: (Some ji)
      obtain jt ino where ji: "ji = (jt, ino)" by (cases ji)
      let ?f = "\<lambda>e. set_active 1 (e\<lparr>fo_jump_table_ptr := Some jt, fd_inode_index := ino\<rparr>)"
      let ?s' = "upd_pcb (running ?s) (upd_fd i ?f) ?s"
      have rs: "r = int i" "s' = ?s'" using op assms(4) ty ji ok(2) by simp_all
      have ok': "fd_ok ?s'" "running ?s' = running ?s"
        using fd_ok_upd [OF ok(1), of "upd_fd i ?f" "running ?s"] by (simp_all add: pcb_shape_upd_fd)
      have pos: "file_position (fd_array (pcbs ?s (running ?s)) ! i) = 0"
        using running_shape [OF assms(1), of "running s"] free
        by (simp add: ok(2)) (simp add: upd_pcb_def pcb_named_links pcb_shape_def)
      have act: "fd_active (?f e)" for e by (simp add: fd_active_set_active)
      have "fd_view ?s' = (fd_view ?s)(i \<mapsto> (Some jt, ino, 0))"
        using fd_view_upd [OF ok(1), of i ?f] free pos act by (simp add: Let_def set_active_def)
      then show ?thesis using rs ok' ok view Some by auto
    qed
  qed
qed

subsection \<open>Interface: a descriptor table\<close>

text \<open>
  What programs rely on: \<open>open\<close> gives out a free descriptor and touches no other, \<open>close\<close>
  frees exactly the given one and fails on anything that is not open.
\<close>

locale fd_table =
  fixes ok :: "'s \<Rightarrow> bool"
    and view :: "'s \<Rightarrow> nat \<Rightarrow> 'e option"
    and opn :: "'f \<Rightarrow> 's \<Rightarrow> (int \<times> 's) option"
    and cls :: "int \<Rightarrow> 's \<Rightarrow> (int \<times> 's) option"
  assumes open_law: "ok s \<Longrightarrow> opn f s = Some (r, s') \<Longrightarrow> ok s' \<and>
      (if r = - 1 then view s' = view s
       else \<exists>i e. r = int i \<and> 2 \<le> i \<and> view s i = None \<and> view s' = (view s)(i \<mapsto> e))"
    and close_law: "ok s \<Longrightarrow> 2 \<le> i \<Longrightarrow> view s i \<noteq> None \<Longrightarrow>
      \<exists>s'. cls (int i) s = Some (0, s') \<and> ok s' \<and> view s' = (view s)(i := None)"
    and close_error_law: "ok s \<Longrightarrow> fd < 2 \<or> view s (nat fd) = None \<Longrightarrow> cls fd s = Some (- 1, s)"
begin

text \<open>Opening and closing again leaves the table as it was, and a second close fails.\<close>

lemma open_close:
  assumes "ok s" "opn f s = Some (r, s1)" "r \<noteq> - 1"
  shows "\<exists>s2. cls r s1 = Some (0, s2) \<and> ok s2 \<and> view s2 = view s \<and> cls r s2 = Some (- 1, s2)"
proof -
  obtain i e where i: "r = int i" "2 \<le> i" "view s i = None" "view s1 = (view s)(i \<mapsto> e)" "ok s1"
    using open_law [OF assms(1,2)] assms(3) by auto
  then obtain s2 where s2: "cls (int i) s1 = Some (0, s2)" "ok s2" "view s2 = (view s1)(i := None)"
    using close_law [of s1 i] by auto
  then have "view s2 = view s" using i by (simp add: fun_upd_idem)
  moreover from this have "cls r s2 = Some (- 1, s2)" using close_error_law [OF s2(2), of r] i by simp
  ultimately show ?thesis using s2 i(1) by blast
qed

end

text \<open>The name a caller passes: an unterminated buffer is not a C string, here replaced by \<open>""\<close>.\<close>

definition c_string :: "u8 list \<Rightarrow> u8 list" where
  "c_string f = (if 0 \<in> set f then f else [0])"

interpretation descriptors: fd_table
  "\<lambda>(E, s). env_ok E \<and> fd_ok s" "\<lambda>(E, s). fd_view s"
  "\<lambda>f (E, s). map_option (\<lambda>(r, s'). (r, E, s')) (sys_open E (Some (c_string f)) s)"
  "\<lambda>fd (E, s). map_option (\<lambda>(r, s'). (r, E, s')) (sys_close fd s)"
proof (unfold_locales, goal_cases)
  case (1 es f r es')
  obtain E s where es: "es = (E, s)" by (cases es)
  with 1 obtain s' where s': "es' = (E, s')" "sys_open E (Some (c_string f)) s = Some (r, s')" by auto
  have "0 \<in> set (c_string f)" by (simp add: c_string_def)
  from sys_open_view [OF _ _ this s'(2)] 1 es s' show ?case
    by (auto dest: free_fd_range split: if_splits)
next
  case (2 es i)
  obtain E s where es: "es = (E, s)" by (cases es)
  with 2 have ok: "fd_ok s" "2 \<le> i" "fd_view s i \<noteq> None" by auto
  let ?s = "upd_pcb (running s) (upd_fd i (set_active 0)) s"
  have "i < FD_ARRAY_LEN"
    using ok(3) running_shape [OF ok(1), of "running s"] by (auto simp: fd_view_def pcb_shape_def Let_def split: if_splits)
  then have "fd_view ?s = (fd_view s)(i := None)"
    using fd_view_upd [OF ok(1), of i "set_active 0"] by (simp add: fd_active_set_active)
  moreover have "fd_ok ?s" using ok(1) by (rule fd_ok_upd) (simp_all add: pcb_shape_upd_fd)
  ultimately show ?case using sys_close_eq [OF ok] es 2 by simp
next
  case (3 es fd)
  then show ?case by (cases es) (auto simp: sys_close_error)
qed

subsection \<open>Reading an open file\<close>

lemma sys_read_file:
  assumes "fd_ok s" "fd_view s i = Some (Some file_fo_jump_table, ino, pos)"
    and "inode_ok (fs_mem s) (fs_sections s) ino"
    and "unat pos \<le> length (contents (fs_mem s) (fs_sections s) ino)" "0 \<le> n" "n < 2 ^ 31"
  defines "bs \<equiv> take (nat n) (drop (unat pos) (contents (fs_mem s) (fs_sections s) ino))"
  shows "\<exists>s'. sys_read E irqs (int i) False n s = Some (Read_returns (int (length bs)) bs s') \<and>
    fd_ok s' \<and> running s' = running s \<and> fs_mem s' = fs_mem s \<and> fs_sections s' = fs_sections s \<and>
    fd_view s' = (fd_view s)(i \<mapsto> (Some file_fo_jump_table, ino, pos + of_nat (length bs)))"
proof -
  let ?e = "fd_array (pcbs s (running s)) ! i" and ?c = "contents (fs_mem s) (fs_sections s) ino"
  have len: "length (fd_array (pcbs s (running s))) = FD_ARRAY_LEN"
    using running_shape [OF assms(1), of "running s"] by (simp add: pcb_shape_def)
  have e: "i < FD_ARRAY_LEN" "fd_active ?e" "fo_jump_table_ptr ?e = Some file_fo_jump_table"
      "fd_inode_index ?e = ino" "file_position ?e = pos"
    using assms(2) len by (auto simp: fd_view_def Let_def split: if_splits)
  have un: "unat (word_of_int n :: u32) = nat n" using assms(5,6) by (simp add: unat_word_of_int)
  have r: "file_read_at (fs_mem s) (fs_sections s) ino pos (word_of_int n) =
      (int (length bs), bs, pos + of_nat (length bs))"
    using fsfile.fetch_law [of "(fs_mem s, fs_sections s, ino)" pos "word_of_int n"] assms(3,4)
    by (simp add: un bs_def min_def)
  let ?s = "upd_pcb (running s) (upd_fd i (\<lambda>e. e\<lparr>file_position := pos + of_nat (length bs)\<rparr>)) s"
  have "sys_read E irqs (int i) False n s = Some (Read_returns (int (length bs)) bs ?s)"
    using e assms(5) r running_pcb [OF assms(1)] len by (simp add: sys_read_def file_read_def rd_nat)
  moreover have "fd_view ?s = (fd_view s)(i \<mapsto> (Some file_fo_jump_table, ino, pos + of_nat (length bs)))"
    using fd_view_upd [OF assms(1) e(1)] e by (simp add: fd_active_def Let_def)
  moreover have "fd_ok ?s" "running ?s = running s"
    using fd_ok_upd [OF assms(1), of "upd_fd i (\<lambda>e. e\<lparr>file_position := pos + of_nat (length bs)\<rparr>)" "running s"]
    by (simp_all add: pcb_shape_upd_fd)
  ultimately show ?thesis by (intro exI [of _ ?s]) (auto simp: upd_pcb_def)
qed

text \<open>Reading until a read returns 0, as the programs do; \<open>None\<close> is running out of steps.\<close>

fun read_all :: "env \<Rightarrow> int \<Rightarrow> nat \<Rightarrow> int \<Rightarrow> 'a kstate_scheme \<Rightarrow> (u8 list \<times> 'a kstate_scheme) option" where
  "read_all E chunk 0 fd s = None"
| "read_all E chunk (Suc fuel) fd s =
     (case sys_read E [] fd False chunk s of
        Some (Read_returns cnt bs s') \<Rightarrow>
          if cnt = 0 then Some ([], s')
          else map_option (\<lambda>(rest, s''). (bs @ rest, s'')) (read_all E chunk fuel fd s')
      | _ \<Rightarrow> None)"

lemma read_all_contents:
  assumes "fd_ok s" "fd_view s i = Some (Some file_fo_jump_table, ino, pos)"
    and "inode_ok (fs_mem s) (fs_sections s) ino"
    and "unat pos \<le> length (contents (fs_mem s) (fs_sections s) ino)" "0 < n" "n < 2 ^ 31"
    and "length (contents (fs_mem s) (fs_sections s) ino) - unat pos < fuel"
  shows "\<exists>s'. read_all E n fuel (int i) s = Some (drop (unat pos) (contents (fs_mem s) (fs_sections s) ino), s')"
  using assms
proof (induction fuel arbitrary: s pos)
  case (Suc fuel)
  let ?c = "contents (fs_mem s) (fs_sections s) ino"
  let ?bs = "take (nat n) (drop (unat pos) ?c)"
  obtain s' where s': "sys_read E [] (int i) False n s = Some (Read_returns (int (length ?bs)) ?bs s')"
      "fd_ok s'" "fs_mem s' = fs_mem s" "fs_sections s' = fs_sections s"
      "fd_view s' = (fd_view s)(i \<mapsto> (Some file_fo_jump_table, ino, pos + of_nat (length ?bs)))"
    using sys_read_file [OF Suc.prems(1-4), of n E "[]"] Suc.prems(5,6) by auto
  show ?case
  proof (cases "length ?c = unat pos")
    case True
    with s'(1) show ?thesis by simp
  next
    case False
    have k: "0 < length ?bs" "length ?bs \<le> length ?c - unat pos" using False Suc.prems(4,5) by auto
    have lb: "length ?bs = min (nat n) (length ?c - unat pos)" by (simp add: min.commute)
    have adv: "unat (pos + of_nat (length ?bs)) = unat pos + length ?bs"
      unfolding lb using fsfile.position_advance [of pos "(fs_mem s, fs_sections s, ino)" "nat n"] Suc.prems(4)
      by (simp only: prod.case)
    have view: "fd_view s' i = Some (Some file_fo_jump_table, ino, pos + of_nat (length ?bs))"
      by (simp only: s'(5) fun_upd_same)
    have le: "unat pos + length ?bs \<le> length ?c" "length ?c - (unat pos + length ?bs) < fuel"
      using Suc.prems(4,7) k by linarith+
    have "\<exists>s''. read_all E n fuel (int i) s' = Some (drop (unat pos + length ?bs) ?c, s'')"
      using Suc.IH [OF s'(2) view, unfolded s'(3,4) adv, OF Suc.prems(3) le(1) Suc.prems(5,6) le(2)] .
    moreover have "?bs @ drop (unat pos + length ?bs) ?c = drop (unat pos) ?c"
      by (rule take_drop_rest)
    ultimately show ?thesis using s'(1) k(1) by (auto simp del: length_take take_append)
  qed
qed simp

subsection \<open>Properties\<close>

lemma sys_open_cases:
  assumes "fd_ok s" "env_ok E" "0 \<in> set fname" "lookup_name s fname = Some j" "free_fd s = Some i"
    and "type_entry (dentry_at (fs_mem s) (fs_sections s) j (uninit_dentry E)) = Some (jt, ino)"
  shows "\<exists>s'. sys_open E (Some fname) s = Some (int i, s') \<and> fd_ok s' \<and> running s' = running s \<and>
    fs_mem s' = fs_mem s \<and> fs_sections s' = fs_sections s \<and>
    fd_view s' = (fd_view s)(i \<mapsto> (Some jt, ino, 0))"
proof -
  obtain nm where nm: "sys_open E (Some fname) s = Some (int i, upd_pcb (running s)
      (upd_fd i (\<lambda>e. set_active 1 (e\<lparr>fo_jump_table_ptr := Some jt, fd_inode_index := ino\<rparr>)))
      (upd_pcb (running s) (pcb_named i nm) s))" (is "_ = Some (_, ?s)")
    using sys_open_found [OF assms(1-5)] assms(6) by auto
  have v: "fd_ok ?s" "running ?s = running s" "\<exists>jt ino. fd_view ?s = (fd_view s)(i \<mapsto> (Some jt, ino, 0))"
    using sys_open_view [OF assms(1-3) nm] assms(5) by auto
  have l: "i < length (fd_array (pcbs s (running s)))"
    using free_fd_range [OF assms(5)] running_shape [OF assms(1), of "running s"] by (simp add: pcb_shape_def)
  have "fo_jump_table_ptr (fd_array (pcbs ?s (running s)) ! i) = Some jt"
      "fd_inode_index (fd_array (pcbs ?s (running s)) ! i) = ino"
    using l by (simp_all add: upd_pcb_def set_active_def pcb_named_links)
  moreover obtain jt' ino' where "fd_view ?s = (fd_view s)(i \<mapsto> (Some jt', ino', 0))" using v(3) by blast
  moreover from this have "fd_view ?s i = Some (Some jt', ino', 0)" by simp
  ultimately have "jt' = jt" "ino' = ino" unfolding fd_view_def v(2) by (auto simp: Let_def split: if_splits)
  with \<open>fd_view ?s = _\<close> nm v show ?thesis by (intro exI [of _ ?s]) (auto simp: upd_pcb_def)
qed

text \<open>
  C13: \<open>open\<close> on every outcome. An unknown name and a full table give -1 and change nothing; a file
  of unknown type gives -1 and opens nothing; otherwise the result is the lowest free descriptor from 2
  on, which is then open on the file at position 0 with the jump table of its type, and no other
  descriptor changes.
\<close>

theorem sys_open_outcome:
  assumes "fd_ok s" "env_ok E" "0 \<in> set fname"
  shows "\<exists>r s'. sys_open E (Some fname) s = Some (r, s') \<and> fd_ok s' \<and>
    (case lookup_name s fname of
       None \<Rightarrow> r = - 1 \<and> s' = s
     | Some j \<Rightarrow>
         (case free_fd s of
            None \<Rightarrow> r = - 1 \<and> s' = s
          | Some i \<Rightarrow>
              (case type_entry (dentry_at (fs_mem s) (fs_sections s) j (uninit_dentry E)) of
                 None \<Rightarrow> r = - 1 \<and> fd_view s' = fd_view s
               | Some (jt, ino) \<Rightarrow> r = int i \<and> fd_view s' = (fd_view s)(i \<mapsto> (Some jt, ino, 0)))))"
proof (cases "lookup_name s fname")
  case None
  with sys_open_missing [OF assms(2,3)] assms(1) show ?thesis by auto
next
  case j: (Some j)
  show ?thesis
  proof (cases "free_fd s")
    case None
    with j sys_open_full [OF assms] assms(1) show ?thesis by auto
  next
    case i: (Some i)
    show ?thesis
    proof (cases "type_entry (dentry_at (fs_mem s) (fs_sections s) j (uninit_dentry E))")
      case None
      then obtain s' where s': "sys_open E (Some fname) s = Some (- 1, s')"
        using sys_open_found [OF assms j i] by auto
      with sys_open_view [OF assms s'] None j i show ?thesis by auto
    next
      case (Some e)
      with sys_open_cases [OF assms j i] j i show ?thesis by (cases e) auto
    qed
  qed
qed

text \<open>
  Opening a file and closing the descriptor leaves the descriptor table as it was, and closing it a
  second time is an error.
\<close>

lemma open_close_restores:
  assumes "fd_ok s" "env_ok E" "0 \<in> set fname"
    and "sys_open E (Some fname) s = Some (r, s1)" "r \<noteq> - 1"
  shows "\<exists>s2. sys_close r s1 = Some (0, s2) \<and> fd_ok s2 \<and> fd_view s2 = fd_view s \<and>
    sys_close r s2 = Some (- 1, s2)"
proof -
  have "c_string fname = fname" using assms(3) by (simp add: c_string_def)
  then show ?thesis using descriptors.open_close [of "(E, s)" fname r "(E, s1)"] assms by auto
qed

lemma bad_fd_calls:
  assumes "fd_ok s" "fd < 0 \<or> fd_view s (nat fd) = None"
  shows "sys_read E irqs fd null n s = Some (Read_returns (- 1) [] s) \<and>
    sys_write E fd buf n s = Some (- 1, s) \<and> sys_close fd s = Some (- 1, s)"
proof (cases "fd < 0 \<or> 8 \<le> fd")
  case True
  then show ?thesis by (elim disjE) (simp_all add: sys_read_def sys_write_def sys_close_def)
next
  case False
  have l: "length (fd_array (pcbs s (running s))) = 8"
    using running_shape [OF assms(1), of "running s"] by (simp add: pcb_shape_def)
  have "rd (fd_array (pcbs s (running s))) fd = Some (fd_array (pcbs s (running s)) ! nat fd)"
    using False l by (intro rd_in) auto
  moreover have "\<not> fd_active (fd_array (pcbs s (running s)) ! nat fd)"
    using assms(2) False l by (auto simp: fd_view_def Let_def split: if_splits)
  ultimately show ?thesis
    using running_pcb [OF assms(1)] sys_close_error [OF assms(1), of fd] assms(2) False
    by (auto simp: sys_read_def sys_write_def)
qed

text \<open>
  A descriptor that is negative, beyond the table or not open is rejected: \<open>read\<close>,
  \<open>write\<close> and \<open>close\<close> return -1 and change nothing.
\<close>

lemma bad_descriptor_rejected:
  assumes "fd_ok s" "fd < 0 \<or> fd_view s (nat fd) = None"
  shows "sys_read E irqs fd null n s = Some (Read_returns (- 1) [] s) \<and>
    sys_write E fd buf n s = Some (- 1, s) \<and> sys_close fd s = Some (- 1, s)"
  using assms by (rule bad_fd_calls)

text \<open>
  C11: Opening a regular file and reading it through the descriptor in chunks of any positive size until
  a read returns 0 ends and yields the contents of the file, whatever the block boundaries.
\<close>

theorem open_then_read_all:
  assumes "fd_ok s" "env_ok E" "0 \<in> set fname" "lookup_name s fname = Some j" "free_fd s = Some i"
    and "type_entry (dentry_at (fs_mem s) (fs_sections s) j (uninit_dentry E)) = Some (file_fo_jump_table, ino)"
    and "inode_ok (fs_mem s) (fs_sections s) ino" "0 < chunk" "chunk < 2 ^ 31"
    and "length (contents (fs_mem s) (fs_sections s) ino) < fuel"
  shows "\<exists>s1 s2. sys_open E (Some fname) s = Some (int i, s1) \<and>
    read_all E chunk fuel (int i) s1 = Some (contents (fs_mem s) (fs_sections s) ino, s2)"
proof -
  obtain s1 where s1: "sys_open E (Some fname) s = Some (int i, s1)" "fd_ok s1"
      "fs_mem s1 = fs_mem s" "fs_sections s1 = fs_sections s"
      "fd_view s1 i = Some (Some file_fo_jump_table, ino, 0)"
    using sys_open_cases [OF assms(1-6)] by auto
  with read_all_contents [OF s1(2,5), of chunk fuel E] assms(7-10) show ?thesis by auto
qed

end
