(* ===== verification/Scheduler.thy ===== *)
theory Scheduler
  imports Process
begin

text \<open>
  The scheduler: \<open>src/student-distrib/scheduler.c\<close> and \<open>next_executing_term\<close> of
  \<open>terminal.c\<close>. The stack and base pointer at the interrupt are arguments of
  \<open>pit_handler\<close>; its result is the pair the handler loads before it returns, that is, the
  context of the program that runs next.
\<close>

abbreviation PIT_IRQ :: u32 where "PIT_IRQ \<equiv> 0"

definition init_pit :: "'a pic_scheme \<Rightarrow> 'a pic_scheme" where
  "init_pit s =
     (let s = cli s;
          s = outb 0x36 0x43 s;
          s = outb (ucast ((11932 :: u32) AND 0xFF)) 0x40 s;
          s = outb (ucast (drop_bit 8 (11932 :: u32))) 0x40 s;
          s = enable_irq PIT_IRQ s
      in sti s)"

text \<open>The loop has no bound: with no active terminal it does not return.\<close>

partial_function (option) next_term :: "bool list \<Rightarrow> int \<Rightarrow> int option" where
  "next_term ps e =
     (let e' = (if 2 < e + 1 then 0 else e + 1)
      in case rd ps e' of
           None \<Rightarrow> None
         | Some active \<Rightarrow> if active then Some e' else next_term ps e')"

definition next_executing_term :: "'a tty_scheme \<Rightarrow> 'a tty_scheme option" where
  "next_executing_term s =
     map_option (\<lambda>e. s\<lparr>exec_term_id := e\<rparr>) (next_term (processes s) (exec_term_id s))"

definition pit_handler ::
  "layout \<Rightarrow> u32 \<Rightarrow> u32 \<Rightarrow> 'a kstate_scheme \<Rightarrow> ((u32 \<times> u32) \<times> 'a kstate_scheme) option" where
  "pit_handler L ebp esp s = do {
     let s = send_eoi PIT_IRQ s;
     p \<leftarrow> get_current_executing_pcb s;
     let s = upd_pcb p (\<lambda>b. b\<lparr>return_ebp := ebp, return_esp := esp\<rparr>) s;
     s \<leftarrow> next_executing_term s;
     q \<leftarrow> get_current_executing_pcb s;
     (r, s) \<leftarrow> create_user_4mb_page (int (process_id (pcbs s q)) + 2) USER_PD_INDEX s;
     let s = reload_cr3 L s;
     s \<leftarrow> remap_vid L (exec_term_id s) s;
     let s = reload_cr3 L s;
     let s = s\<lparr>tss_esp0 := pit_esp0 (int (process_id (pcbs s q))), tss_ss0 := KERNEL_DS\<rparr>;
     Some ((return_ebp (pcbs s q), return_esp (pcbs s q)), s)
   }"

subsection \<open>The order of the terminals\<close>

definition succ_term :: "int \<Rightarrow> int" where
  "succ_term e = (if 2 < e + 1 then 0 else e + 1)"

lemma next_term_step:
  "next_term ps e = (case rd ps (succ_term e) of
     None \<Rightarrow> None | Some active \<Rightarrow> if active then Some (succ_term e) else next_term ps (succ_term e))"
  by (subst next_term.simps) (simp only: succ_term_def Let_def)

lemma succ_term_range: "0 \<le> e \<Longrightarrow> e < 3 \<Longrightarrow> 0 \<le> succ_term e \<and> succ_term e < 3"
  by (auto simp: succ_term_def)

text \<open>
  The next active terminal in cyclic order after \<open>e\<close>, \<open>e\<close> itself last: the loop returns as
  soon as one of the three is active.
\<close>

lemma next_term_find:
  assumes "0 \<le> e" "e < 3" "3 \<le> length ps" "\<exists>t < 3. ps ! t"
  shows "next_term ps e =
    find (\<lambda>t. ps ! nat t) [succ_term e, succ_term (succ_term e), succ_term (succ_term (succ_term e))]"
proof -
  have rd: "rd ps t = Some (ps ! nat t)" if "0 \<le> t" "t < 3" for t using that assms(3) by (simp add: rd_in)
  have e: "e = 0 \<or> e = 1 \<or> e = 2" using assms(1,2) by auto
  from assms(4) have act: "ps ! 0 \<or> ps ! 1 \<or> ps ! 2" by (auto dest!: less_3_cases)
  have "next_term ps t = (if ps ! nat (succ_term t) then Some (succ_term t) else next_term ps (succ_term t))"
    if "0 \<le> t" "t < 3" for t
    using succ_term_range [OF that] rd by (subst next_term_step) simp
  note st = this
  from e act show ?thesis
    by (elim disjE) (simp_all add: st succ_term_def)
qed

text \<open>Round robin: an active terminal runs again after at most three switches.\<close>

fun after_switches :: "nat \<Rightarrow> bool list \<Rightarrow> int \<Rightarrow> int option" where
  "after_switches 0 ps e = Some e"
| "after_switches (Suc n) ps e = (case next_term ps e of None \<Rightarrow> None | Some e' \<Rightarrow> after_switches n ps e')"

text \<open>
  C26: No active terminal starves: from any terminal an active one is selected again after at most three
  timer switches.
\<close>

theorem round_robin:
  assumes "0 \<le> e" "e < 3" "3 \<le> length ps" "t < 3" "ps ! t"
  shows "\<exists>k. 1 \<le> k \<and> k \<le> 3 \<and> after_switches k ps e = Some (int t)"
proof -
  have nt: "next_term ps e' = find (\<lambda>t. ps ! nat t)
      [succ_term e', succ_term (succ_term e'), succ_term (succ_term (succ_term e'))]" if "0 \<le> e'" "e' < 3" for e'
    using next_term_find [OF that assms(3)] assms(4,5) by blast
  have "e = 0 \<or> e = 1 \<or> e = 2" "t = 0 \<or> t = 1 \<or> t = 2" using assms by auto
  then have "after_switches 1 ps e = Some (int t) \<or> after_switches 2 ps e = Some (int t) \<or>
      after_switches 3 ps e = Some (int t)"
    using assms(5) nt
    by (elim disjE) (auto simp: numeral_2_eq_2 numeral_3_eq_3 succ_term_def split: if_splits)
  then obtain k where "k \<in> {1, 2, 3}" "after_switches k ps e = Some (int t)" by blast
  then show ?thesis by (intro exI [of _ k]) auto
qed

subsection \<open>A context switch\<close>

lemma next_executing_active:
  assumes "tty_ids_ok s" "3 \<le> length (processes s)" "\<exists>t < 3. processes s ! t"
  obtains t where "t < 3" "processes s ! t" "next_executing_term s = Some (s\<lparr>exec_term_id := int t\<rparr>)"
proof -
  have e: "0 \<le> exec_term_id s" "exec_term_id s < 3" using assms(1) by (auto simp: tty_ids_ok_def)
  let ?f = "succ_term" and ?e = "exec_term_id s"
  note nt = next_term_find [OF e assms(2,3)]
  have r: "x \<in> set [?f ?e, ?f (?f ?e), ?f (?f (?f ?e))] \<Longrightarrow> 0 \<le> x \<and> x < 3" for x
    using e succ_term_range by auto
  obtain u where u: "u < 3" "processes s ! u" using assms(3) by blast
  have "int u \<in> set [?f ?e, ?f (?f ?e), ?f (?f (?f ?e))]"
    using e u(1) by (auto simp: succ_term_def)
  then have "find (\<lambda>t. processes s ! nat t) [?f ?e, ?f (?f ?e), ?f (?f (?f ?e))] \<noteq> None"
    using u(2) unfolding find_None_iff by fastforce
  then obtain x where x: "next_term (processes s) ?e = Some x" using nt by auto
  then have "x \<in> set [?f ?e, ?f (?f ?e), ?f (?f (?f ?e))]" "processes s ! nat x"
    using nt find_in_set by metis+
  with r [of x] x show ?thesis by (intro that [of "nat x"]) (auto simp: next_executing_term_def)
qed

text \<open>
  The handler saves the context of the interrupted program, selects an active terminal, maps the
  program page of its running process and returns to the context saved for it.
\<close>

lemma pit_handler_switch:
  assumes "proc_chains cs s" "tty_ids_ok s" "\<exists>t < 3. processes s ! t"
    and "length (page_directory s) = 1024" "length (vid_page_table_0 s) = 1024"
  defines "p \<equiv> last (cs (nat (exec_term_id s)))"
  obtains t s' where "t < 3" "processes s ! t"
    "pit_handler L ebp esp s =
       Some (if last (cs t) = p then (ebp, esp)
             else (return_ebp (pcbs s (last (cs t))), return_esp (pcbs s (last (cs t)))), s')"
    "proc_chains cs s'" "tty_ids_ok s'" "exec_term_id s' = int t" "processes s' = processes s"
    "return_ebp (pcbs s' p) = ebp" "return_esp (pcbs s' p) = esp"
    "tss_esp0 s' = pit_esp0 (int (last (cs t)))" "paging_inv L s \<Longrightarrow> paging_inv L s'" "user_mem s' = user_mem s"
    "\<And>va. uint (drop_bit 22 va) = 32 \<Longrightarrow>
       translate L s' True va = Some (push_bit 22 (word_of_int (int (last (cs t)) + 2)) OR take_bit 22 va)"
proof -
  let ?f = "\<lambda>b. b\<lparr>return_ebp := ebp, return_esp := esp\<rparr>"
  let ?s0 = "send_eoi PIT_IRQ s"
  let ?s1 = "upd_pcb p ?f ?s0"
  have s0: "tty_ids_ok ?s0" "proc_chains cs ?s0" "exec_term_id ?s0 = exec_term_id s"
    using assms(1,2) by (simp_all add: send_eoi_def outb_def tty_ids_ok_def proc_chains_def)
  have p: "get_current_executing_pcb ?s0 = Some p"
    using executing_pcb [OF s0(2,1)] s0(3) by (simp add: p_def)
  have s1: "proc_chains cs ?s1" "tty_ids_ok ?s1" "processes ?s1 = processes s"
    using proc_chains_upd_pcb [OF s0(2), of ?f p] s0(1)
    by (simp_all add: pcb_shape_def upd_pcb_def tty_ids_ok_def send_eoi_def outb_def)
  have "3 \<le> length (processes ?s1)" "\<exists>t < 3. processes ?s1 ! t"
    using s1(1,3) assms(3) by (simp_all add: proc_chains_def)
  from next_executing_active [OF s1(2) this] obtain t where
    t: "t < 3" "processes ?s1 ! t" "next_executing_term ?s1 = Some (?s1\<lparr>exec_term_id := int t\<rparr>)" .
  let ?s2 = "?s1\<lparr>exec_term_id := int t\<rparr>" and ?q = "last (cs t)"
  have s2: "proc_chains cs ?s2" "tty_ids_ok ?s2"
    using s1 t(1) by (auto simp: proc_chains_def tty_ids_ok_def)
  have q: "get_current_executing_pcb ?s2 = Some ?q" using executing_pcb [OF s2] by simp
  have qid: "process_id (pcbs ?s2 ?q) = ?q" "?q < 7" using executing_member [OF s2(1) t(1)] by auto
  have len: "length (page_directory ?s2) = 1024" "length (vid_page_table_0 ?s2) = 1024"
    using assms(4,5) by (simp_all add: upd_pcb_def send_eoi_def outb_def)
  let ?d = "fill_entry (push_bit 10 (word_of_int (int ?q + 2))) 0 1 1 (page_directory ?s2 ! nat 32)"
  let ?s3 = "?s2\<lparr>page_directory := (page_directory ?s2)[nat 32 := ?d]\<rparr>"
  have c: "create_user_4mb_page (int ?q + 2) 32 ?s2 = Some (0, ?s3)"
    using len qid(2) by (intro create_user_4mb_page_eq) auto
  obtain pt where pt: "remap_vid L (int t) (reload_cr3 L ?s3) = Some (reload_cr3 L ?s3\<lparr>vid_page_table_0 := pt\<rparr>)"
    by (rule remap_vid_upd [of "reload_cr3 L ?s3" L "int t"]) (use len(2) in \<open>simp_all add: reload_cr3_def\<close>)
  let ?s' = "(reload_cr3 L (reload_cr3 L ?s3\<lparr>vid_page_table_0 := pt\<rparr>))
      \<lparr>tss_esp0 := pit_esp0 (int ?q), tss_ss0 := KERNEL_DS\<rparr>"
  have pcbs': "pcbs ?s' = (pcbs s)(p := ?f (pcbs s p))"
    by (simp add: reload_cr3_def upd_pcb_def send_eoi_def outb_def)
  have run: "pit_handler L ebp esp s = Some ((return_ebp (pcbs ?s' ?q), return_esp (pcbs ?s' ?q)), ?s')"
    using p t(3) q qid c pt by (simp add: pit_handler_def Let_def) (simp add: reload_cr3_def)
  have inv: "proc_chains cs ?s'" "tty_ids_ok ?s'" "processes ?s' = processes s"
    using s2 s1(3) by (auto simp: proc_chains_def tty_ids_ok_def reload_cr3_def)
  have tr: "translate L ?s' True va = Some (push_bit 22 (word_of_int (int ?q + 2)) OR take_bit 22 va)"
    if "uint (drop_bit 22 va) = 32" for va
    using that len(1) qid(2)
    by (simp add: translate_def reload_cr3_def rd_in grants_fill_entry fill_entry_fields frame_index del: of_int_add)
  have pinv: "paging_inv L ?s'" if "paging_inv L s"
  proof -
    have "paging_inv L ?s2"
      using that paging_inv_cong [of ?s2 s L] by (simp add: upd_pcb_def send_eoi_def outb_def)
    then have "paging_inv L ?s3" using paging_inv_map_program [of L ?s2 "int ?q"] c qid(2) by simp
    then have "paging_inv L (reload_cr3 L ?s3)" using paging_inv_cong [of "reload_cr3 L ?s3" ?s3 L] by (simp add: reload_cr3_def)
    from paging_inv_remap_video [OF this _ _ pt] t(1)
    have "paging_inv L (reload_cr3 L ?s3\<lparr>vid_page_table_0 := pt\<rparr>)" by simp
    then show ?thesis using paging_inv_cong [of ?s' "reload_cr3 L ?s3\<lparr>vid_page_table_0 := pt\<rparr>" L]
      by (simp add: reload_cr3_def)
  qed
  show ?thesis
    by (rule that [OF t(1) _ _ inv(1,2) _ inv(3) _ _ _ pinv _ tr])
      (use run pcbs' t(2) s1(3) in \<open>auto simp: reload_cr3_def upd_pcb_def send_eoi_def outb_def\<close>)
qed

subsection \<open>Property\<close>

text \<open>
  C21: A timer interrupt is a context switch: the handler saves the stack of the interrupted program in
  its PCB, selects an active terminal, maps the program page of that terminal's running process, points
  the kernel stack at that process and returns on the stack saved for it; the process invariant is
  kept.
\<close>

theorem pit_handler_switches:
  assumes "proc_chains cs s" "tty_ids_ok s" "\<exists>t < NUM_TERMINALS. processes s ! t"
    and "length (page_directory s) = 1024" "length (vid_page_table_0 s) = 1024"
    and "p = last (cs (nat (exec_term_id s)))"
  shows "\<exists>t s'. t < NUM_TERMINALS \<and> processes s ! t \<and> exec_term_id s' = int t \<and>
    pit_handler L ebp esp s =
      Some (if last (cs t) = p then (ebp, esp)
            else (return_ebp (pcbs s (last (cs t))), return_esp (pcbs s (last (cs t)))), s') \<and>
    proc_chains cs s' \<and> tty_ids_ok s' \<and> processes s' = processes s \<and>
    return_ebp (pcbs s' p) = ebp \<and> return_esp (pcbs s' p) = esp \<and>
    tss_esp0 s' = pit_esp0 (int (last (cs t))) \<and>
    (\<forall>va. uint (drop_bit 22 va) = 32 \<longrightarrow>
       translate L s' True va = Some (push_bit 22 (word_of_int (int (last (cs t)) + 2)) OR take_bit 22 va))"
  using pit_handler_switch [OF assms(1-5), of L ebp esp] unfolding assms(6) by metis

end
