(* ===== verification/Lib_Parse.thy ===== *)
theory Lib_Parse
  imports Lib_String
begin

text \<open>
  The command parser \<open>parse_command\<close> of \<open>src/student-distrib/lib.c\<close>. The first loop
  collects the file name into \<open>cmd\<close>, the second the arguments, with runs of spaces squeezed,
  into \<open>args\<close>. After the second loop the code reads \<open>args[arg_idx-1]\<close>, which for a command
  without arguments is the byte in front of the array; that byte is the parameter \<open>pre\<close> of the
  model and part of its result. The specification is stated over the list of words of the command.
\<close>

abbreviation SPACE :: u8 where "SPACE \<equiv> 32"

subsection \<open>The two loops and the function\<close>

fun parse_cmd_loop :: "u8 list \<Rightarrow> u8 list \<Rightarrow> nat \<Rightarrow> (u8 list \<times> nat \<times> u8 list) option" where
  "parse_cmd_loop [] cmd cmd_idx = Some (cmd, cmd_idx, [])"
| "parse_cmd_loop (c # rest) cmd cmd_idx =
     (case rd cmd 0 of
        None \<Rightarrow> None
      | Some c0 \<Rightarrow>
          if c = SPACE \<and> c0 \<noteq> 0 then Some (cmd, cmd_idx, rest)
          else if c \<noteq> SPACE
          then (case wr cmd (int cmd_idx) c of
                  None \<Rightarrow> None
                | Some cmd' \<Rightarrow> parse_cmd_loop rest cmd' (Suc cmd_idx))
          else parse_cmd_loop rest cmd cmd_idx)"

fun parse_arg_loop :: "u8 list \<Rightarrow> u8 list \<Rightarrow> nat \<Rightarrow> u8 \<Rightarrow> (u8 list \<times> nat) option" where
  "parse_arg_loop [] args arg_idx prev_char = Some (args, arg_idx)"
| "parse_arg_loop (c # rest) args arg_idx prev_char =
     (if c = SPACE \<and> prev_char \<noteq> SPACE
      then (case wr args (int arg_idx) SPACE of
              None \<Rightarrow> None
            | Some args' \<Rightarrow> parse_arg_loop rest args' (Suc arg_idx) c)
      else if c \<noteq> SPACE
      then (case wr args (int arg_idx) c of
              None \<Rightarrow> None
            | Some args' \<Rightarrow> parse_arg_loop rest args' (Suc arg_idx) c)
      else parse_arg_loop rest args arg_idx c)"

text \<open>The two statements after the loops; \<open>pre\<close> is the byte at \<open>args[-1]\<close>.\<close>

definition parse_finish :: "u8 \<Rightarrow> u8 list \<Rightarrow> nat \<Rightarrow> (u8 \<times> u8 list) option" where
  "parse_finish pre args arg_idx =
     (if arg_idx = 0
      then map_option (Pair (if pre = SPACE then 0 else pre)) (wr args 0 0)
      else do {
        l \<leftarrow> rd args (int arg_idx - 1);
        args1 \<leftarrow> (if l = SPACE then wr args (int arg_idx - 1) 0 else Some args);
        args2 \<leftarrow> wr args1 (int arg_idx) 0;
        Some (pre, args2)
      })"

definition parse_command ::
  "u8 list \<Rightarrow> u8 list \<Rightarrow> u8 \<Rightarrow> u8 list \<Rightarrow> (u8 list \<times> u8 list \<times> u8) option" where
  "parse_command cmd args pre command = do {
     n \<leftarrow> strlen command;
     cmd0 \<leftarrow> wr cmd 0 0;
     (cmd1, cmd_idx, rest) \<leftarrow> parse_cmd_loop (take n command) cmd0 0;
     cmd2 \<leftarrow> wr cmd1 (int cmd_idx) 0;
     (args1, arg_idx) \<leftarrow> parse_arg_loop rest args 0 SPACE;
     (pre', args2) \<leftarrow> parse_finish pre args1 arg_idx;
     Some (cmd2, args2, pre')
   }"

subsection \<open>Specification: the words of a command\<close>

lemma dropWhile_head: "dropWhile P xs = c # t \<Longrightarrow> \<not> P c"
  by (induction xs) (auto split: if_splits)

lemma dropWhile_split: "dropWhile P xs = c # t \<Longrightarrow> xs = takeWhile P xs @ c # t"
  using takeWhile_dropWhile_id [of P xs] by simp

function words :: "u8 list \<Rightarrow> u8 list list" where
  "words s = (let t = dropWhile (\<lambda>c. c = SPACE) s in
     if t = [] then []
     else takeWhile (\<lambda>c. c \<noteq> SPACE) t # words (dropWhile (\<lambda>c. c \<noteq> SPACE) t))"
  by pat_completeness auto
termination
proof (relation "measure length", simp)
  fix s t :: "u8 list"
  assume t: "t = dropWhile (\<lambda>c. c = SPACE) s" and "t \<noteq> []"
  then obtain c t' where ct: "t = c # t'" by (meson neq_Nil_conv)
  with t have "c \<noteq> SPACE" using dropWhile_head [of "\<lambda>c. c = SPACE" s c t'] by simp
  with ct have "length (dropWhile (\<lambda>c. c \<noteq> SPACE) t) < length t"
    by (simp add: length_dropWhile_le le_imp_less_Suc)
  also have "length t \<le> length s" by (simp add: t length_dropWhile_le)
  finally show "(dropWhile (\<lambda>c. c \<noteq> SPACE) t, s) \<in> measure length" by simp
qed

declare words.simps [simp del]

fun join :: "u8 list list \<Rightarrow> u8 list" where
  "join [] = []"
| "join [w] = w"
| "join (w # ws) = w @ SPACE # join ws"

text \<open>What the second loop writes: every run of spaces after a word becomes one space.\<close>

fun squeeze :: "bool \<Rightarrow> u8 list \<Rightarrow> u8 list" where
  "squeeze sp [] = []"
| "squeeze sp (c # s) =
     (if c = SPACE then (if sp then squeeze True s else SPACE # squeeze True s)
      else c # squeeze False s)"

lemma words_Nil [simp]: "words [] = []"
  by (simp add: words.simps)

lemma words_space [simp]: "words (SPACE # s) = words s"
  by (simp add: words.simps [of "SPACE # s"] words.simps [of s])

lemma words_word:
  "c \<noteq> SPACE \<Longrightarrow> words (c # s) =
     (c # takeWhile (\<lambda>c. c \<noteq> SPACE) s) # words (dropWhile (\<lambda>c. c \<noteq> SPACE) s)"
  by (simp add: words.simps [of "c # s"])

lemma words_tl: "words (tl (dropWhile (\<lambda>c. c \<noteq> SPACE) s)) = words (dropWhile (\<lambda>c. c \<noteq> SPACE) s)"
proof (cases "dropWhile (\<lambda>c. c \<noteq> SPACE) s")
  case (Cons c t)
  then have "c = SPACE" using dropWhile_head [of "\<lambda>c. c \<noteq> SPACE" s c t] by simp
  with Cons show ?thesis by simp
next
  case Nil
  then show ?thesis by (simp only: list.sel)
qed

lemma squeeze_word:
  "squeeze False s = takeWhile (\<lambda>c. c \<noteq> SPACE) s @
     (case dropWhile (\<lambda>c. c \<noteq> SPACE) s of [] \<Rightarrow> [] | c # t \<Rightarrow> SPACE # squeeze True t)"
  by (induction s) auto

lemma length_squeeze: "length (squeeze sp s) \<le> length s"
  by (induction sp s rule: squeeze.induct) auto

lemma set_squeeze: "set (squeeze sp s) \<subseteq> set s"
  by (induction sp s rule: squeeze.induct) auto

lemma words_eq_Nil: "words s = [] \<longleftrightarrow> set s \<subseteq> {SPACE}"
proof (induction s)
  case (Cons c s)
  then show ?case by (cases "c = SPACE") (auto simp: words_word)
qed simp

lemma join_Cons: "join (w # ws) = w @ (if ws = [] then [] else SPACE # join ws)"
  by (cases ws) auto

lemma squeeze_words:
  "squeeze True s = join (words s) @ (if words s \<noteq> [] \<and> last s = SPACE then [SPACE] else [])"
proof (induction "length s" arbitrary: s rule: less_induct)
  case less
  show ?case
  proof (cases s)
    case (Cons c s')
    show ?thesis
    proof (cases "c = SPACE")
      case True
      have "words s' \<noteq> [] \<Longrightarrow> s' \<noteq> []" by auto
      with True Cons less [of s'] show ?thesis by auto
    next
      case False
      let ?w = "takeWhile (\<lambda>c. c \<noteq> SPACE) s'" and ?d = "dropWhile (\<lambda>c. c \<noteq> SPACE) s'"
      show ?thesis
      proof (cases ?d)
        case Nil
        then have all: "\<forall>x \<in> set s'. x \<noteq> SPACE" by simp
        then have w: "?w = s'" by simp
        have "last s \<noteq> SPACE" using all Cons False last_in_set [of s'] by auto
        with Cons False show ?thesis by (simp add: words_word squeeze_word [of s'] w Nil)
      next
        case d: (Cons x t)
        have x: "x = SPACE" using dropWhile_head [OF d] by simp
        have split: "s' = ?w @ SPACE # t" using dropWhile_split [OF d] x by simp
        have "length s' = length ?w + Suc (length t)" by (subst split) simp
        then have "length t < length s" using Cons by simp
        then have IH: "squeeze True t =
            join (words t) @ (if words t \<noteq> [] \<and> last t = SPACE then [SPACE] else [])"
          by (rule less)
        have lst: "last s = (if t = [] then SPACE else last t)"
          unfolding Cons by (subst split) simp
        have "words t = [] \<Longrightarrow> t \<noteq> [] \<Longrightarrow> last t = SPACE"
          using last_in_set [of t] unfolding words_eq_Nil by blast
        with IH lst Cons False d x show ?thesis
          by (auto simp: words_word squeeze_word [of s'] join_Cons)
      qed
    qed
  qed simp
qed

subsection \<open>What the loops compute\<close>

lemma parse_cmd_loop_word:
  assumes "0 < k" "k + length (takeWhile (\<lambda>c. c \<noteq> SPACE) s) \<le> length cmd" "cmd ! 0 \<noteq> 0"
  shows "parse_cmd_loop s cmd k =
    Some (take k cmd @ takeWhile (\<lambda>c. c \<noteq> SPACE) s
            @ drop (k + length (takeWhile (\<lambda>c. c \<noteq> SPACE) s)) cmd,
          k + length (takeWhile (\<lambda>c. c \<noteq> SPACE) s), tl (dropWhile (\<lambda>c. c \<noteq> SPACE) s))"
  using assms
proof (induction s arbitrary: cmd k)
  case (Cons c s)
  have "0 < length cmd" using Cons.prems by linarith
  then have "rd cmd 0 = Some (cmd ! 0)" by (simp add: rd_def)
  moreover have "c \<noteq> SPACE \<Longrightarrow> wr cmd (int k) c = Some (cmd[k := c])"
    using Cons.prems by (simp add: wr_nat)
  ultimately show ?case
    using Cons.prems Cons.IH [of "Suc k" "cmd[k := c]"] by (auto simp: take_Suc_update)
qed simp

lemma parse_cmd_loop_start:
  assumes "0 \<notin> set s" "length s \<le> length cmd" "cmd \<noteq> []" "cmd ! 0 = 0"
  shows "parse_cmd_loop s cmd 0 =
    (case words s of
       [] \<Rightarrow> Some (cmd, 0, [])
     | w # ws \<Rightarrow> Some (w @ drop (length w) cmd, length w,
                   tl (dropWhile (\<lambda>c. c \<noteq> SPACE) (dropWhile (\<lambda>c. c = SPACE) s))))"
  using assms
proof (induction s)
  case (Cons c s)
  let ?w = "takeWhile (\<lambda>c. c \<noteq> SPACE) s"
  have r: "rd cmd 0 = Some 0" using Cons.prems by (simp add: rd_def)
  show ?case
  proof (cases "c = SPACE")
    case True
    with r Cons show ?thesis by (simp split: list.splits)
  next
    case False
    obtain d cs where cmd: "cmd = d # cs" using Cons.prems by (cases cmd) auto
    have "length ?w \<le> length s" by (rule length_takeWhile_le)
    then have "parse_cmd_loop s (cmd[0 := c]) (Suc 0) =
        Some ((c # ?w) @ drop (Suc (length ?w)) cmd, Suc (length ?w), tl (dropWhile (\<lambda>c. c \<noteq> SPACE) s))"
      using parse_cmd_loop_word [of "Suc 0" s "cmd[0 := c]"] Cons.prems by (simp add: cmd)
    with False r show ?thesis by (simp add: words_word wr_def cmd)
  qed
qed simp

lemma parse_arg_loop_squeeze:
  assumes "k + length (squeeze (p = SPACE) s) \<le> length args"
  shows "parse_arg_loop s args k p =
    Some (take k args @ squeeze (p = SPACE) s @ drop (k + length (squeeze (p = SPACE) s)) args,
          k + length (squeeze (p = SPACE) s))"
  using assms
proof (induction s arbitrary: args k p)
  case (Cons c s)
  have "k < length args \<Longrightarrow> wr args (int k) v = Some (args[k := v])" for v by (simp add: wr_nat)
  with Cons.prems Cons.IH [of "Suc k" c "args[k := c]"] Cons.IH [of k c args] show ?case
    by (auto simp: take_Suc_update)
qed simp

lemma squeeze_eq_Nil: "squeeze sp s = [] \<longleftrightarrow> (if sp then set s \<subseteq> {SPACE} else s = [])"
  by (induction sp s rule: squeeze.induct) auto

lemma last_squeeze: "squeeze sp s \<noteq> [] \<Longrightarrow> last (squeeze sp s) = SPACE \<longleftrightarrow> last s = SPACE"
proof (induction sp s rule: squeeze.induct)
  case (2 sp c s)
  have "set s \<subseteq> {SPACE} \<Longrightarrow> s \<noteq> [] \<Longrightarrow> last s = SPACE" using last_in_set [of s] by blast
  with 2 show ?case by (auto simp: squeeze_eq_Nil split: if_splits)
qed simp

lemma parse_finish_join:
  assumes "length (squeeze True s) < length args"
    and pref: "take (length (squeeze True s)) args = squeeze True s" and nz: "0 \<notin> set s"
  shows "\<exists>args'. parse_finish pre args (length (squeeze True s)) =
      Some (if words s = [] \<and> pre = SPACE then 0 else pre, args')
    \<and> length args' = length args \<and> 0 \<in> set args' \<and> cstr args' = join (words s)"
proof (cases "words s = []")
  case True
  then have "squeeze True s = []" by (simp add: squeeze_words)
  with True assms(1) show ?thesis
    by (cases args) (auto simp: parse_finish_def wr_def cstr_simps)
next
  case False
  let ?j = "join (words s)"
  have ne: "squeeze True s \<noteq> []" using False by (simp add: squeeze_eq_Nil words_eq_Nil)
  have nzj: "0 \<notin> set ?j" using set_squeeze [of True s] nz by (auto simp: squeeze_words)
  obtain r rs where args: "args = squeeze True s @ r # rs"
    using assms(1) pref by (metis append_take_drop_id drop_eq_Nil linorder_not_le neq_Nil_conv)
  show ?thesis
  proof (cases "last s = SPACE")
    case True
    then have sq: "squeeze True s = ?j @ [SPACE]" using False by (simp add: squeeze_words)
    have "parse_finish pre args (length (squeeze True s)) = Some (pre, ?j @ 0 # 0 # rs)"
      by (simp add: parse_finish_def args sq rd_def wr_def nth_append nat_add_distrib list_update_append)
    with False args sq nzj show ?thesis by (auto simp: cstr_simps)
  next
    case l: False
    then have sq: "squeeze True s = ?j" by (simp add: squeeze_words)
    have nsp: "last ?j \<noteq> SPACE" using last_squeeze [OF ne] l sq by simp
    obtain j' x where j: "?j = j' @ [x]" using ne sq by (metis rev_exhaust)
    have "parse_finish pre args (length (squeeze True s)) = Some (pre, ?j @ 0 # rs)"
      using nsp by (simp add: parse_finish_def args sq j rd_def wr_def nth_append nat_add_distrib
          list_update_append)
    with False args sq nzj show ?thesis by (auto simp: cstr_simps)
  qed
qed

lemma words_Cons_rest:
  assumes "words s = w # ws"
  shows "words (tl (dropWhile (\<lambda>c. c \<noteq> SPACE) (dropWhile (\<lambda>c. c = SPACE) s))) = ws"
    and "set w \<subseteq> set s" and "length w \<le> length s"
proof -
  let ?t = "dropWhile (\<lambda>c. c = SPACE) s"
  have unf: "words s = (if ?t = [] then []
      else takeWhile (\<lambda>c. c \<noteq> SPACE) ?t # words (dropWhile (\<lambda>c. c \<noteq> SPACE) ?t))"
    by (subst words.simps) (simp only: Let_def)
  have "?t \<noteq> []"
  proof
    assume "?t = []"
    with unf assms show False by (simp only: if_True list.distinct simp_thms)
  qed
  with unf assms have eq: "w = takeWhile (\<lambda>c. c \<noteq> SPACE) ?t"
      "ws = words (dropWhile (\<lambda>c. c \<noteq> SPACE) ?t)"
    by (simp_all only: if_False list.inject)
  then show "words (tl (dropWhile (\<lambda>c. c \<noteq> SPACE) ?t)) = ws" by (simp only: words_tl)
  show "set w \<subseteq> set s"
    unfolding eq using set_dropWhile_subset set_takeWhileD by fastforce
  show "length w \<le> length s"
    unfolding eq by (meson length_dropWhile_le length_takeWhile_le order_trans)
qed

lemma parse_args_join:
  assumes "0 \<notin> set r" "length r < length args"
  shows "\<exists>args1 k args'. parse_arg_loop r args 0 SPACE = Some (args1, k)
    \<and> parse_finish pre args1 k = Some (if words r = [] \<and> pre = SPACE then 0 else pre, args')
    \<and> length args' = length args \<and> 0 \<in> set args' \<and> cstr args' = join (words r)"
proof -
  let ?k = "length (squeeze True r)"
  let ?a = "squeeze True r @ drop ?k args"
  have le: "?k \<le> length r" by (rule length_squeeze)
  then have "parse_arg_loop r args 0 SPACE = Some (?a, ?k)"
    using parse_arg_loop_squeeze [of 0 SPACE r args] assms(2) by simp
  moreover have "length ?a = length args" using le assms(2) by simp
  ultimately show ?thesis
    using parse_finish_join [of r ?a pre] assms le by fastforce
qed

text \<open>
  The parser on a command that fits the buffers: the first word in \<open>cmd\<close>, the other words,
  separated by single spaces, in \<open>args\<close>, both terminated.
\<close>

lemma parse_command_words:
  assumes z: "0 \<in> set command" and short: "length (cstr command) < 128"
    and "length cmd = 128" and "length args = 128"
  shows "\<exists>cmd' args'. parse_command cmd args pre command =
      Some (cmd', args', if length (words (cstr command)) \<le> 1 \<and> pre = SPACE then 0 else pre)
    \<and> length cmd' = 128 \<and> 0 \<in> set cmd' \<and> length args' = 128 \<and> 0 \<in> set args'
    \<and> cstr cmd' = (case words (cstr command) of [] \<Rightarrow> [] | w # ws \<Rightarrow> w)
    \<and> cstr args' = join (tl (words (cstr command)))"
proof -
  let ?s = "cstr command"
  have nz: "0 \<notin> set ?s" by (rule cstr_no_zero)
  have len: "strlen command = Some (length ?s)" by (rule strlen_cstr [OF z])
  have tk: "take (length ?s) command = ?s" by (metis append_eq_conv_conj cstr_decomp [OF z])
  obtain c cs where cmd: "cmd = c # cs" using assms(3) by (cases cmd) auto
  have start: "parse_cmd_loop ?s (0 # cs) 0 = (case words ?s of
       [] \<Rightarrow> Some (0 # cs, 0, [])
     | w # ws \<Rightarrow> Some (w @ drop (length w) (0 # cs), length w,
                   tl (dropWhile (\<lambda>c. c \<noteq> SPACE) (dropWhile (\<lambda>c. c = SPACE) ?s))))"
    using nz short assms(3) cmd by (intro parse_cmd_loop_start) auto
  show ?thesis
  proof (cases "words ?s")
    case Nil
    then show ?thesis
      using parse_args_join [of "[]" args pre] start assms(3,4)
      by (auto simp: parse_command_def len tk cmd wr_def cstr_simps)
  next
    case (Cons w ws)
    let ?r = "tl (dropWhile (\<lambda>c. c \<noteq> SPACE) (dropWhile (\<lambda>c. c = SPACE) ?s))"
    have "set ?r \<subseteq> set ?s" 
      by (rule subset_trans [OF set_tl_subset subset_trans [OF set_dropWhile_subset set_dropWhile_subset]])
    moreover have "length ?r \<le> length ?s"
      using length_dropWhile_le [of "\<lambda>c. c \<noteq> SPACE" "dropWhile (\<lambda>c. c = SPACE) ?s"]
        length_dropWhile_le [of "\<lambda>c. c = SPACE" ?s] unfolding length_tl by linarith
    ultimately have "0 \<notin> set ?r" "length ?r < length args" using nz short assms(4) by auto
    then obtain args1 k args' where a: "parse_arg_loop ?r args 0 SPACE = Some (args1, k)"
      "parse_finish pre args1 k = Some (if ws = [] \<and> pre = SPACE then 0 else pre, args')"
      "length args' = 128" "0 \<in> set args'" "cstr args' = join ws"
      using parse_args_join [of ?r args pre] words_Cons_rest(1) [OF Cons] assms(4) by auto
    have w: "0 \<notin> set w" "length w < 128"
      using words_Cons_rest [OF Cons] nz short by auto
    have "wr (w @ drop (length w) (0 # cs)) (int (length w)) 0 = Some (w @ 0 # drop (length w) cs)"
      using w assms(3) cmd append_drop_update [of w "0 # cs" 0] by (simp add: wr_nat)
    then show ?thesis
      using a w start Cons assms(3)
      by (auto simp: parse_command_def len tk cmd wr_def cstr_simps)
  qed
qed

subsection \<open>Property\<close>

lemma words_append_space: "SPACE \<notin> set w \<Longrightarrow> w \<noteq> [] \<Longrightarrow> words (w @ SPACE # s) = w # words s"
proof -
  assume a: "SPACE \<notin> set w" "w \<noteq> []"
  then obtain c v where w: "w = c # v" by (cases w) auto
  have "takeWhile (\<lambda>c. c \<noteq> SPACE) (v @ SPACE # s) = v" "dropWhile (\<lambda>c. c \<noteq> SPACE) (v @ SPACE # s) = SPACE # s"
    using a w by (simp_all add: takeWhile_append dropWhile_append)
  then show ?thesis using a w by (simp add: words_word)
qed

lemma words_single: "SPACE \<notin> set w \<Longrightarrow> w \<noteq> [] \<Longrightarrow> words w = [w]"
proof -
  assume a: "SPACE \<notin> set w" "w \<noteq> []"
  then obtain c v where w: "w = c # v" by (cases w) auto
  have "takeWhile (\<lambda>c. c \<noteq> SPACE) v = v" "dropWhile (\<lambda>c. c \<noteq> SPACE) v = []"
    using a w by (auto simp: takeWhile_eq_all_conv dropWhile_eq_Nil_conv)
  then show ?thesis using a w words_word [of c v] by (metis words_Nil list.set_intros(1))
qed

lemma words_members: "w \<in> set (words s) \<Longrightarrow> SPACE \<notin> set w \<and> w \<noteq> []"
proof (induction s rule: words.induct)
  case (1 s)
  let ?t = "dropWhile (\<lambda>c. c = SPACE) s"
  show ?case
  proof (cases "?t = []")
    case False
    then obtain c t where t: "?t = c # t" by (cases ?t) auto
    then have "c \<noteq> SPACE" by (rule dropWhile_head)
    with 1 t show ?thesis by (auto simp: words.simps [of s] Let_def dest: set_takeWhileD)
  qed (use 1 in \<open>simp add: words.simps [of s]\<close>)
qed

lemma words_join: "\<forall>w \<in> set ws. SPACE \<notin> set w \<and> w \<noteq> [] \<Longrightarrow> words (join ws) = ws"
  by (induction ws rule: join.induct) (auto simp: words_single words_append_space)

text \<open>
  C31: \<open>parse_command\<close> on a command shorter than 128 bytes leaves the first word of the command in the
  128-byte array \<open>cmd\<close> and the other words, separated by single spaces, in the 128-byte array \<open>args\<close>, both
  closed by a NUL; a command of spaces only gives two empty strings. Spaces in front, behind and between
  the words do not matter. Outside the two arrays it touches one byte, the one in front of \<open>args\<close>: when
  the command has no second word and that byte is a space, it becomes zero.
\<close>

theorem parse_command_splits:
  assumes "0 \<in> set command" "length (cstr command) < 128" "length cmd = 128" "length args = 128"
  shows "\<exists>cmd' args' pre'. parse_command cmd args pre command = Some (cmd', args', pre') \<and>
    length cmd' = 128 \<and> 0 \<in> set cmd' \<and> length args' = 128 \<and> 0 \<in> set args' \<and>
    cstr cmd' = (if words (cstr command) = [] then [] else hd (words (cstr command))) \<and>
    cstr args' = join (tl (words (cstr command))) \<and>
    words (cstr cmd' @ SPACE # cstr args') = words (cstr command) \<and>
    pre' = (if length (words (cstr command)) \<le> 1 \<and> pre = SPACE then 0 else pre)"
proof -
  obtain cmd' args' where p: "parse_command cmd args pre command =
        Some (cmd', args', if length (words (cstr command)) \<le> 1 \<and> pre = SPACE then 0 else pre)"
      "length cmd' = 128" "0 \<in> set cmd'" "length args' = 128" "0 \<in> set args'"
      "cstr cmd' = (case words (cstr command) of [] \<Rightarrow> [] | w # ws \<Rightarrow> w)"
      "cstr args' = join (tl (words (cstr command)))"
    using parse_command_words [OF assms, of pre] by blast
  show ?thesis
  proof (cases "words (cstr command)")
    case Nil
    with p show ?thesis by auto
  next
    case (Cons w ws)
    then have "SPACE \<notin> set w \<and> w \<noteq> []" "words (join ws) = ws"
      using words_members [of _ "cstr command"] by (auto intro: words_join)
    with p Cons show ?thesis by (simp add: words_append_space)
  qed
qed

theorem parse_command_splits_witness:
  "\<exists>cmd' args' pre'. parse_command (replicate 128 1) (replicate 128 1) 32 (bytes '' cat  a b '' @ [0]) =
      Some (cmd', args', pre') \<and> cstr cmd' = bytes ''cat'' \<and> cstr args' = bytes ''a b'' \<and> pre' = 32"
  using parse_command_splits [of "bytes '' cat  a b '' @ [0]" "replicate 128 1" "replicate 128 1" 32]
  by (force simp: bytes_def of_char_def cstr_simps words_word)

end
