(* ===== verification/Exec.thy ===== *)
theory Exec
  imports Syscall Scheduler Lib_Parse
begin

text \<open>
  Starting and ending programs: \<open>execute\<close>, \<open>halt\<close> and \<open>boot\<close> of
  \<open>src/student-distrib/syscall.c\<close>. The assembly at their ends is the result: return to the caller,
  enter user mode at an address, or return from the parent's \<open>execute\<close> with the stack and base
  pointer saved there.

  The main lemmas: \<open>execute\<close> appends the new process to the chain of its terminal and loads the
  file's bytes at its address, \<open>halt\<close> removes it and gives the parent its status, and both keep
  the process invariant.
\<close>

datatype 's sys_result = Ret int 's | Iret u32 's | Return_to_parent u32 u32 u32 's

abbreviation PROGRAM_LOAD_VIRT_ADDRESS :: u32 where "PROGRAM_LOAD_VIRT_ADDRESS \<equiv> 0x08048000"
abbreviation ENTRY_POINT_OFFSET :: u32 where "ENTRY_POINT_OFFSET \<equiv> 24"

definition elf_magic :: "u8 list" where "elf_magic = [0x7f, 0x45, 0x4c, 0x46]"

text \<open>The \<open>iret\<close> sequence: interrupts off, the flags with the interrupt bit set, then user mode.\<close>

definition enter_user :: "u32 \<Rightarrow> 'a kstate_scheme \<Rightarrow> 'a kstate_scheme sys_result" where
  "enter_user entry_point s = Iret entry_point (sti (cli s))"

subsection \<open>The phases of execute\<close>

text \<open>Lines "check for valid file and executable"; \<open>None\<close> inside is the return of -1.\<close>

definition find_executable :: "env \<Rightarrow> u8 list \<Rightarrow> 'a kstate_scheme \<Rightarrow> dentry_t option option" where
  "find_executable E cmd s = do {
     (r, d) \<leftarrow> read_dentry_by_name (fs_mem s) (fs_sections s) cmd (uninit_dentry E);
     if r = - 1 then Some None
     else (case read_data (fs_mem s) (fs_sections s) (inode_index d) 0 4 of (n, buf) \<Rightarrow>
       if n = - 1 then Some None
       else do {
         c \<leftarrow> strncmp buf elf_magic 4;
         Some (if c \<noteq> 0 then None else Some d)
       })
   }"

definition alloc_pid :: "'a kstate_scheme \<Rightarrow> nat option" where
  "alloc_pid s = find (\<lambda>i. \<not> processes s ! i) [3..<MAX_NUM_PROCESSES]"

text \<open>The loader: whether all bytes were read, and the state.\<close>

definition load_image :: "layout \<Rightarrow> u32 \<Rightarrow> 'a kstate_scheme \<Rightarrow> (bool \<times> 'a kstate_scheme) option" where
  "load_image L inode s =
     (let bytes_to_read = inode_length (fs_mem s) (fs_sections s) inode
      in case read_data (fs_mem s) (fs_sections s) inode 0 bytes_to_read of (n, bs) \<Rightarrow>
           do {
             s \<leftarrow> store_bytes L PROGRAM_LOAD_VIRT_ADDRESS bs s;
             Some (n = sint bytes_to_read, s)
           })"

text \<open>The entry point; the return value of this read is not checked.\<close>

definition read_entry :: "env \<Rightarrow> u32 \<Rightarrow> 'a kstate_scheme \<Rightarrow> u32" where
  "read_entry E inode s =
     (case read_data (fs_mem s) (fs_sections s) inode ENTRY_POINT_OFFSET 4 of (n, bs) \<Rightarrow>
        case buf_int32 bs of None \<Rightarrow> uninit_entry E | Some e \<Rightarrow> e)"

definition std_fds :: "fd_entry_t list \<Rightarrow> fd_entry_t list" where
  "std_fds fds =
     (let fds = fds[0 := (fds ! 0)\<lparr>fo_jump_table_ptr := Some stdin_jump_table\<rparr>];
          fds = fds[1 := (fds ! 1)\<lparr>fo_jump_table_ptr := Some stdout_jump_table\<rparr>];
          fds = fds[0 := set_active 1 (fds ! 0)];
          fds = fds[1 := set_active 1 (fds ! 1)]
      in take 2 fds @ map (set_active 0) (drop 2 fds))"

definition create_pcb ::
  "env \<Rightarrow> nat \<Rightarrow> nat \<Rightarrow> u32 \<Rightarrow> u8 list \<Rightarrow> 'a kstate_scheme \<Rightarrow> 'a kstate_scheme option" where
  "create_pcb E new_PID prev entry_point args s = do {
     a \<leftarrow> strcpy (pcb_args (pcbs s new_PID)) args;
     let s = upd_pcb new_PID (\<lambda>b. b\<lparr>fd_array := std_fds (fd_array b), pcb_entry := entry_point,
               pcb_args := a, process_id := new_PID, parent_esp := reg_esp E, parent_ebp := reg_ebp E\<rparr>) s;
     let s = (if new_PID < 3 then upd_pcb new_PID (\<lambda>b. b\<lparr>parent_pcb := None\<rparr>) s
              else upd_pcb prev (\<lambda>b. b\<lparr>child_pcb := Some new_PID\<rparr>)
                     (upd_pcb new_PID (\<lambda>b. b\<lparr>parent_pcb := Some prev\<rparr>) s));
     Some (upd_pcb new_PID (\<lambda>b. b\<lparr>child_pcb := None\<rparr>) s)
   }"

text \<open>\<open>exception_test\<close> of \<open>tests.c\<close> has an empty body.\<close>

definition exception_test :: "'a \<Rightarrow> 'a" where "exception_test s = s"

text \<open>From the new process id on: mapping, loading, PCB and context switch.\<close>

definition start_program ::
  "env \<Rightarrow> layout \<Rightarrow> dentry_t \<Rightarrow> u8 list \<Rightarrow> nat \<Rightarrow> 'a kstate_scheme \<Rightarrow> 'a kstate_scheme sys_result option" where
  "start_program E L d args new_PID s = do {
     (r, s1) \<leftarrow> create_user_4mb_page (int new_PID + 2) USER_PD_INDEX s;
     if r \<noteq> 0 then Some (Ret (- 1) (s1\<lparr>processes := (processes s1)[new_PID := False]\<rparr>))
     else do {
       let s2 = reload_cr3 L s1;
       (complete, s3) \<leftarrow> load_image L (inode_index d) s2;
       if \<not> complete
       then do {
           let s4 = s3\<lparr>processes := (processes s3)[new_PID := False]\<rparr>;
           (r, s5) \<leftarrow> create_user_4mb_page (int new_PID + 2) USER_PD_INDEX s4;
           Some (Ret (- 1) (reload_cr3 L s5))
         }
       else do {
           let entry_point = read_entry E (inode_index d) s3;
           prev \<leftarrow> get_current_executing_pcb s3;
           s4 \<leftarrow> create_pcb E new_PID prev entry_point args s3;
           let s5 = (cli s4)\<lparr>tss_esp0 := kernel_esp0 (int new_PID), tss_ss0 := KERNEL_DS\<rparr>;
           Some (enter_user entry_point s5)
         }
     }
   }"

definition execute ::
  "env \<Rightarrow> layout \<Rightarrow> u8 list option \<Rightarrow> 'a kstate_scheme \<Rightarrow> 'a kstate_scheme sys_result option" where
  "execute E L command s =
     (case command of
        None \<Rightarrow> Some (Ret (- 1) s)
      | Some command \<Rightarrow> do {
          (cmd, args, pre) \<leftarrow> parse_command (uninit_cmd E) (uninit_args E) (before_args E) command;
          c \<leftarrow> strncmp cmd (bytes ''exception'' @ [0]) 9;
          let s = (if c = 0 then exception_test s else s);
          exe \<leftarrow> find_executable E cmd s;
          case exe of
            None \<Rightarrow> Some (Ret (- 1) s)
          | Some d \<Rightarrow>
              (case alloc_pid s of
                 None \<Rightarrow> do {
                   (n, s) \<leftarrow> printf (''Process # limit reached'' @ [CHR 0x0A]) [] s;
                   Some (Ret 0 s)
                 }
               | Some new_PID \<Rightarrow>
                   start_program E L d args new_PID (s\<lparr>processes := (processes s)[new_PID := True]\<rparr>))
        })"

subsection \<open>halt\<close>

fun halt_close :: "nat \<Rightarrow> nat list \<Rightarrow> 'a kstate_scheme \<Rightarrow> 'a kstate_scheme option" where
  "halt_close p [] s = Some s"
| "halt_close p (i # is) s =
     (case rd (fd_array (pcbs s p)) (int i) of
        None \<Rightarrow> None
      | Some e \<Rightarrow>
          (case (if fd_flags e = 1 then map_option snd (sys_close (int i) s) else Some s) of
             None \<Rightarrow> None
           | Some s \<Rightarrow>
               halt_close p is (upd_pcb p (upd_fd i (\<lambda>e. e\<lparr>fd_flags := 0, fo_jump_table_ptr := None\<rparr>)) s)))"

definition halt :: "layout \<Rightarrow> u8 \<Rightarrow> 'a kstate_scheme \<Rightarrow> 'a kstate_scheme sys_result option" where
  "halt L status s = do {
     let s = cli s;
     let status' = (if status = 255 then 256 else ucast status);
     p \<leftarrow> get_current_executing_pcb s;
     case parent_pcb (pcbs s p) of
       None \<Rightarrow>
         (let s = s\<lparr>tss_esp0 := kernel_esp0 (int (process_id (pcbs s p))), tss_ss0 := KERNEL_DS\<rparr>
          in Some (enter_user (pcb_entry (pcbs s p)) s))
     | Some q \<Rightarrow> do {
         a \<leftarrow> wr (pcb_args (pcbs s p)) 0 0;
         s \<leftarrow> halt_close p [0..<FD_ARRAY_LEN] (upd_pcb p (\<lambda>b. b\<lparr>pcb_args := a\<rparr>) s);
         (r, s) \<leftarrow> create_user_4mb_page (int (process_id (pcbs s q)) + 2) USER_PD_INDEX s;
         let s = reload_cr3 L s;
         let s = s\<lparr>tss_esp0 := kernel_esp0 (int (process_id (pcbs s q))), tss_ss0 := KERNEL_DS\<rparr>;
         ps \<leftarrow> wr (processes s) (int (process_id (pcbs s p))) False;
         let s = s\<lparr>processes := ps\<rparr>;
         Some (Return_to_parent (parent_esp (pcbs s p)) (parent_ebp (pcbs s p)) status'
                 (upd_pcb q (\<lambda>b. b\<lparr>child_pcb := None\<rparr>) s))
       }
   }"

subsection \<open>boot\<close>

text \<open>The body of the loop over the three shells.\<close>

definition boot_shell ::
  "env \<Rightarrow> layout \<Rightarrow> dentry_t \<Rightarrow> nat \<Rightarrow> u32 \<times> 'a kstate_scheme \<Rightarrow> (u32 \<times> 'a kstate_scheme) option" where
  "boot_shell E L d i = (\<lambda>(entry0, s). do {
     (r, s) \<leftarrow> create_user_4mb_page (int i + 2) USER_PD_INDEX s;
     let s = (reload_cr3 L s)\<lparr>exec_term_id := int i\<rparr>;
     (complete, s) \<leftarrow> load_image L (inode_index d) s;
     let entry_point = read_entry (E\<lparr>uninit_entry := entry0\<rparr>) (inode_index d) s;
     a \<leftarrow> wr (pcb_args (pcbs s i)) 0 0;
     Some (entry_point, upd_pcb i (\<lambda>b. b\<lparr>fd_array := std_fds (fd_array b), pcb_entry := entry_point,
       pcb_args := a, process_id := i, parent_esp := reg_esp E, parent_ebp := reg_ebp E,
       parent_pcb := None, child_pcb := None\<rparr>) s)
   })"

definition boot :: "env \<Rightarrow> layout \<Rightarrow> 'a kstate_scheme \<Rightarrow> 'a kstate_scheme sys_result option" where
  "boot E L s = do {
     s \<leftarrow> init_terminal s;
     let s = s\<lparr>processes := map (\<lambda>_. False) (processes s)\<rparr>;
     (r, d) \<leftarrow> read_dentry_by_name (fs_mem s) (fs_sections s) (bytes ''shell'' @ [0]) (uninit_dentry E);
     x \<leftarrow> boot_shell E L d 0 (uninit_entry E, s);
     y \<leftarrow> boot_shell E L d 1 x;
     (entry_point, s) \<leftarrow> boot_shell E L d 2 y;
     let s = s\<lparr>curr_term_id := 0, exec_term_id := 0\<rparr>;
     (r, s) \<leftarrow> create_user_4mb_page (exec_term_id s + 2) USER_PD_INDEX s;
     let s = reload_cr3 L s;
     let s = s\<lparr>tss_esp0 := kernel_esp0 (exec_term_id s), tss_ss0 := KERNEL_DS\<rparr>;
     ps \<leftarrow> wr (processes s) 0 True;
     let s = init_pit (s\<lparr>processes := ps\<rparr>);
     Some (enter_user entry_point s)
   }"

subsection \<open>What execute accepts\<close>

text \<open>A file is executable when its inode is valid and it begins with the four magic bytes.\<close>

definition is_elf :: "'a kstate_scheme \<Rightarrow> u32 \<Rightarrow> bool" where
  "is_elf s inode \<longleftrightarrow> inode_ok (fs_mem s) (fs_sections s) inode \<and>
     take 4 (contents (fs_mem s) (fs_sections s) inode) = elf_magic"

definition program_file :: "env \<Rightarrow> 'a kstate_scheme \<Rightarrow> u8 list \<Rightarrow> dentry_t option" where
  "program_file E s name =
     (case lookup_name s name of
        None \<Rightarrow> None
      | Some j \<Rightarrow> (let d = dentry_at (fs_mem s) (fs_sections s) j (uninit_dentry E)
                   in if is_elf s (inode_index d) then Some d else None))"

lemma program_file_cong:
  "fs_mem s' = fs_mem s \<Longrightarrow> fs_sections s' = fs_sections s \<Longrightarrow> program_file E s' name = program_file E s name"
  by (simp only: program_file_def lookup_name_def is_elf_def)

lemma elf_prefix_length: "take 4 xs = elf_magic \<Longrightarrow> 4 \<le> length xs"
proof -
  assume "take 4 xs = elf_magic"
  then have "length (take 4 xs) = 4" by (simp only: elf_magic_def) simp
  then show ?thesis by simp
qed

lemma strncmp_elf:
  assumes "length buf = 4"
  shows "\<exists>c. strncmp buf elf_magic 4 = Some c \<and> (c = 0 \<longleftrightarrow> buf = elf_magic)"
proof -
  have "take 4 (cstr buf) = elf_magic \<longleftrightarrow> buf = elf_magic"
  proof
    assume "take 4 (cstr buf) = elf_magic"
    then have "4 \<le> length (cstr buf)" by (rule elf_prefix_length)
    then have "cstr buf = buf"
      using assms takeWhile_eq_take [of "\<lambda>c. c \<noteq> 0" buf] unfolding cstr_def by (metis take_all)
    then show "buf = elf_magic" using \<open>take 4 (cstr buf) = elf_magic\<close> assms by simp
  qed (simp add: elf_magic_def cstr_simps)
  moreover have "take 4 (cstr elf_magic) = elf_magic" by (simp add: elf_magic_def cstr_simps)
  ultimately show ?thesis
    using strncmp_defined [of 4 buf elf_magic] strncmp_zero_iff [of 4 buf elf_magic] assms
    by (auto simp: elf_magic_def)
qed

lemma find_executable_eq:
  assumes "env_ok E" "0 \<in> set cmd"
  shows "find_executable E cmd s = Some (program_file E s cmd)"
proof (cases "lookup_name s cmd")
  case None
  then show ?thesis
    using lookup_dentry [OF assms, of s] by (simp add: find_executable_def program_file_def)
next
  case (Some j)
  let ?d = "dentry_at (fs_mem s) (fs_sections s) j (uninit_dentry E)"
  let ?c = "contents (fs_mem s) (fs_sections s) (inode_index ?d)"
  show ?thesis
  proof (cases "inode_ok (fs_mem s) (fs_sections s) (inode_index ?d) \<and> 4 \<le> length ?c")
    case True
    then have rd: "read_data (fs_mem s) (fs_sections s) (inode_index ?d) 0 4 = (4, take 4 ?c)"
      using read_data_contents [of "fs_mem s" "fs_sections s" "inode_index ?d" 0 4] by simp
    have "length (take 4 ?c) = 4" using True by simp
    from strncmp_elf [OF this] show ?thesis
      using lookup_dentry [OF assms, of s] Some rd True
      by (auto simp: find_executable_def program_file_def is_elf_def Let_def)
  next
    case False
    then have rd: "read_data (fs_mem s) (fs_sections s) (inode_index ?d) 0 4 = (- 1, [])"
      by (auto simp: read_data_def inode_ok_def word_less_nat_alt word_le_nat_alt)
    have "\<not> is_elf s (inode_index ?d)"
      using False elf_prefix_length [of ?c] by (auto simp: is_elf_def)
    then show ?thesis
      using lookup_dentry [OF assms, of s] Some rd
      by (simp add: find_executable_def program_file_def Let_def)
  qed
qed

text \<open>The three early returns of \<open>execute\<close>.\<close>

definition first_word :: "u8 list \<Rightarrow> u8 list" where
  "first_word command = (case words (cstr command) of [] \<Rightarrow> [] | w # ws \<Rightarrow> w)"

definition other_words :: "u8 list \<Rightarrow> u8 list" where
  "other_words command = join (tl (words (cstr command)))"

lemma lookup_name_cstr: "cstr a = cstr b \<Longrightarrow> lookup_name s a = lookup_name s b"
  by (simp add: lookup_name_def)

lemma execute_parsed:
  assumes "env_ok E" "0 \<in> set command" "length (cstr command) < 128"
  obtains args where "length args = 128" "0 \<in> set args" "cstr args = other_words command"
    "execute E L (Some command) s =
       (case program_file E s (first_word command) of
          None \<Rightarrow> Some (Ret (- 1) s)
        | Some d \<Rightarrow>
            (case alloc_pid s of
               None \<Rightarrow> do {
                 (n, s) \<leftarrow> printf (''Process # limit reached'' @ [CHR 0x0A]) [] s;
                 Some (Ret 0 s)
               }
             | Some new_PID \<Rightarrow>
                 start_program E L d args new_PID (s\<lparr>processes := (processes s)[new_PID := True]\<rparr>)))"
proof -
  obtain cmd args pre where p: "parse_command (uninit_cmd E) (uninit_args E) (before_args E) command =
      Some (cmd, args, pre)" and c: "length cmd = 128" "0 \<in> set cmd" "cstr cmd = first_word command"
    and a: "length args = 128" "0 \<in> set args" "cstr args = other_words command"
    using parse_command_words [OF assms(2,3), of "uninit_cmd E" "uninit_args E" "before_args E"] assms(1)
    by (auto simp: env_ok_def first_word_def other_words_def)
  obtain k where k: "strncmp cmd (bytes ''exception'' @ [0]) 9 = Some k"
    using strncmp_defined [of 9 cmd "bytes ''exception'' @ [0]"] c(2) by auto
  have pf: "program_file E s cmd = program_file E s (first_word command)"
    using lookup_name_cstr [of cmd "first_word command" s] c(3) cstr_no_zero [of cmd]
    by (simp add: program_file_def cstr_id)
  show ?thesis
    by (rule that [OF a])
      (simp add: execute_def p k exception_test_def find_executable_eq [OF assms(1) c(2)] pf)
qed

subsection \<open>Starting the program\<close>

definition entry_word :: "u8 list \<Rightarrow> u32" where
  "entry_word file = the (buf_int32 (take 4 (drop 24 file)))"

lemma load_address: "PROGRAM_LOAD_VIRT_ADDRESS = user_va 0x48000"
  by (simp add: user_va_def)

lemma load_image_ok:
  assumes "program_frame L s r" "2 \<le> r" "r < 1024" "inode_ok (fs_mem s) (fs_sections s) inode"
    and "length (contents (fs_mem s) (fs_sections s) inode) \<le> 0x3B8000"
  shows "load_image L inode s = Some (True, s\<lparr>user_mem :=
    overlay r 0x48000 (contents (fs_mem s) (fs_sections s) inode) (user_mem s)\<rparr>)"
proof -
  let ?c = "contents (fs_mem s) (fs_sections s) inode" and ?n = "inode_length (fs_mem s) (fs_sections s) inode"
  have "read_data (fs_mem s) (fs_sections s) inode 0 ?n = (int (unat ?n), ?c)"
    using read_data_contents [OF assms(4), of 0 ?n] by simp
  moreover have "sint ?n = int (unat ?n)" using assms(5) by (intro sint_small) simp
  moreover have "store_bytes L (user_va 0x48000) ?c s = Some (s\<lparr>user_mem := overlay r 0x48000 ?c (user_mem s)\<rparr>)"
    using assms(5) by (intro store_bytes_overlay [OF assms(1-3)]) simp
  ultimately show ?thesis by (simp only: load_image_def Let_def load_address) simp
qed

lemma read_entry_ok:
  assumes "inode_ok (fs_mem s) (fs_sections s) inode" "28 \<le> length (contents (fs_mem s) (fs_sections s) inode)"
  shows "read_entry E inode s = entry_word (contents (fs_mem s) (fs_sections s) inode)"
proof -
  let ?c = "contents (fs_mem s) (fs_sections s) inode"
  have "read_data (fs_mem s) (fs_sections s) inode 24 4 = (4, take 4 (drop 24 ?c))"
    using read_data_contents [OF assms(1), of 24 4] assms(2) by simp
  moreover have "\<exists>e. buf_int32 (take 4 (drop 24 ?c)) = Some e"
    using assms(2) by (simp add: buf_int32_def rd_def)
  ultimately show ?thesis by (auto simp: read_entry_def entry_word_def)
qed

lemma std_fds_entries:
  assumes "length fds = FD_ARRAY_LEN"
  shows "length (std_fds fds) = FD_ARRAY_LEN"
    and "fo_jump_table_ptr (std_fds fds ! 0) = Some stdin_jump_table" "fd_active (std_fds fds ! 0)"
    and "fo_jump_table_ptr (std_fds fds ! 1) = Some stdout_jump_table" "fd_active (std_fds fds ! 1)"
    and "\<And>i. 2 \<le> i \<Longrightarrow> i < FD_ARRAY_LEN \<Longrightarrow> \<not> fd_active (std_fds fds ! i)"
  using assms
  by (auto simp: std_fds_def Let_def nth_append fd_active_set_active nth_list_update set_active_def
      fd_active_def field_simps')

lemma std_fds_open:
  assumes "length fds = FD_ARRAY_LEN"
  shows "map (\<lambda>e. if fd_active e then Some (fo_jump_table_ptr e) else None) (std_fds fds) =
    [Some (Some stdin_jump_table), Some (Some stdout_jump_table)] @ replicate 6 None"
proof -
  note f = std_fds_entries [OF assms]
  let ?o = "[Some (Some stdin_jump_table), Some (Some stdout_jump_table)] @ replicate 6 None"
  have "(if fd_active (std_fds fds ! i) then Some (fo_jump_table_ptr (std_fds fds ! i)) else None) = ?o ! i"
    if "i < FD_ARRAY_LEN" for i
  proof -
    consider "i = 0" | "i = 1" | "2 \<le> i" by linarith
    then show ?thesis
    proof cases
      case 3
      then have "?o ! i = None" using that by (simp add: nth_append)
      then show ?thesis using f(6) [OF 3 that] by simp
    qed (use f in simp_all)
  qed
  then show ?thesis using f(1) by (intro nth_equalityI) simp_all
qed

lemma create_pcb_ok:
  assumes "3 \<le> new" "prev \<noteq> new" "0 \<in> set args" "length (cstr args) < 128" "pcb_shape (pcbs s new)"
  obtains nb where "create_pcb E new prev entry_point args s =
      Some (s\<lparr>pcbs := (pcbs s)(prev := (pcbs s prev)\<lparr>child_pcb := Some new\<rparr>, new := nb)\<rparr>)"
    "parent_pcb nb = Some prev" "child_pcb nb = None" "process_id nb = new" "pcb_shape nb"
    "cstr (pcb_args nb) = cstr args" "pcb_entry nb = entry_point"
    "parent_esp nb = reg_esp E" "parent_ebp nb = reg_ebp E" "fd_array nb = std_fds (fd_array (pcbs s new))"
proof -
  let ?a = "cstr args @ 0 # drop (Suc (length (cstr args))) (pcb_args (pcbs s new))"
  let ?nb = "(pcbs s new)\<lparr>fd_array := std_fds (fd_array (pcbs s new)), pcb_entry := entry_point,
      pcb_args := ?a, process_id := new, parent_esp := reg_esp E, parent_ebp := reg_ebp E,
      parent_pcb := Some prev, child_pcb := None\<rparr>"
  have "strcpy (pcb_args (pcbs s new)) args = Some ?a"
    using assms(3-5) by (intro strcpy_eq) (simp_all add: pcb_shape_def)
  then have "create_pcb E new prev entry_point args s =
      Some (s\<lparr>pcbs := (pcbs s)(prev := (pcbs s prev)\<lparr>child_pcb := Some new\<rparr>, new := ?nb)\<rparr>)"
    using assms(1,2) by (simp add: create_pcb_def upd_pcb_def Let_def fun_upd_twist)
  then show ?thesis
  proof (rule that)
    show "pcb_shape ?nb"
      using assms(4,5) std_fds_entries(1) [of "fd_array (pcbs s new)"] by (auto simp: pcb_shape_def)
    show "cstr (pcb_args ?nb) = cstr args" using cstr_no_zero [of args] by (simp add: cstr_append_zero)
  qed simp_all
qed

text \<open>
  The result of a successful start: the new process is the running one of its terminal, holds the
  arguments and the caller's registers, and its page holds the file.
\<close>

definition started :: "env \<Rightarrow> layout \<Rightarrow> nat \<Rightarrow> nat \<Rightarrow> u32 \<Rightarrow> u8 list \<Rightarrow> (nat \<Rightarrow> nat list) \<Rightarrow>
    'a kstate_scheme \<Rightarrow> 'a kstate_scheme \<Rightarrow> bool" where
  "started E L new e inode argtext cs s s' \<longleftrightarrow>
     proc_chains (cs(e := cs e @ [new])) s' \<and> tty_ids_ok s' \<and> exec_term_id s' = exec_term_id s \<and>
     running s' = new \<and> program_frame L s' (int new + 2) \<and>
     (\<forall>i < length (contents (fs_mem s) (fs_sections s) inode).
        user_load L s' (PROGRAM_LOAD_VIRT_ADDRESS + of_nat i) =
          Some (contents (fs_mem s) (fs_sections s) inode ! i)) \<and>
     (\<forall>pa. drop_bit 22 pa \<noteq> word_of_int (int new + 2) \<longrightarrow> user_mem s' pa = user_mem s pa) \<and>
     cstr (pcb_args (pcbs s' new)) = argtext \<and>
     parent_esp (pcbs s' new) = reg_esp E \<and> parent_ebp (pcbs s' new) = reg_ebp E \<and>
     parent_pcb (pcbs s' new) = Some (last (cs e)) \<and>
     fd_array (pcbs s' new) = std_fds (fd_array (pcbs s new)) \<and>
     length (page_directory s') = 1024 \<and> fs_mem s' = fs_mem s \<and> fs_sections s' = fs_sections s \<and>
     tss_esp0 s' = kernel_esp0 (int new) \<and> iflag s' \<and> same_tty s s' \<and>
     processes s' = (processes s)[new := True] \<and>
     (\<forall>p. p \<noteq> new \<longrightarrow> pcbs s' p = (if p = last (cs e) then (pcbs s p)\<lparr>child_pcb := Some new\<rparr> else pcbs s p))"

lemma start_program_ok:
  assumes inv: "proc_chains cs s" "tty_ids_ok s" and pd: "length (page_directory s) = 1024"
    and new: "new \<notin> set (members cs)" "3 \<le> new" "new < 7"
    and args: "0 \<in> set args" "length (cstr args) < 128"
    and img: "inode_ok (fs_mem s) (fs_sections s) (inode_index d)"
      "28 \<le> length (contents (fs_mem s) (fs_sections s) (inode_index d))"
      "length (contents (fs_mem s) (fs_sections s) (inode_index d)) \<le> 0x3B8000"
  shows "\<exists>s'. start_program E L d args new (s\<lparr>processes := (processes s)[new := True]\<rparr>) =
      Some (Iret (entry_word (contents (fs_mem s) (fs_sections s) (inode_index d))) s') \<and>
    started E L new (nat (exec_term_id s)) (inode_index d) (cstr args) cs s s'"
proof -
  let ?c = "contents (fs_mem s) (fs_sections s) (inode_index d)" and ?e = "nat (exec_term_id s)"
  let ?r = "int new + 2" and ?l = "last (cs (nat (exec_term_id s)))"
  let ?s0 = "s\<lparr>processes := (processes s)[new := True]\<rparr>"
  have e: "?e < 3" using inv(2) by (auto simp: tty_ids_ok_def)
  obtain dd where s1: "create_user_4mb_page ?r 32 ?s0 =
      Some (0, ?s0\<lparr>page_directory := (page_directory s)[32 := dd]\<rparr>)"
    using create_user_4mb_page_eq [of ?s0 ?r 32] pd new by simp
  let ?s2 = "reload_cr3 L (?s0\<lparr>page_directory := (page_directory s)[32 := dd]\<rparr>)"
  have fr1: "program_frame L (?s0\<lparr>page_directory := (page_directory s)[32 := dd]\<rparr>) ?r"
    using create_user_4mb_page_frame [OF _ _ _ s1] pd new by simp
  then have fr: "program_frame L ?s2 ?r"
    using translate_cong [of ?s2 "?s0\<lparr>page_directory := (page_directory s)[32 := dd]\<rparr>" L]
    by (simp add: program_frame_def reload_cr3_def)
  let ?s3 = "?s2\<lparr>user_mem := overlay ?r 0x48000 ?c (user_mem s)\<rparr>"
  have s3: "load_image L (inode_index d) ?s2 = Some (True, ?s3)"
    using load_image_ok [OF fr, of "inode_index d"] new img by (simp add: reload_cr3_def)
  have entry: "read_entry E (inode_index d) ?s3 = entry_word ?c"
    using read_entry_ok [of ?s3 "inode_index d" E] img by (simp add: reload_cr3_def)
  have prev: "get_current_executing_pcb ?s3 = Some ?l"
    using executing_pcb [OF inv] by (simp add: get_current_executing_pcb_def reload_cr3_def)
  have ln: "?l \<noteq> new"
    using executing_member(1) [OF inv(1) e] chain_in_members [OF e, of cs] new(1) by auto
  have "pcb_shape (pcbs ?s3 new)" using inv(1) by (simp add: proc_chains_def reload_cr3_def)
  from create_pcb_ok [OF new(2) ln args this] obtain nb where
    s4: "create_pcb E new ?l (entry_word ?c) args ?s3 =
      Some (?s3\<lparr>pcbs := (pcbs ?s3)(?l := (pcbs ?s3 ?l)\<lparr>child_pcb := Some new\<rparr>, new := nb)\<rparr>)"
    and nb: "parent_pcb nb = Some ?l" "child_pcb nb = None" "process_id nb = new" "pcb_shape nb"
      "cstr (pcb_args nb) = cstr args" "pcb_entry nb = entry_word ?c"
      "parent_esp nb = reg_esp E" "parent_ebp nb = reg_ebp E" "fd_array nb = std_fds (fd_array (pcbs ?s3 new))" .
  let ?s4 = "?s3\<lparr>pcbs := (pcbs ?s3)(?l := (pcbs ?s3 ?l)\<lparr>child_pcb := Some new\<rparr>, new := nb)\<rparr>"
  let ?s' = "sti (cli ((cli ?s4)\<lparr>tss_esp0 := kernel_esp0 (int new), tss_ss0 := KERNEL_DS\<rparr>))"
  have run: "start_program E L d args new ?s0 = Some (Iret (entry_word ?c) ?s')"
    using s1 s3 entry prev s4 by (simp add: start_program_def enter_user_def)
  have sel: "processes ?s' = (processes s)[new := True]" "exec_term_id ?s' = exec_term_id s"
      "pcbs ?s' = (pcbs s)(?l := (pcbs s ?l)\<lparr>child_pcb := Some new\<rparr>, new := nb)"
      "user_mem ?s' = overlay ?r 0x48000 ?c (user_mem s)" "translate L ?s' = translate L ?s2"
      "tss_esp0 ?s' = kernel_esp0 (int new)" "iflag ?s'" "length (page_directory ?s') = 1024"
      "fs_mem ?s' = fs_mem s" "fs_sections ?s' = fs_sections s" "tty_ids_ok ?s'"
    using translate_cong [of ?s' ?s2 L] pd inv(2)
    by (simp_all add: cli_def sti_def reload_cr3_def tty_ids_ok_def)
  have ch: "proc_chains (cs(?e := cs ?e @ [new])) ?s'"
    by (rule proc_chains_extend [OF inv(1) e new sel(1,3) nb(1-4)])
  have run': "running ?s' = new"
    using executing_pcb [OF ch sel(11)] sel(2) by (simp add: running_def)
  have ld: "user_load L ?s' (PROGRAM_LOAD_VIRT_ADDRESS + of_nat i) = Some (?c ! i)" if "i < length ?c" for i
  proof -
    have "user_load L ?s3 (user_va (0x48000 + i)) = Some (?c ! i)"
      using user_load_overlay [OF fr, of "0x48000" i ?c "user_mem s"] new img(3) that by simp
    moreover have "translate L ?s3 = translate L ?s2" by (rule translate_cong) simp_all
    ultimately show ?thesis using sel(4,5) by (simp add: user_load_def user_va_def)
  qed
  have "program_frame L ?s' ?r" using fr sel(5) by (simp add: program_frame_def)
  moreover have "user_mem ?s' pa = user_mem s pa" if "drop_bit 22 pa \<noteq> word_of_int ?r" for pa
    using overlay_other_frame [OF that] sel(4) by simp
  moreover have "same_tty s ?s'" by (simp add: same_tty_def tty.defs cli_def sti_def reload_cr3_def)
  ultimately have "started E L new ?e (inode_index d) (cstr args) cs s ?s'"
    unfolding started_def using ch sel run' ld nb by (simp add: reload_cr3_def)
  with run show ?thesis by blast
qed

lemma alloc_pid_free:
  assumes "proc_chains cs s" "alloc_pid s = Some new"
  shows "new \<notin> set (members cs)" "3 \<le> new" "new < 7"
proof -
  have f: "new \<in> set [3..<7]" "\<not> processes s ! new"
    using find_in_set [OF assms(2) [unfolded alloc_pid_def]] by (simp_all del: upt_rec_numeral)
  then show r: "3 \<le> new" "new < 7" by (simp_all del: upt_rec_numeral)
  show "new \<notin> set (members cs)"
    using f(2) r assms(1) unfolding proc_chains_def by blast
qed

lemma execute_ok:
  assumes "env_ok E" "proc_chains cs s" "tty_ids_ok s" "length (page_directory s) = 1024"
    and "0 \<in> set command" "length (cstr command) < 128"
    and "program_file E s (first_word command) = Some d" "alloc_pid s = Some new"
    and "28 \<le> length (contents (fs_mem s) (fs_sections s) (inode_index d))"
      "length (contents (fs_mem s) (fs_sections s) (inode_index d)) \<le> 0x3B8000"
  shows "\<exists>s'. execute E L (Some command) s =
      Some (Iret (entry_word (contents (fs_mem s) (fs_sections s) (inode_index d))) s') \<and>
    started E L new (nat (exec_term_id s)) (inode_index d) (other_words command) cs s s'"
proof -
  obtain args where a: "length args = 128" "0 \<in> set args" "cstr args = other_words command"
    and ex: "execute E L (Some command) s =
       (case program_file E s (first_word command) of
          None \<Rightarrow> Some (Ret (- 1) s)
        | Some d \<Rightarrow>
            (case alloc_pid s of
               None \<Rightarrow> do {
                 (n, s) \<leftarrow> printf (''Process # limit reached'' @ [CHR 0x0A]) [] s;
                 Some (Ret 0 s)
               }
             | Some new_PID \<Rightarrow>
                 start_program E L d args new_PID (s\<lparr>processes := (processes s)[new_PID := True]\<rparr>)))"
    using execute_parsed [OF assms(1,5,6)] .
  have "inode_ok (fs_mem s) (fs_sections s) (inode_index d)"
    using assms(7) by (auto simp: program_file_def is_elf_def Let_def split: option.splits if_splits)
  then show ?thesis
    using start_program_ok [OF assms(2-4) alloc_pid_free [OF assms(2,8)] a(2) _ _ assms(9,10), of E L]
      cstr_less_length [OF a(2)] a(1,3) ex assms(7,8) by simp
qed

subsection \<open>halt returns to the parent\<close>

definition closed_fd :: "fd_entry_t \<Rightarrow> fd_entry_t" where
  "closed_fd e = e\<lparr>fd_flags := 0, fo_jump_table_ptr := None\<rparr>"

lemma closed_fd_set_active: "closed_fd (set_active b e) = closed_fd e"
  by (simp add: closed_fd_def set_active_def)

lemma sys_close_cases:
  assumes "fd_ok s"
  shows "\<exists>r. sys_close (int i) s = Some (r, s) \<or>
    (i < FD_ARRAY_LEN \<and> sys_close (int i) s = Some (r, upd_pcb (running s) (upd_fd i (set_active 0)) s))"
proof (cases "2 \<le> i \<and> fd_view s i \<noteq> None")
  case True
  moreover have "i < FD_ARRAY_LEN"
    using True running_shape [OF assms, of "running s"] by (auto simp: fd_view_def pcb_shape_def Let_def split: if_splits)
  ultimately show ?thesis using sys_close_eq [OF assms, of i] by auto
next
  case False
  then have "int i < 2 \<or> fd_view s (nat (int i)) = None" by (cases "fd_view s i") auto
  then show ?thesis using sys_close_error [OF assms] by blast
qed

lemma halt_close_step:
  assumes "fd_ok s" "running s = p" "i < FD_ARRAY_LEN"
  shows "halt_close p (i # is) s = halt_close p is (upd_pcb p (upd_fd i closed_fd) s)"
proof -
  have l: "length (fd_array (pcbs s p)) = FD_ARRAY_LEN" using running_shape [OF assms(1)] by (simp add: pcb_shape_def)
  have twice: "upd_pcb p (upd_fd i closed_fd) (upd_pcb p (upd_fd i (set_active 0)) s) = upd_pcb p (upd_fd i closed_fd) s"
    using l assms(3) by (simp add: upd_pcb_def upd_fd_def closed_fd_set_active)
  show ?thesis
    using sys_close_cases [OF assms(1), of i] l assms(2,3) twice
    by (auto simp: rd_nat closed_fd_def [abs_def])
qed

lemma halt_close_fold:
  assumes "fd_ok s" "running s = p" "\<forall>i \<in> set is. i < FD_ARRAY_LEN"
  shows "halt_close p is s = Some (fold (\<lambda>i. upd_pcb p (upd_fd i closed_fd)) is s)"
  using assms
proof (induction "is" arbitrary: s)
  case (Cons i "is")
  have "fd_ok (upd_pcb p (upd_fd i closed_fd) s)" "running (upd_pcb p (upd_fd i closed_fd) s) = p"
    using fd_ok_upd [OF Cons.prems(1), of "upd_fd i closed_fd" p] Cons.prems(2)
    by (simp_all add: pcb_shape_upd_fd)
  with Cons halt_close_step [OF Cons.prems(1,2), of i "is"] show ?case by simp
qed simp

lemma fold_closed_fds:
  "n \<le> length (fd_array (pcbs s p)) \<Longrightarrow>
     fold (\<lambda>i. upd_pcb p (upd_fd i closed_fd)) [0..<n] s =
     upd_pcb p (\<lambda>b. b\<lparr>fd_array := map closed_fd (take n (fd_array b)) @ drop n (fd_array b)\<rparr>) s"
proof (induction n)
  case (Suc n)
  let ?l = "fd_array (pcbs s p)"
  have "(map closed_fd (take n ?l) @ drop n ?l)[n := closed_fd ((map closed_fd (take n ?l) @ drop n ?l) ! n)] =
      map closed_fd (take (Suc n) ?l) @ drop (Suc n) ?l"
    using Suc.prems append_drop_update [of "map closed_fd (take n ?l)" ?l] 
    by (simp add: take_Suc_conv_app_nth nth_append Cons_nth_drop_Suc [symmetric] min_def list_update_append)
  with Suc show ?case by (simp add: upd_pcb_def upd_fd_def)
qed (simp add: upd_pcb_def)

lemma halt_close_all:
  assumes "fd_ok s" "running s = p"
  shows "halt_close p [0..<FD_ARRAY_LEN] s =
    Some (upd_pcb p (\<lambda>b. b\<lparr>fd_array := map closed_fd (fd_array (pcbs s p))\<rparr>) s)"
proof -
  have l: "length (fd_array (pcbs s p)) = FD_ARRAY_LEN"
    using running_shape [OF assms(1)] by (simp add: pcb_shape_def)
  have "halt_close p [0..<FD_ARRAY_LEN] s = Some (fold (\<lambda>i. upd_pcb p (upd_fd i closed_fd)) [0..<FD_ARRAY_LEN] s)"
    by (rule halt_close_fold [OF assms]) (simp del: upt_rec_numeral)
  also have "\<dots> = Some (upd_pcb p (\<lambda>b. b\<lparr>fd_array := map closed_fd (fd_array (pcbs s p))\<rparr>) s)"
    using fold_closed_fds [of FD_ARRAY_LEN s p] l by (simp add: upd_pcb_def del: upt_rec_numeral)
  finally show ?thesis .
qed

text \<open>The status the parent's \<open>execute\<close> returns.\<close>

definition exit_status :: "u8 \<Rightarrow> u32" where
  "exit_status status = (if status = 255 then 256 else ucast status)"

lemma halt_child:
  assumes inv: "proc_chains cs s" "tty_ids_ok s" and pd: "length (page_directory s) = 1024"
    and chn: "cs (nat (exec_term_id s)) = ps @ [q, c]"
  shows "\<exists>s'. halt L status s =
      Some (Return_to_parent (parent_esp (pcbs s c)) (parent_ebp (pcbs s c)) (exit_status status) s') \<and>
    proc_chains (cs(nat (exec_term_id s) := ps @ [q])) s' \<and> tty_ids_ok s' \<and>
    exec_term_id s' = exec_term_id s \<and> running s' = q \<and> program_frame L s' (int q + 2) \<and>
    user_mem s' = user_mem s \<and> \<not> processes s' ! c \<and>
    (\<forall>e \<in> set (fd_array (pcbs s' c)). \<not> fd_active e) \<and> tss_esp0 s' = kernel_esp0 (int q) \<and>
    processes s' = (processes s)[c := False] \<and> (paging_inv L s \<longrightarrow> paging_inv L s') \<and>
    same_tty s s' \<and> fs_mem s' = fs_mem s \<and> fs_sections s' = fs_sections s \<and>
    (\<forall>p. p \<noteq> c \<longrightarrow> pcbs s' p = (if p = q then (pcbs s p)\<lparr>child_pcb := None\<rparr> else pcbs s p))"
proof -
  let ?e = "nat (exec_term_id s)" and ?s = "cli s"
  have e: "?e < 3" using inv(2) by (auto simp: tty_ids_ok_def)
  have inv': "proc_chains cs ?s" "tty_ids_ok ?s"
    using inv by (simp_all add: cli_def proc_chains_def tty_ids_ok_def)
  have cur: "get_current_executing_pcb ?s = Some c"
    using executing_pcb [OF inv'] chn by (simp add: cli_def)
  have mem: "q \<in> set (members cs)" "c \<in> set (members cs)"
    using chain_in_members [OF e, of cs] chn by auto
  then have ids: "process_id (pcbs s q) = q" "process_id (pcbs s c) = c" "q < 7" "c < 7"
    using inv(1) unfolding proc_chains_def by blast+
  have qc: "q \<noteq> c" using chain_distinct [of cs ?e] inv(1) e chn by (simp add: proc_chains_def)
  have chs: "chain (pcbs s) (ps @ [q, c])" using inv(1) e chn by (metis proc_chains_def)
  note par = chain_last_parent [OF chs]
  have sh: "pcb_shape (pcbs s p)" for p using inv(1) by (simp add: proc_chains_def)
  let ?a = "(pcb_args (pcbs s c))[0 := 0]"
  have wa: "wr (pcb_args (pcbs ?s c)) 0 0 = Some ?a" using sh [of c] by (simp add: cli_def wr_def pcb_shape_def)
  let ?s1 = "upd_pcb c (\<lambda>b. b\<lparr>pcb_args := ?a\<rparr>) ?s"
  have ok: "fd_ok ?s" "running ?s = c" using inv' cur by (auto simp: fd_ok_def proc_inv_def running_def)
  have la: "length ?a = 128" using sh [of c] by (simp add: pcb_shape_def)
  have ok1: "fd_ok ?s1" "running ?s1 = c"
    using fd_ok_upd [OF ok(1), of "\<lambda>b. b\<lparr>pcb_args := ?a\<rparr>" c] ok(2) la by (simp_all add: pcb_shape_def)
  let ?fds = "map closed_fd (fd_array (pcbs s c))"
  let ?s2 = "upd_pcb c (\<lambda>b. b\<lparr>fd_array := ?fds\<rparr>) ?s1"
  have s2: "halt_close c [0..<FD_ARRAY_LEN] ?s1 = Some ?s2"
    using halt_close_all [OF ok1] by (simp add: upd_pcb_def cli_def del: upt_rec_numeral)
  have pd2: "length (page_directory ?s2) = 1024" using pd by (simp add: upd_pcb_def cli_def)
  obtain dd where s3: "create_user_4mb_page (int q + 2) 32 ?s2 =
      Some (0, ?s2\<lparr>page_directory := (page_directory ?s2)[32 := dd]\<rparr>)"
    using create_user_4mb_page_eq [OF pd2, of "int q + 2" 32] ids(3) by simp
  let ?s3 = "?s2\<lparr>page_directory := (page_directory ?s2)[32 := dd]\<rparr>"
  have fr: "program_frame L ?s3 (int q + 2)"
    using create_user_4mb_page_frame(1) [OF pd2 _ _ s3] ids(3) by simp
  let ?s4 = "(reload_cr3 L ?s3)\<lparr>tss_esp0 := kernel_esp0 (int q), tss_ss0 := KERNEL_DS,
      processes := (processes s)[c := False]\<rparr>"
  let ?s' = "upd_pcb q (\<lambda>b. b\<lparr>child_pcb := None\<rparr>) ?s4"
  have wp: "wr (processes s) (int c) False = Some ((processes s)[c := False])"
    using ids(4) inv(1) by (simp add: wr_nat proc_chains_def)
  have run: "halt L status s =
      Some (Return_to_parent (parent_esp (pcbs s c)) (parent_ebp (pcbs s c)) (exit_status status) ?s')"
    using cur par wa s2 s3 ids(1,2) qc wp
    by (simp add: halt_def exit_status_def cli_def upd_pcb_def reload_cr3_def Let_def del: upt_rec_numeral)
  have sel: "processes ?s' = (processes s)[c := False]" "exec_term_id ?s' = exec_term_id s" "tty_ids_ok ?s'"
      "pcbs ?s' = (pcbs s)(c := (pcbs s c)\<lparr>pcb_args := ?a, fd_array := ?fds\<rparr>,
         q := (pcbs s q)\<lparr>child_pcb := None\<rparr>)"
      "user_mem ?s' = user_mem s" "tss_esp0 ?s' = kernel_esp0 (int q)"
    using inv(2) qc by (simp_all add: upd_pcb_def reload_cr3_def cli_def tty_ids_ok_def fun_upd_twist)
  have "translate L ?s' = translate L ?s3" by (rule translate_cong) (simp_all add: upd_pcb_def reload_cr3_def)
  then have fr': "program_frame L ?s' (int q + 2)" using fr by (simp add: program_frame_def)
  have ch: "proc_chains (cs(?e := ps @ [q])) ?s'"
    by (rule proc_chains_shrink [OF inv(1) e chn sel(1)]) (use sh la qc in \<open>auto simp: sel(4) pcb_shape_def\<close>)
  have "running ?s' = q" using executing_pcb [OF ch sel(3)] sel(2) by (simp add: running_def)
  moreover have "\<not> processes ?s' ! c" using sel(1) ids(4) inv(1) by (simp add: proc_chains_def)
  moreover have "\<forall>e \<in> set (fd_array (pcbs ?s' c)). \<not> fd_active e"
    using qc by (auto simp: sel(4) closed_fd_def fd_active_def get_field_def)
  moreover have "paging_inv L ?s'" if "paging_inv L s"
  proof -
    have "paging_inv L ?s2" using that paging_inv_cong [of ?s2 s L] by (simp add: upd_pcb_def cli_def)
    then have "paging_inv L ?s3" using paging_inv_map_program [of L ?s2 "int q"] s3 ids(3) by simp
    then show ?thesis using paging_inv_cong [of ?s' ?s3 L] by (simp add: upd_pcb_def reload_cr3_def)
  qed
  moreover have "same_tty s ?s'" "fs_mem ?s' = fs_mem s" "fs_sections ?s' = fs_sections s"
    by (simp_all add: same_tty_def tty.defs upd_pcb_def cli_def reload_cr3_def)
  ultimately show ?thesis using run ch sel fr' by (intro exI [of _ ?s']) simp
qed

lemma halt_restarts:
  assumes inv: "proc_chains cs s" "tty_ids_ok s" and chn: "cs (nat (exec_term_id s)) = [c]"
  shows "halt L status s = Some (Iret (pcb_entry (pcbs s c))
      (sti (cli ((cli s)\<lparr>tss_esp0 := kernel_esp0 (int c), tss_ss0 := KERNEL_DS\<rparr>)))) \<and> c = nat (exec_term_id s)"
proof -
  let ?e = "nat (exec_term_id s)" and ?s = "cli s"
  have e: "?e < 3" using inv(2) by (auto simp: tty_ids_ok_def)
  have inv': "proc_chains cs ?s" "tty_ids_ok ?s"
    using inv by (simp_all add: cli_def proc_chains_def tty_ids_ok_def)
  have cur: "get_current_executing_pcb ?s = Some c"
    using executing_pcb [OF inv'] chn by (simp add: cli_def)
  have "hd (cs ?e) = ?e" "parent_pcb (pcbs s ?e) = None" using inv(1) e by (simp_all add: proc_chains_def)
  then have c: "c = ?e" "parent_pcb (pcbs s c) = None" using chn by auto
  have id: "process_id (pcbs s c) = c" using executing_member(3) [OF inv(1) e] chn by simp
  show ?thesis using cur c id by (simp add: halt_def enter_user_def cli_def Let_def)
qed

text \<open>
  When the first program of a terminal halts, it is restarted: \<open>halt\<close> enters user mode at the
  entry point stored in its PCB on a fresh kernel stack, with interrupts enabled and all process state
  as it was.
\<close>

lemma halt_root:
  assumes inv: "proc_chains cs s" "tty_ids_ok s" and chn: "cs (nat (exec_term_id s)) = [c]"
  shows "\<exists>s'. halt L status s = Some (Iret (pcb_entry (pcbs s c)) s') \<and> c = nat (exec_term_id s) \<and>
    proc_chains cs s' \<and> tty_ids_ok s' \<and> exec_term_id s' = exec_term_id s \<and> pcbs s' = pcbs s \<and>
    tss_esp0 s' = kernel_esp0 (int c) \<and> iflag s'"
proof -
  let ?s' = "sti (cli ((cli s)\<lparr>tss_esp0 := kernel_esp0 (int c), tss_ss0 := KERNEL_DS\<rparr>))"
  have "proc_chains cs ?s'" "tty_ids_ok ?s'"
    using inv by (simp_all add: cli_def sti_def proc_chains_def tty_ids_ok_def)
  then show ?thesis using halt_restarts [OF assms] by (intro exI [of _ ?s']) (simp add: cli_def sti_def)
qed

subsection \<open>Properties\<close>

text \<open>
  C2: \<open>execute\<close> of a command shorter than 128 bytes whose first word names an ELF file of 28 bytes to
  0x3B8000 bytes, with a free process slot, enters user mode at the entry point stored in the file. The new process is
  appended to the chain of the running terminal, gets the remaining words as its arguments, standard
  input and output as its only open descriptors and the caller's registers; its page holds the bytes of
  the file at 0x08048000, and the memory of all other processes is unchanged.
\<close>

theorem execute_starts_program:
  assumes "env_ok E" "proc_chains cs s" "tty_ids_ok s" "length (page_directory s) = 1024"
    and "0 \<in> set command" "length (cstr command) < 128"
    and "program_file E s (first_word command) = Some d" "alloc_pid s = Some new"
    and "file = contents (fs_mem s) (fs_sections s) (inode_index d)"
    and "28 \<le> length file" "length file \<le> 0x3B8000"
  shows "\<exists>s'. execute E L (Some command) s = Some (Iret (entry_word file) s') \<and>
    started E L new (nat (exec_term_id s)) (inode_index d) (other_words command) cs s s' \<and>
    map (\<lambda>e. if fd_active e then Some (fo_jump_table_ptr e) else None) (fd_array (pcbs s' new)) =
      [Some (Some stdin_jump_table), Some (Some stdout_jump_table)] @ replicate 6 None"
proof -
  obtain s' where s': "execute E L (Some command) s = Some (Iret (entry_word file) s')"
      "started E L new (nat (exec_term_id s)) (inode_index d) (other_words command) cs s s'"
    using execute_ok [OF assms(1-8)] assms(9-11) by blast
  have "length (fd_array (pcbs s new)) = FD_ARRAY_LEN" using assms(2) by (simp add: proc_chains_def pcb_shape_def)
  then show ?thesis using s' std_fds_open by (auto simp: started_def)
qed

text \<open>
  C32: \<open>execute\<close> refuses a null command, and, for a command shorter than 128 bytes, a name that is not in
  the directory and a file that is not an ELF executable, with -1, and changes nothing. When no process
  slot is free it prints the line "Process # limit reached" on the displayed screen and returns 0 (not the
  -1 its header documents); processes, page tables and memory stay as they are.
\<close>

theorem execute_refuses:
  assumes "env_ok E" "0 \<in> set command" "length (cstr command) < 128" "con_ok s"
    and "program_file E s (first_word command) = None \<or> alloc_pid s = None"
  shows "execute E L None s = Some (Ret (- 1) s) \<and>
    (if program_file E s (first_word command) = None then execute E L (Some command) s = Some (Ret (- 1) s)
     else \<exists>s'. execute E L (Some command) s = Some (Ret 0 s') \<and>
       con_view s' = fold scr_putc (bytes (''Process # limit reached'' @ [CHR 0x0A])) (con_view s) \<and> con_frame s s')"
proof -
  have plain: "37 \<notin> set (bytes (''Process # limit reached'' @ [CHR 0x0A]))"
      "0 \<notin> set (bytes (''Process # limit reached'' @ [CHR 0x0A]))"
    by (simp_all add: bytes_def of_char_def)
  obtain k s' where p: "printf (''Process # limit reached'' @ [CHR 0x0A]) [] s = Some (k, s')" "con_frame s s'"
      "con_view s' = fold scr_putc (bytes (''Process # limit reached'' @ [CHR 0x0A])) (con_view s)"
    using printf_plain [OF plain assms(4)] by blast
  have "execute E L None s = Some (Ret (- 1) s)" by (simp add: execute_def)
  moreover have "execute E L (Some command) s =
      (case program_file E s (first_word command) of None \<Rightarrow> Some (Ret (- 1) s) | Some d \<Rightarrow> Some (Ret 0 s'))"
    by (rule execute_parsed [OF assms(1-3), of L s]) (use p(1) assms(5) in \<open>auto split: option.split\<close>)
  ultimately show ?thesis using p(2,3) by (auto split: option.split)
qed

text \<open>
  C10: When a program that was started by another one halts, its parent continues: \<open>halt\<close> returns
  to the stack saved at the parent's \<open>execute\<close> with the status (255, the status of an exception,
  becomes 256), maps the parent's page, closes all descriptors of the child, frees its slot and removes
  it from the chain; no byte of user memory changes.
\<close>

theorem halt_returns_to_parent:
  assumes "proc_chains cs s" "tty_ids_ok s" "length (page_directory s) = 1024"
    and "cs (nat (exec_term_id s)) = ps @ [q, c]"
  shows "\<exists>s'. halt L status s =
      Some (Return_to_parent (parent_esp (pcbs s c)) (parent_ebp (pcbs s c)) (exit_status status) s') \<and>
    proc_chains (cs(nat (exec_term_id s) := ps @ [q])) s' \<and> tty_ids_ok s' \<and>
    running s' = q \<and> program_frame L s' (int q + 2) \<and> user_mem s' = user_mem s \<and> \<not> processes s' ! c \<and>
    (\<forall>e \<in> set (fd_array (pcbs s' c)). \<not> fd_active e) \<and> tss_esp0 s' = kernel_esp0 (int q)"
  using halt_child [OF assms] by blast

text \<open>
  C6: \<open>execute\<close> followed by \<open>halt\<close> of the new program is a round trip: the chains, the running
  process and its page mapping are as before the call, the slot is free again, the caller gets its own
  registers back with the status, and memory outside the frame of the child is unchanged.
\<close>

theorem execute_then_halt:
  assumes "env_ok E" "proc_chains cs s" "tty_ids_ok s" "length (page_directory s) = 1024"
    and "0 \<in> set command" "length (cstr command) < 128"
    and "program_file E s (first_word command) = Some d" "alloc_pid s = Some new"
    and "28 \<le> length (contents (fs_mem s) (fs_sections s) (inode_index d))"
      "length (contents (fs_mem s) (fs_sections s) (inode_index d)) \<le> 0x3B8000"
  shows "\<exists>e s1 s2. execute E L (Some command) s = Some (Iret e s1) \<and>
    halt L status s1 = Some (Return_to_parent (reg_esp E) (reg_ebp E) (exit_status status) s2) \<and>
    proc_chains cs s2 \<and> tty_ids_ok s2 \<and> running s2 = running s \<and>
    program_frame L s2 (int (running s) + 2) \<and> \<not> processes s2 ! new \<and>
    (\<forall>pa. drop_bit 22 pa \<noteq> word_of_int (int new + 2) \<longrightarrow> user_mem s2 pa = user_mem s pa)"
proof -
  let ?e = "nat (exec_term_id s)"
  obtain e s1 where s1: "execute E L (Some command) s = Some (Iret e s1)"
      "started E L new ?e (inode_index d) (other_words command) cs s s1"
    using execute_ok [OF assms, of L] by blast
  have e: "?e < 3" using assms(3) by (auto simp: tty_ids_ok_def)
  have "chain (pcbs s) (cs ?e)" using assms(2) e by (simp add: proc_chains_def)
  then have cs_e: "cs ?e = butlast (cs ?e) @ [last (cs ?e)]" using chain_nonempty by simp
  let ?cs = "cs(?e := cs ?e @ [new])"
  have st: "proc_chains ?cs s1" "tty_ids_ok s1" "length (page_directory s1) = 1024"
      "exec_term_id s1 = exec_term_id s" "parent_esp (pcbs s1 new) = reg_esp E" "parent_ebp (pcbs s1 new) = reg_ebp E"
      "\<forall>pa. drop_bit 22 pa \<noteq> word_of_int (int new + 2) \<longrightarrow> user_mem s1 pa = user_mem s pa"
    using s1(2) unfolding started_def by blast+
  have "?cs (nat (exec_term_id s1)) = butlast (cs ?e) @ [last (cs ?e), new]"
    using cs_e st(4) by simp
  from halt_child [OF st(1-3) this, of L status] obtain s2 where
    s2: "halt L status s1 = Some (Return_to_parent (reg_esp E) (reg_ebp E) (exit_status status) s2)"
      "proc_chains (?cs(nat (exec_term_id s1) := butlast (cs ?e) @ [last (cs ?e)])) s2" "tty_ids_ok s2"
      "running s2 = last (cs ?e)" "program_frame L s2 (int (last (cs ?e)) + 2)" "user_mem s2 = user_mem s1"
      "\<not> processes s2 ! new"
    unfolding st(5,6) by blast
  have "?cs(nat (exec_term_id s1) := butlast (cs ?e) @ [last (cs ?e)]) = cs"
    unfolding st(4) using cs_e by (metis fun_upd_triv fun_upd_upd)
  moreover have "running s = last (cs ?e)" using executing_pcb [OF assms(2,3)] by (simp add: running_def)
  ultimately show ?thesis using s1(1) s2 st(7) by (intro exI [of _ e] exI [of _ s1] exI [of _ s2]) simp
qed

end
