(* ===== verification/Boot.thy ===== *)
theory Boot
  imports Exec
begin

text \<open>
  What \<open>boot\<close> of \<open>src/student-distrib/syscall.c\<close> establishes: three shells, each alone on its
  terminal with the file \<open>shell\<close> in its own frame, the first one running.
\<close>

subsection \<open>One shell\<close>

definition shell_pcb :: "env \<Rightarrow> u32 \<Rightarrow> nat \<Rightarrow> pcb_t \<Rightarrow> bool" where
  "shell_pcb E entry_point i b \<longleftrightarrow> pcb_shape b \<and> process_id b = i \<and> parent_pcb b = None \<and> child_pcb b = None \<and>
     pcb_entry b = entry_point \<and> cstr (pcb_args b) = [] \<and> parent_esp b = reg_esp E \<and> parent_ebp b = reg_ebp E"

text \<open>The state after one shell is set up, by the parts the later code reads.\<close>

definition shell_set :: "env \<Rightarrow> layout \<Rightarrow> u8 list \<Rightarrow> nat \<Rightarrow> 'a kstate_scheme \<Rightarrow> 'a kstate_scheme \<Rightarrow> bool" where
  "shell_set E L bin i s s' \<longleftrightarrow>
     kstate.more s' = kstate.more s \<and> terms s' = terms s \<and> curr_term_id s' = curr_term_id s \<and> processes s' = processes s \<and>
     fs_mem s' = fs_mem s \<and> fs_sections s' = fs_sections s \<and> exec_term_id s' = int i \<and>
     master_mask s' = master_mask s \<and> slave_mask s' = slave_mask s \<and>
     length (page_directory s') = 1024 \<and> (paging_inv L s \<longrightarrow> paging_inv L s') \<and>
     user_mem s' = overlay (int i + 2) 0x48000 bin (user_mem s) \<and>
     (\<exists>nb. shell_pcb E (entry_word bin) i nb \<and> pcbs s' = (pcbs s)(i := nb))"

lemma boot_shell_ok:
  assumes "i < 3" "length (page_directory s) = 1024" "pcb_shape (pcbs s i)"
    and "inode_ok (fs_mem s) (fs_sections s) (inode_index d)"
    and "bin = contents (fs_mem s) (fs_sections s) (inode_index d)" "28 \<le> length bin" "length bin \<le> 0x3B8000"
  shows "\<exists>s'. boot_shell E L d i (e0, s) = Some (entry_word bin, s') \<and> shell_set E L bin i s s'"
proof -
  let ?r = "int i + 2"
  let ?pd = "(page_directory s)[32 := fill_entry (push_bit 10 (word_of_int ?r)) 0 1 1 (page_directory s ! 32)]"
  let ?s1 = "s\<lparr>page_directory := ?pd\<rparr>"
  have s1: "create_user_4mb_page ?r 32 s = Some (0, ?s1)"
    using create_user_4mb_page_eq [OF assms(2), of ?r 32] assms(1) by simp
  have fr1: "program_frame L ?s1 ?r"
    using create_user_4mb_page_frame [OF assms(2) _ _ s1] assms(1) by simp
  let ?s2 = "(reload_cr3 L ?s1)\<lparr>exec_term_id := int i\<rparr>"
  have fr: "program_frame L ?s2 ?r"
    using fr1 translate_cong [of ?s2 ?s1 L] by (simp add: program_frame_def reload_cr3_def)
  let ?s3 = "?s2\<lparr>user_mem := overlay ?r 0x48000 bin (user_mem s)\<rparr>"
  have s3: "load_image L (inode_index d) ?s2 = Some (True, ?s3)"
    using load_image_ok [OF fr, of "inode_index d"] assms(1,4-7) by (simp add: reload_cr3_def)
  have entry: "read_entry (E\<lparr>uninit_entry := e0\<rparr>) (inode_index d) ?s3 = entry_word bin"
    using read_entry_ok [of ?s3 "inode_index d"] assms(4-6) by (simp add: reload_cr3_def)
  let ?a = "(pcb_args (pcbs s i))[0 := 0]"
  have wa: "wr (pcb_args (pcbs ?s3 i)) 0 0 = Some ?a"
    using assms(3) by (simp add: reload_cr3_def pcb_shape_def wr_def)
  let ?nb = "(pcbs s i)\<lparr>fd_array := std_fds (fd_array (pcbs s i)), pcb_entry := entry_word bin,
      pcb_args := ?a, process_id := i, parent_esp := reg_esp E, parent_ebp := reg_ebp E,
      parent_pcb := None, child_pcb := None\<rparr>"
  have run: "boot_shell E L d i (e0, s) = Some (entry_word bin,
      s\<lparr>page_directory := ?pd, cr3 := page_directory_addr L, exec_term_id := int i,
        user_mem := overlay ?r 0x48000 bin (user_mem s), pcbs := (pcbs s)(i := ?nb)\<rparr>)"
    using s1 s3 entry wa by (simp add: boot_shell_def upd_pcb_def Let_def reload_cr3_def)
  let ?s' = "s\<lparr>page_directory := ?pd, cr3 := page_directory_addr L, exec_term_id := int i,
        user_mem := overlay ?r 0x48000 bin (user_mem s), pcbs := (pcbs s)(i := ?nb)\<rparr>"
  have "paging_inv L ?s'" if "paging_inv L s"
    using paging_inv_map_program [of L s "int i"] s1 that assms(1) paging_inv_cong [of ?s' ?s1 L] by simp
  moreover have "pcb_args (pcbs s i) \<noteq> []" using assms(3) by (auto simp: pcb_shape_def)
  then have "cstr ?a = []" by (cases "pcb_args (pcbs s i)") (simp_all add: cstr_simps)
  then have "shell_pcb E (entry_word bin) i ?nb"
    using assms(3) std_fds_entries(1) [of "fd_array (pcbs s i)"] by (auto simp: shell_pcb_def pcb_shape_def)
  then have "\<exists>nb. shell_pcb E (entry_word bin) i nb \<and> pcbs ?s' = (pcbs s)(i := nb)"
    by (intro exI [of _ ?nb]) simp
  ultimately have "shell_set E L bin i s ?s'" unfolding shell_set_def using assms(2) by simp
  with run show ?thesis by blast
qed

subsection \<open>The three shells\<close>

lemma init_terms_shape:
  assumes "\<forall>t \<in> set ts. buff_save t \<noteq> [] \<and> length (vid_save t) = 4000"
  shows "\<exists>ts'. init_terms ts = Some ts' \<and> length ts' = length ts \<and>
    (\<forall>t \<in> set ts'. buff_save t \<noteq> [] \<and> length (vid_save t) = 4000)"
  using assms
proof (induction ts)
  case (Cons t ts)
  have "put_cells 0 2000 32 (vid_save t) = Some (cell_run 32 2000)"
    using put_cells_eq [of 0 2000 "vid_save t" 32] Cons.prems by simp
  with Cons show ?case by (auto simp: wr_def)
qed simp

lemma irq_enabled_ports:
  "irq_enabled (outb d p s) j = irq_enabled s j" "irq_enabled (cli s) j = irq_enabled s j"
  "irq_enabled (sti s) j = irq_enabled s j"
  by (simp_all add: irq_enabled_def port_simps)

lemma irq_enabled_init_pit: "j < 16 \<Longrightarrow> irq_enabled (init_pit s) j \<longleftrightarrow> j = 0 \<or> irq_enabled s j"
  by (simp add: init_pit_def Let_def irq_enabled_ports irq_enabled_enable [of 0, simplified])

lemma irq_enabled_cong:
  "master_mask s' = master_mask s \<Longrightarrow> slave_mask s' = slave_mask s \<Longrightarrow> irq_enabled s' j = irq_enabled s j"
  by (simp add: irq_enabled_def)

lemma first_active: "(replicate 7 False)[0 := True] = [True, False, False, False, False, False, False]"
  by (simp add: numeral_eq_Suc)

lemma shells_alone:
  assumes "length (processes s) = 7" "\<forall>p. pcb_shape (pcbs s p)" "\<forall>i < 3. shell_pcb E e i (pcbs s i)"
    and "\<forall>p. 3 \<le> p \<longrightarrow> p < 7 \<longrightarrow> \<not> processes s ! p"
  shows "proc_chains (\<lambda>t. [t]) s"
  using assms by (auto simp: proc_chains_def shell_pcb_def)

lemma boot_ok:
  assumes "length (terms s) = 3" "\<forall>t \<in> set (terms s). buff_save t \<noteq> [] \<and> length (vid_save t) = 4000"
    and "length (processes s) = 7" "length (page_directory s) = 1024" "\<forall>p. pcb_shape (pcbs s p)"
    and "env_ok E" "program_file E s (bytes ''shell'' @ [0]) = Some d"
    and "bin = contents (fs_mem s) (fs_sections s) (inode_index d)" "28 \<le> length bin" "length bin \<le> 0x3B8000"
  shows "\<exists>s'. boot E L s = Some (Iret (entry_word bin) s') \<and> proc_chains (\<lambda>t. [t]) s' \<and> tty_ids_ok s' \<and>
    processes s' = [True, False, False, False, False, False, False] \<and>
    exec_term_id s' = 0 \<and> curr_term_id s' = 0 \<and> running s' = 0 \<and> program_frame L s' 2 \<and>
    (\<forall>i < 3. shell_pcb E (entry_word bin) i (pcbs s' i)) \<and>
    user_mem s' = overlay 4 0x48000 bin (overlay 3 0x48000 bin (overlay 2 0x48000 bin (user_mem s))) \<and>
    (paging_inv L s \<longrightarrow> paging_inv L s') \<and> tss_esp0 s' = kernel_esp0 0 \<and> iflag s' \<and>
    (\<forall>j < 16. irq_enabled s' j \<longleftrightarrow> j = 0 \<or> irq_enabled s j) \<and> kstate.more s' = kstate.more s"
proof -
  obtain j where j: "lookup_name s (bytes ''shell'' @ [0]) = Some j"
    and d: "d = dentry_at (fs_mem s) (fs_sections s) j (uninit_dentry E)" "is_elf s (inode_index d)"
    using assms(7) by (auto simp: program_file_def Let_def split: option.splits if_splits)
  have ino: "inode_ok (fs_mem s) (fs_sections s) (inode_index d)" using d(2) by (simp add: is_elf_def)
  obtain ts where ts: "init_terms (terms s) = Some ts" "length ts = 3"
    using init_terms_shape [OF assms(2)] assms(1) by auto
  let ?s0 = "s\<lparr>terms := ts, curr_term_id := 0, exec_term_id := 0, processes := replicate 7 False\<rparr>"
  have pr: "map (\<lambda>_. False) (processes s) = replicate 7 False" using assms(3) by (simp add: map_replicate_const)
  have t0: "init_terminal s = Some (s\<lparr>terms := ts, curr_term_id := 0, exec_term_id := 0\<rparr>)"
    using ts by (simp add: init_terminal_def)
  have rd: "read_dentry_by_name (fs_mem s) (fs_sections s) (bytes ''shell'' @ [0]) (uninit_dentry E) = Some (0, d)"
    using lookup_dentry [OF assms(6), of "bytes ''shell'' @ [0]" s] j d(1) by simp
  let ?e = "entry_word bin"
  have base: "fs_mem ?s0 = fs_mem s" "fs_sections ?s0 = fs_sections s" "pcbs ?s0 = pcbs s"
      "length (page_directory ?s0) = 1024" "terms ?s0 = ts" "user_mem ?s0 = user_mem s"
      "master_mask ?s0 = master_mask s" "slave_mask ?s0 = slave_mask s" "processes ?s0 = replicate 7 False"
      "paging_inv L ?s0 = paging_inv L s" "kstate.more ?s0 = kstate.more s"
    using assms(4) by (simp_all add: paging_inv_def)
  obtain s1 where b1: "boot_shell E L d 0 (uninit_entry E, ?s0) = Some (?e, s1)" "shell_set E L bin 0 ?s0 s1"
    using boot_shell_ok [of 0 ?s0 d bin E L "uninit_entry E"] base assms(5,8-10) ino by auto
  then obtain n0 where n0: "shell_pcb E ?e 0 n0" "pcbs s1 = (pcbs s)(0 := n0)" "fs_mem s1 = fs_mem s"
      "fs_sections s1 = fs_sections s" "length (page_directory s1) = 1024" "user_mem s1 = overlay 2 0x48000 bin (user_mem s)"
    unfolding shell_set_def base by auto
  obtain s2 where b2: "boot_shell E L d 1 (?e, s1) = Some (?e, s2)" "shell_set E L bin 1 s1 s2"
    using boot_shell_ok [of 1 s1 d bin E L ?e] n0 assms(5,8-10) ino by auto
  then obtain n1 where n1: "shell_pcb E ?e 1 n1" "pcbs s2 = (pcbs s1)(1 := n1)" "fs_mem s2 = fs_mem s"
      "fs_sections s2 = fs_sections s" "length (page_directory s2) = 1024" "user_mem s2 = overlay 3 0x48000 bin (user_mem s1)"
    unfolding shell_set_def using n0(3,4) by auto
  obtain s3 where b3: "boot_shell E L d 2 (?e, s2) = Some (?e, s3)" "shell_set E L bin 2 s2 s3"
    using boot_shell_ok [of 2 s2 d bin E L ?e] n0 n1 assms(5,8-10) ino by auto
  then obtain n2 where n2: "shell_pcb E ?e 2 n2" "pcbs s3 = (pcbs s2)(2 := n2)" "fs_mem s3 = fs_mem s"
      "fs_sections s3 = fs_sections s" "length (page_directory s3) = 1024" "user_mem s3 = overlay 4 0x48000 bin (user_mem s2)"
    unfolding shell_set_def using n1(3,4) by auto
  have k3: "terms s3 = ts" "processes s3 = replicate 7 False" "master_mask s3 = master_mask s"
      "slave_mask s3 = slave_mask s" "paging_inv L s \<longrightarrow> paging_inv L s3"
      "kstate.more s3 = kstate.more s"
    using b1(2) b2(2) b3(2) unfolding shell_set_def base by auto
  let ?s4 = "s3\<lparr>curr_term_id := 0, exec_term_id := 0\<rparr>"
  have l4: "length (page_directory ?s4) = 1024" using n2(5) by simp
  let ?pd = "(page_directory s3)[32 := fill_entry (push_bit 10 (word_of_int 2)) 0 1 1 (page_directory s3 ! 32)]"
  let ?s5 = "?s4\<lparr>page_directory := ?pd\<rparr>"
  have s5: "create_user_4mb_page 2 32 ?s4 = Some (0, ?s5)"
    using create_user_4mb_page_eq [OF l4, of 2 32] by simp
  let ?s7 = "(reload_cr3 L ?s5)\<lparr>tss_esp0 := kernel_esp0 0, tss_ss0 := KERNEL_DS,
      processes := (replicate 7 False)[0 := True]\<rparr>"
  define s' where "s' = sti (cli (init_pit ?s7))"
  have run: "boot E L s = Some (Iret ?e s')"
    unfolding s'_def using t0 rd b1(1) b2(1) b3(1) s5 pr k3(2)
    by (simp add: boot_def Let_def enter_user_def wr_def reload_cr3_def)
  note init = init_pit_def cli_def sti_def outb_def enable_irq_def Let_def reload_cr3_def
  have sel: "processes s' = [True, False, False, False, False, False, False]" "exec_term_id s' = 0"
      "curr_term_id s' = 0" "terms s' = ts" "pcbs s' = (pcbs s)(0 := n0, 1 := n1, 2 := n2)"
      "user_mem s' = overlay 4 0x48000 bin (overlay 3 0x48000 bin (overlay 2 0x48000 bin (user_mem s)))"
      "page_directory s' = ?pd" "page_table_0 s' = page_table_0 s3" "vid_page_table_0 s' = vid_page_table_0 s3"
      "tss_esp0 s' = kernel_esp0 0" "iflag s'" "kstate.more s' = kstate.more s"
    using first_active k3(1,6) n0 n1 n2 unfolding s'_def by (simp_all add: init)
  have pcbs: "shell_pcb E ?e i (pcbs s' i)" if "i < 3" for i
    using less_3_cases [OF that] n0(1) n1(1) n2(1) unfolding sel(5) by auto
  have shape: "pcb_shape (pcbs s' p)" for p
    using assms(5) n0(1) n1(1) n2(1) unfolding sel(5) by (auto simp: shell_pcb_def)
  have "\<not> processes s' ! p" if "3 \<le> p" "p < 7" for p
    using that unfolding sel(1) by (auto simp: nth_Cons')
  then have ch: "proc_chains (\<lambda>t. [t]) s'"
    using pcbs shape by (intro shells_alone) (auto simp: sel(1))
  have ids: "tty_ids_ok s'" using ts(2) by (simp add: tty_ids_ok_def sel)
  have "running s' = 0" using executing_pcb [OF ch ids] by (simp add: running_def sel)
  moreover have "program_frame L ?s5 2"
    using create_user_4mb_page_frame [OF l4 _ _ s5] by simp
  then have "program_frame L s' 2"
    using translate_cong [of s' ?s5 L] sel(7-9) by (simp add: program_frame_def)
  moreover have "paging_inv L s'" if "paging_inv L s"
  proof -
    have "paging_inv L ?s4" using k3(5) that paging_inv_cong [of ?s4 s3 L] by simp
    then have "paging_inv L ?s5" using paging_inv_map_program [of L ?s4 0] s5 by simp
    then show ?thesis using paging_inv_cong [of s' ?s5 L] sel(7-9) by simp
  qed
  moreover have "irq_enabled s' j \<longleftrightarrow> j = 0 \<or> irq_enabled s j" if "j < 16" for j
    using irq_enabled_init_pit [OF that, of ?s7] irq_enabled_cong [of ?s7 s j] k3(3,4)
    unfolding s'_def by (simp add: irq_enabled_ports reload_cr3_def)
  ultimately show ?thesis using run ch ids sel pcbs by (intro exI [of _ s']) simp
qed

end
