(* ===== verification/Idt.thy ===== *)
theory Idt
  imports Exec
begin

text \<open>
  The interrupt descriptor table and the exception handlers, \<open>src/student-distrib/idt.c\<close>, with
  the descriptor type and \<open>SET_IDT_ENTRY\<close> of \<open>x86_desc.h\<close>. The addresses of the handlers
  are chosen by the linker: the record \<open>isr_addrs\<close>.
\<close>

record isr_addrs =
  interrupt_addr :: "nat \<Rightarrow> u32"
  syscall_wrapper :: u32
  keyboard_wrapper :: u32
  rtc_wrapper :: u32
  pit_wrapper :: u32

record idt_desc_t =
  offset_15_00 :: u16
  seg_selector :: u16
  reserved4 :: u8
  reserved3 :: u8
  reserved2 :: u8
  reserved1 :: u8
  gate_size :: u8
  reserved0 :: u8
  gate_dpl :: u8
  gate_present :: u8
  offset_31_16 :: u16

record kern = kstate +
  idt :: "idt_desc_t list"

abbreviation NUM_VEC :: nat where "NUM_VEC \<equiv> 256"
abbreviation SYSCALL_VECTOR :: nat where "SYSCALL_VECTOR \<equiv> 0x80"
abbreviation KERNEL_CS :: u16 where "KERNEL_CS \<equiv> 0x10"

subsection \<open>init_idt\<close>

definition init_gate :: "nat \<Rightarrow> idt_desc_t \<Rightarrow> idt_desc_t" where
  "init_gate i d =
     d\<lparr>seg_selector := KERNEL_CS, reserved4 := 0, reserved3 := 0, reserved2 := 1, reserved1 := 1,
       gate_size := 1, reserved0 := 0, gate_dpl := (if SYSCALL_VECTOR = i then 3 else 0),
       gate_present := 1\<rparr>"

fun init_gates :: "nat \<Rightarrow> nat \<Rightarrow> idt_desc_t list \<Rightarrow> idt_desc_t list option" where
  "init_gates i 0 t = Some t"
| "init_gates i (Suc n) t =
     (case rd t (int i) of None \<Rightarrow> None | Some d \<Rightarrow> init_gates (Suc i) n (t[i := init_gate i d]))"

definition set_idt_entry :: "u32 \<Rightarrow> idt_desc_t \<Rightarrow> idt_desc_t" where
  "set_idt_entry handler d =
     d\<lparr>offset_31_16 := ucast (drop_bit 16 (handler AND 0xFFFF0000)),
       offset_15_00 := ucast (handler AND 0xFFFF)\<rparr>"

fun set_entries :: "(nat \<times> u32) list \<Rightarrow> idt_desc_t list \<Rightarrow> idt_desc_t list option" where
  "set_entries [] t = Some t"
| "set_entries ((v, h) # vs) t =
     (case rd t (int v) of None \<Rightarrow> None | Some d \<Rightarrow> set_entries vs (t[v := set_idt_entry h d]))"

text \<open>The calls of \<open>SET_IDT_ENTRY\<close> in their order.\<close>

definition idt_vectors :: "isr_addrs \<Rightarrow> (nat \<times> u32) list" where
  "idt_vectors H = map (\<lambda>n. (n, interrupt_addr H n)) [0..<20] @
     [(SYSCALL_VECTOR, syscall_wrapper H), (0x21, keyboard_wrapper H), (0x28, rtc_wrapper H),
      (0x20, pit_wrapper H)]"

definition init_idt :: "isr_addrs \<Rightarrow> 'a kern_scheme \<Rightarrow> 'a kern_scheme option" where
  "init_idt H s = do {
     t \<leftarrow> init_gates 0 NUM_VEC (idt s);
     t \<leftarrow> set_entries (idt_vectors H) t;
     Some (s\<lparr>idt := t\<rparr>)
   }"

subsection \<open>What the processor finds in the table\<close>

definition gate_offset :: "idt_desc_t \<Rightarrow> u32" where
  "gate_offset d = push_bit 16 (ucast (offset_31_16 d)) OR ucast (offset_15_00 d)"

text \<open>The four type bits; 14 is a 32-bit interrupt gate.\<close>

definition gate_type :: "idt_desc_t \<Rightarrow> u8" where
  "gate_type d = reserved3 d + 2 * reserved2 d + 4 * reserved1 d + 8 * gate_size d"

lemma gate_offset_set: "gate_offset (set_idt_entry h d) = h"
proof -
  have m: "(0xFFFF0000 :: u32) = push_bit 16 (mask 16)" "(0xFFFF :: u32) = mask 16"
    by (simp_all add: mask_eq_exp_minus_1)
  show ?thesis
    unfolding gate_offset_def set_idt_entry_def m by (rule bit_word_eqI) (auto simp: bit_simps)
qed

lemma init_gates_eq:
  assumes "i + n = length t"
  shows "init_gates i n t = Some (take i t @ map (\<lambda>j. init_gate j (t ! j)) [i..<length t])"
  using assms
proof (induction n arbitrary: i t)
  case (Suc n)
  let ?t = "t[i := init_gate i (t ! i)]"
  have i: "i < length t" using Suc.prems by simp
  have "init_gates (Suc i) n ?t =
      Some (take (Suc i) ?t @ map (\<lambda>j. init_gate j (?t ! j)) [Suc i..<length t])"
    using Suc.IH [of "Suc i" ?t] Suc.prems by simp
  moreover have "map (\<lambda>j. init_gate j (?t ! j)) [Suc i..<length t] =
      map (\<lambda>j. init_gate j (t ! j)) [Suc i..<length t]"
    by (rule map_cong) auto
  moreover have "[i..<length t] = i # [Suc i..<length t]" using i by (rule upt_conv_Cons)
  ultimately show ?case using i by (simp add: rd_nat take_Suc_update)
qed simp

lemma set_entries_other:
  "set_entries vs t = Some t' \<Longrightarrow> v \<notin> fst ` set vs \<Longrightarrow> t' ! v = t ! v \<and> length t' = length t"
  by (induction vs t rule: set_entries.induct) (auto split: option.splits)

lemma set_entries_ok:
  assumes "distinct (map fst vs)" "\<forall>v \<in> set vs. fst v < length t"
  shows "\<exists>t'. set_entries vs t = Some t' \<and> length t' = length t \<and>
    (\<forall>(v, h) \<in> set vs. t' ! v = set_idt_entry h (t ! v)) \<and>
    (\<forall>v. v \<notin> fst ` set vs \<longrightarrow> t' ! v = t ! v)"
  using assms
proof (induction vs t rule: set_entries.induct)
  case (2 v h vs t)
  let ?t = "t[v := set_idt_entry h (t ! v)]"
  have v: "rd t (int v) = Some (t ! v)" "v < length t" using "2.prems" by (auto simp: rd_nat)
  then obtain t' where t': "set_entries vs ?t = Some t'" "length t' = length t"
      "\<forall>(u, k) \<in> set vs. t' ! u = set_idt_entry k (?t ! u)" "\<forall>u. u \<notin> fst ` set vs \<longrightarrow> t' ! u = ?t ! u"
    using "2.IH" [of "t ! v"] "2.prems" by auto
  have "v \<notin> fst ` set vs" using "2.prems"(1) by simp
  with t' v show ?case by (force simp: nth_list_update)
qed auto

lemma idt_vectors_distinct: "distinct (map fst (idt_vectors H))"
  by (simp add: idt_vectors_def comp_def)

text \<open>
  The handlers the processor has to find: the exceptions at the numbers the processor gives them, the
  system call at the number the user programs trap to, and the three devices at the vectors of their
  interrupt lines (0, 1 and 8 of the controllers, which are based at 0x20 and 0x28).
\<close>

definition handlers_at :: "isr_addrs \<Rightarrow> idt_desc_t list \<Rightarrow> bool" where
  "handlers_at H t \<longleftrightarrow> (\<forall>n < 20. gate_offset (t ! n) = interrupt_addr H n) \<and>
     gate_offset (t ! 128) = syscall_wrapper H \<and> gate_offset (t ! (32 + 0)) = pit_wrapper H \<and>
     gate_offset (t ! (32 + 1)) = keyboard_wrapper H \<and> gate_offset (t ! (40 + 0)) = rtc_wrapper H"

lemma handlers_at_vectors:
  assumes "\<forall>(v, h) \<in> set (idt_vectors H). gate_offset (t ! v) = h"
  shows "handlers_at H t"
proof -
  have "gate_offset (t ! n) = interrupt_addr H n" if "n < 20" for n
    using assms that by (force simp: idt_vectors_def)
  moreover have "gate_offset (t ! 128) = syscall_wrapper H" "gate_offset (t ! 32) = pit_wrapper H"
      "gate_offset (t ! 33) = keyboard_wrapper H" "gate_offset (t ! 40) = rtc_wrapper H"
    using assms by (simp_all add: idt_vectors_def)
  ultimately show ?thesis by (simp add: handlers_at_def)
qed

lemma init_idt_gates:
  assumes "length (idt s) = NUM_VEC"
  shows "\<exists>s'. init_idt H s = Some s' \<and> length (idt s') = NUM_VEC \<and> handlers_at H (idt s') \<and>
    (\<forall>v < NUM_VEC. gate_present (idt s' ! v) = 1 \<and> gate_type (idt s' ! v) = 14 \<and>
       seg_selector (idt s' ! v) = KERNEL_CS \<and>
       gate_dpl (idt s' ! v) = (if v = SYSCALL_VECTOR then 3 else 0))"
proof -
  let ?t = "map (\<lambda>j. init_gate j (idt s ! j)) [0..<length (idt s)]"
  have g: "init_gates 0 NUM_VEC (idt s) = Some ?t" using init_gates_eq [of 0 NUM_VEC "idt s"] assms by simp
  have "\<forall>v \<in> set (idt_vectors H). fst v < length ?t" using assms by (auto simp: idt_vectors_def)
  from set_entries_ok [OF idt_vectors_distinct this] obtain t' where
    t': "set_entries (idt_vectors H) ?t = Some t'" "length t' = length ?t"
      "\<forall>(v, h) \<in> set (idt_vectors H). t' ! v = set_idt_entry h (?t ! v)"
      "\<forall>v. v \<notin> fst ` set (idt_vectors H) \<longrightarrow> t' ! v = ?t ! v" by blast
  have run: "init_idt H s = Some (s\<lparr>idt := t'\<rparr>)" using g t'(1) by (simp add: init_idt_def)
  have gate: "\<exists>d. t' ! v = d \<and> gate_present d = 1 \<and> gate_type d = 14 \<and> seg_selector d = KERNEL_CS \<and>
      gate_dpl d = (if v = SYSCALL_VECTOR then 3 else 0)" if "v < NUM_VEC" for v
  proof (cases "v \<in> fst ` set (idt_vectors H)")
    case True
    then obtain h where "(v, h) \<in> set (idt_vectors H)" by auto
    then have "t' ! v = set_idt_entry h (?t ! v)" using t'(3) by blast
    then show ?thesis using that assms by (simp add: set_idt_entry_def init_gate_def gate_type_def)
  next
    case False
    then show ?thesis using that assms t'(4) by (simp add: init_gate_def gate_type_def)
  qed
  have "handlers_at H t'"
    using t'(3) by (intro handlers_at_vectors) (auto simp: gate_offset_set)
  then show ?thesis using run t'(2) gate assms by auto
qed

text \<open>
  C34: \<open>init_idt\<close> makes every one of the 256 vectors a present 32-bit interrupt gate into the kernel
  code segment that only vector 0x80 opens to user mode. Vectors 0 to 19 lead to the exception handlers of
  these numbers, 0x80 to the system call, and 0x20, 0x21 and 0x28 to timer, keyboard and clock.
\<close>

theorem init_idt_table:
  assumes "length (idt s) = NUM_VEC"
  shows "\<exists>s'. init_idt H s = Some s' \<and> length (idt s') = NUM_VEC \<and>
    (\<forall>n < 20. gate_offset (idt s' ! n) = interrupt_addr H n) \<and>
    gate_offset (idt s' ! 0x80) = syscall_wrapper H \<and> gate_offset (idt s' ! 0x20) = pit_wrapper H \<and>
    gate_offset (idt s' ! 0x21) = keyboard_wrapper H \<and> gate_offset (idt s' ! 0x28) = rtc_wrapper H \<and>
    (\<forall>v < NUM_VEC. gate_present (idt s' ! v) = 1 \<and> gate_type (idt s' ! v) = 14 \<and>
       seg_selector (idt s' ! v) = KERNEL_CS \<and>
       gate_dpl (idt s' ! v) = (if v = 0x80 then 3 else 0))"
  using init_idt_gates [OF assms, of H] by (force simp: handlers_at_def)

subsection \<open>Exceptions\<close>

definition exception_texts :: "string list" where
  "exception_texts =
     [''Divide Error Exception. '', ''Debug Exception. '', ''NMI Interrupt. '',
      ''Breakpoint Exception. '', ''Overflow Exception. '', ''BOUND Range Exceeded Exception. '',
      ''Invalid Opcode Exception. '', ''Device Not Available Exception. '', ''Double Fault Exception. '',
      ''Coprocessor Segment Overrun. '', ''Invalid TSS Exception. '', ''Segment Not Present. '',
      ''Stack Fault Exception. '', ''General Protection Exception. '', ''Page-Fault Exception. '',
      ''Test failed. '', ''x87 FPU Floating-Point Error. '', ''Alignment Check Exception. '',
      ''Machine-Check Exception. '', ''SIMD Floating-Point Exception. '']"

definition exception_text :: "nat \<Rightarrow> string" where
  "exception_text n = exception_texts ! n @ [CHR 0x0A]"

text \<open>\<open>interrupt_n\<close>: print the message, then \<open>halt(255)\<close>, which does not return.\<close>

definition interrupt :: "nat \<Rightarrow> layout \<Rightarrow> 'a kstate_scheme \<Rightarrow> 'a kstate_scheme sys_result option" where
  "interrupt n L s = do {
     (k, s) \<leftarrow> printf (exception_text n) [] s;
     halt L 255 s
   }"

lemma exception_text_plain:
  assumes "n < 20"
  shows "37 \<notin> set (bytes (exception_text n))" "0 \<notin> set (bytes (exception_text n))"
proof -
  have "list_all (\<lambda>x. 37 \<notin> set (bytes x) \<and> 0 \<notin> set (bytes x)) exception_texts"
    by (simp add: exception_texts_def bytes_def of_char_def)
  moreover have "length exception_texts = 20" by (simp add: exception_texts_def)
  ultimately have "37 \<notin> set (bytes (exception_texts ! n)) \<and> 0 \<notin> set (bytes (exception_texts ! n))"
    using assms by (simp add: list_all_length)
  then show "37 \<notin> set (bytes (exception_text n))" "0 \<notin> set (bytes (exception_text n))"
    by (auto simp: exception_text_def bytes_def of_char_def)
qed

lemma interrupt_prints:
  assumes "n < 20" "con_ok s"
  shows "\<exists>k s'. printf (exception_text n) [] s = Some (k, s') \<and>
    con_view s' = fold scr_putc (bytes (exception_text n)) (con_view s) \<and> con_frame s s'"
  using printf_plain [OF exception_text_plain [OF assms(1)] assms(2)] by blast

subsection \<open>Property\<close>

text \<open>
  C27: An exception in a program that was started by another one prints its message on the displayed screen and
  ends the program: the parent's \<open>execute\<close> returns 256 with the stack and base pointer saved there, the
  parent runs again with its page mapped, the slot of the program is free, its descriptors are closed,
  and no byte of user memory changes.
\<close>

theorem exception_ends_program:
  assumes "n < 20" "con_ok s" "proc_chains cs s" "tty_ids_ok s" "length (page_directory s) = 1024"
    and "cs (nat (exec_term_id s)) = ps @ [q, c]"
  shows "\<exists>s2. interrupt n L s = Some (Return_to_parent (parent_esp (pcbs s c)) (parent_ebp (pcbs s c)) 256 s2) \<and>
    con_view s2 = fold scr_putc (bytes (exception_text n)) (con_view s) \<and>
    proc_chains (cs(nat (exec_term_id s) := ps @ [q])) s2 \<and> running s2 = q \<and> program_frame L s2 (int q + 2) \<and>
    processes s2 = (processes s)[c := False] \<and> (\<forall>e \<in> set (fd_array (pcbs s2 c)). \<not> fd_active e) \<and>
    user_mem s2 = user_mem s"
proof -
  obtain k s1 where s1: "printf (exception_text n) [] s = Some (k, s1)"
      "con_view s1 = fold scr_putc (bytes (exception_text n)) (con_view s)" "con_frame s s1"
    using interrupt_prints [OF assms(1,2)] by blast
  from s1(3) have "processes s1 = processes s" "pcbs s1 = pcbs s" "exec_term_id s1 = exec_term_id s"
      "page_directory s1 = page_directory s" "user_mem s1 = user_mem s" "tty_ids_ok s1 = tty_ids_ok s"
    by (auto elim!: con_frame_elim simp: tty_ids_ok_def)
  note sel = this
  have "proc_chains cs s1" using proc_chains_cong [OF sel(1,2)] assms(3) by simp
  from halt_child [OF this, of ps q c L 255] obtain s2 where
    "halt L 255 s1 = Some (Return_to_parent (parent_esp (pcbs s c)) (parent_ebp (pcbs s c)) 256 s2)"
    "proc_chains (cs(nat (exec_term_id s) := ps @ [q])) s2" "running s2 = q" "program_frame L s2 (int q + 2)"
    "user_mem s2 = user_mem s" "\<forall>e \<in> set (fd_array (pcbs s2 c)). \<not> fd_active e" "processes s2 = (processes s)[c := False]"
    "same_tty s1 s2"
    using assms(4-6) sel by (auto simp: exit_status_def)
  moreover from this(8) have "con_view s2 = con_view s1" by (simp add: same_tty_def tty.defs con_view_def)
  ultimately show ?thesis using s1 by (simp add: interrupt_def)
qed

end
