(* ===== verification/Kernel.thy ===== *)
theory Kernel
  imports Multiboot Boot Idt
begin

text \<open>
  The C entry point of the kernel, \<open>entry\<close> in \<open>src/student-distrib/kernel.c\<close>: the boot report,
  the descriptors of the local descriptor table and the task state segment (with the descriptor type
  and the macros of \<open>x86_desc.h\<close>), the initialisation of every component in its order, and
  \<open>boot\<close>.
\<close>

unbundle bit_operations_syntax

subsection \<open>Segment descriptors\<close>

record seg_desc_t =
  seg_lim_15_00 :: u16
  base_15_00 :: u16
  base_23_16 :: u8
  seg_type :: "4 word"
  seg_sys :: "1 word"
  seg_dpl :: "2 word"
  seg_present :: "1 word"
  seg_lim_19_16 :: "4 word"
  seg_avail :: "1 word"
  seg_reserved :: "1 word"
  opsize :: "1 word"
  granularity :: "1 word"
  base_31_24 :: u8

text \<open>\<open>SET_LDT_PARAMS\<close> and \<open>SET_TSS_PARAMS\<close> have the same body.\<close>

definition set_seg_params :: "u32 \<Rightarrow> u32 \<Rightarrow> seg_desc_t \<Rightarrow> seg_desc_t" where
  "set_seg_params a lim d =
     d\<lparr>base_31_24 := ucast (drop_bit 24 (a AND 0xFF000000)),
       base_23_16 := ucast (drop_bit 16 (a AND 0x00FF0000)),
       base_15_00 := ucast (a AND 0x0000FFFF),
       seg_lim_19_16 := ucast (drop_bit 16 (lim AND 0x000F0000)),
       seg_lim_15_00 := ucast (lim AND 0x0000FFFF)\<rparr>"

definition seg_base :: "seg_desc_t \<Rightarrow> u32" where
  "seg_base d = push_bit 24 (ucast (base_31_24 d)) OR push_bit 16 (ucast (base_23_16 d)) OR ucast (base_15_00 d)"

definition seg_limit :: "seg_desc_t \<Rightarrow> u32" where
  "seg_limit d = push_bit 16 (ucast (seg_lim_19_16 d)) OR ucast (seg_lim_15_00 d)"

lemma seg_base_set: "seg_base (set_seg_params a lim d) = a"
proof -
  have m: "(0xFF000000 :: u32) = push_bit 24 (mask 8)" "(0x00FF0000 :: u32) = push_bit 16 (mask 8)"
      "(0x0000FFFF :: u32) = mask 16"
    by (simp_all add: mask_eq_exp_minus_1)
  show ?thesis
    unfolding seg_base_def set_seg_params_def m
    by (rule bit_word_eqI, rename_tac n, case_tac "n < 16"; case_tac "n < 24") (auto simp: bit_simps)
qed

lemma seg_limit_set: "seg_limit (set_seg_params a lim d) = take_bit 20 lim"
proof -
  have m: "(0x000F0000 :: u32) = push_bit 16 (mask 4)" "(0x0000FFFF :: u32) = mask 16"
    by (simp_all add: mask_eq_exp_minus_1)
  show ?thesis
    unfolding seg_limit_def set_seg_params_def m by (rule bit_word_eqI) (auto simp: bit_simps)
qed

text \<open>The addresses and sizes the linker and the assembly files fix, and the boot-time device values.\<close>

record link =
  ldt_addr :: u32
  ldt_size :: u32
  tss_addr :: u32
  tss_size :: u32
  rtc_reg_b :: u8
  uninit_fs_address :: u32
  uninit_desc :: seg_desc_t

record kernel = kern +
  ldt_desc_ptr :: seg_desc_t
  tss_desc_ptr :: seg_desc_t
  tss_ldt_selector :: u16
  ldt_register :: u16
  task_register :: u16

abbreviation KERNEL_TSS :: u16 where "KERNEL_TSS \<equiv> 0x30"
abbreviation KERNEL_LDT :: u16 where "KERNEL_LDT \<equiv> 0x38"
abbreviation TSS_SIZE :: u32 where "TSS_SIZE \<equiv> 104"

definition load_ldt :: "link \<Rightarrow> 'a kernel_scheme \<Rightarrow> 'a kernel_scheme" where
  "load_ldt K s =
     (let d = (uninit_desc K)\<lparr>granularity := 0, opsize := 1, seg_reserved := 0, seg_avail := 0,
                seg_present := 1, seg_dpl := 0, seg_sys := 0, seg_type := 2\<rparr>;
          d = set_seg_params (ldt_addr K) (ldt_size K) d
      in s\<lparr>ldt_desc_ptr := d, ldt_register := KERNEL_LDT\<rparr>)"

definition load_tss :: "link \<Rightarrow> 'a kernel_scheme \<Rightarrow> 'a kernel_scheme" where
  "load_tss K s =
     (let d = (uninit_desc K)\<lparr>granularity := 0, opsize := 0, seg_reserved := 0, seg_avail := 0,
                seg_lim_19_16 := ucast (TSS_SIZE AND 0x000F0000), seg_present := 1, seg_dpl := 0,
                seg_sys := 0, seg_type := 9, seg_lim_15_00 := ucast (TSS_SIZE AND 0x0000FFFF)\<rparr>;
          d = set_seg_params (tss_addr K) (tss_size K) d
      in s\<lparr>tss_desc_ptr := d, tss_ldt_selector := KERNEL_LDT, tss_ss0 := KERNEL_DS,
           tss_esp0 := 0x800000, task_register := KERNEL_TSS\<rparr>)"

subsection \<open>entry\<close>

datatype 's entry_result = Entry_returns 's | Boots "'s sys_result"

definition init_devices :: "env \<Rightarrow> layout \<Rightarrow> isr_addrs \<Rightarrow> link \<Rightarrow> u32 \<Rightarrow> 'a kernel_scheme \<Rightarrow> 'a kernel_scheme option" where
  "init_devices E L H K fs_address s = do {
     s \<leftarrow> init_idt H s;
     s \<leftarrow> init_paging L s;
     let s = i8259_init s;
     let s = init_keyboard s;
     let s = init_rtc (uninit_rate E) (rtc_reg_b K) (rtc_reg_a E) s;
     s \<leftarrow> init_terminal s;
     let s = s\<lparr>fs_sections := init_fs (fs_mem s) fs_address\<rparr>;
     Some (sti s)
   }"

definition entry ::
  "env \<Rightarrow> layout \<Rightarrow> isr_addrs \<Rightarrow> link \<Rightarrow> u32 \<Rightarrow> u32 \<Rightarrow> 'a kernel_scheme \<Rightarrow> 'a kernel_scheme entry_result option" where
  "entry E L H K magic address s = do {
     r \<leftarrow> multiboot_report (fs_mem s) (uninit_fs_address K) magic address s;
     case r of
       Inl s \<Rightarrow> Some (Entry_returns s)
     | Inr (fs_address, s) \<Rightarrow> do {
         let s = load_tss K (load_ldt K s);
         s \<leftarrow> init_devices E L H K fs_address s;
         r \<leftarrow> boot E L s;
         Some (Boots r)
       }
   }"

text \<open>
  The memory of the kernel's variables at power-on: arrays of their declared sizes, page tables and
  descriptor tables as the loader clears them.
\<close>

definition power_on :: "'a kernel_scheme \<Rightarrow> bool" where
  "power_on s \<longleftrightarrow> length (idt s) = NUM_VEC \<and> con_ok s \<and> length (terms s) = NUM_TERMINALS \<and>
     (\<forall>t \<in> set (terms s). length (buff_save t) = BUFF_SIZE \<and> length (vid_save t) = 4000) \<and>
     length (processes s) = MAX_NUM_PROCESSES \<and> (\<forall>p. pcb_shape (pcbs s p)) \<and>
     page_directory s = replicate 1024 0 \<and> page_table_0 s = replicate 1024 0 \<and>
     vid_page_table_0 s = replicate 1024 0"

subsection \<open>What the initialisation establishes\<close>

lemma init_paging_frame:
  assumes "init_paging L s = Some s'"
  obtains pd pt c0 c3 c4 where "s' = s\<lparr>page_table_0 := pt, page_directory := pd, cr3 := c3, cr4 := c4, cr0 := c0,
    active_tasks := 0\<rparr>"
  using assms
  by (auto simp: init_paging_def clear_page_directory_table_def kernel_paging_init_def vga_paging_init_def
      setup_control_registers_def bind_eq_Some_conv Let_def)

lemma irq_enabled_init_keyboard:
  "j < 16 \<Longrightarrow> irq_enabled (init_keyboard s) j \<longleftrightarrow> j = 1 \<or> irq_enabled s j"
proof -
  let ?s = "s\<lparr>buff_index := 0, num_enters := 0\<rparr>"
  assume "j < 16"
  then have "irq_enabled (enable_irq (of_nat 1) ?s) j \<longleftrightarrow> j = 1 \<or> irq_enabled ?s j"
    by (intro irq_enabled_enable) simp_all
  moreover have "irq_enabled (init_keyboard s) j = irq_enabled (enable_irq (of_nat 1) ?s) j"
    by (rule irq_enabled_cong) (simp_all add: init_keyboard_def)
  moreover have "irq_enabled ?s j = irq_enabled s j" by (rule irq_enabled_cong) simp_all
  ultimately show ?thesis by simp
qed

lemma irq_enabled_set_frequency: "irq_enabled (set_frequency k p f s) j = irq_enabled s j"
  by (simp add: set_frequency_def Let_def irq_enabled_ports split: option.split)

lemma irq_enabled_init_rtc:
  "j < 16 \<Longrightarrow> irq_enabled (init_rtc k b a s) j \<longleftrightarrow> j = 8 \<or> irq_enabled s j"
  by (simp add: init_rtc_def Let_def irq_enabled_ports irq_enabled_enable [of 8, simplified] irq_enabled_set_frequency)

text \<open>The parts of the state the device initialisations leave alone.\<close>

definition kept :: "'a kernel_scheme \<Rightarrow> 'a kernel_scheme \<Rightarrow> bool" where
  "kept s s' \<longleftrightarrow> terms s' = terms s \<and> processes s' = processes s \<and> pcbs s' = pcbs s \<and> fs_mem s' = fs_mem s \<and>
     user_mem s' = user_mem s \<and> page_directory s' = page_directory s \<and> page_table_0 s' = page_table_0 s \<and>
     vid_page_table_0 s' = vid_page_table_0 s \<and> idt s' = idt s \<and>
     ldt_desc_ptr s' = ldt_desc_ptr s \<and> tss_desc_ptr s' = tss_desc_ptr s"

lemma devices_kept: "kept s (init_rtc k b a (init_keyboard (i8259_init s)))"
  by (simp add: kept_def init_rtc_def init_keyboard_def i8259_init_def set_frequency_def frequency_rate_def
      enable_irq_def outb_def cli_def sti_def Let_def)

lemma init_devices_ok:
  assumes "power_on s"
  shows "\<exists>s'. init_devices E L H K fs_address s = Some s' \<and> paging_inv L s' \<and> iflag s' \<and>
    length (terms s') = NUM_TERMINALS \<and> (\<forall>t \<in> set (terms s'). buff_save t \<noteq> [] \<and> length (vid_save t) = 4000) \<and>
    processes s' = processes s \<and> pcbs s' = pcbs s \<and> fs_mem s' = fs_mem s \<and> user_mem s' = user_mem s \<and>
    fs_sections s' = init_fs (fs_mem s) fs_address \<and>
    ldt_desc_ptr s' = ldt_desc_ptr s \<and> tss_desc_ptr s' = tss_desc_ptr s \<and>
    handlers_at H (idt s') \<and>
    (\<forall>j < 16. irq_enabled s' j \<longleftrightarrow> j \<in> {1, 2, 8})"
proof -
  note po = assms [unfolded power_on_def]
  obtain s1 where s1: "init_idt H s = Some s1" "handlers_at H (idt s1)"
    using init_idt_gates [of s H] po by auto
  then obtain t where t: "s1 = s\<lparr>idt := t\<rparr>" by (auto simp: init_idt_def bind_eq_Some_conv)
  have pt: "page_directory s1 = replicate 1024 0" "page_table_0 s1 = replicate 1024 0"
      "vid_page_table_0 s1 = replicate 1024 0" using po t by simp_all
  obtain s2 where s2: "init_paging L s1 = Some s2" using init_paging_tables [of s1 L] pt by auto
  have inv2: "paging_inv L s2" by (rule paging_inv_start [OF pt s2])
  obtain pd pt0 c0 c3 c4 where f2: "s2 = s1\<lparr>page_table_0 := pt0, page_directory := pd, cr3 := c3, cr4 := c4,
      cr0 := c0, active_tasks := 0\<rparr>" by (rule init_paging_frame [OF s2])
  define s3 where "s3 = init_rtc (uninit_rate E) (rtc_reg_b K) (rtc_reg_a E) (init_keyboard (i8259_init s2))"
  have k3: "kept s2 s3" unfolding s3_def by (rule devices_kept)
  have irq3: "irq_enabled s3 j \<longleftrightarrow> j \<in> {1, 2, 8}" if "j < 16" for j
    unfolding s3_def irq_enabled_init_rtc [OF that] irq_enabled_init_keyboard [OF that] irq_enabled_init [OF that]
    by auto
  have "terms s3 = terms s" using k3 f2 t by (simp add: kept_def)
  moreover have "\<forall>t \<in> set (terms s). buff_save t \<noteq> [] \<and> length (vid_save t) = 4000" using po by auto
  ultimately obtain ts where ts: "init_terms (terms s3) = Some ts" "length ts = 3"
      "\<forall>t \<in> set ts. buff_save t \<noteq> [] \<and> length (vid_save t) = 4000"
    using init_terms_shape [of "terms s"] po by auto
  let ?s4 = "s3\<lparr>terms := ts, curr_term_id := 0, exec_term_id := 0\<rparr>"
  have s4: "init_terminal s3 = Some ?s4" using ts(1) by (simp add: init_terminal_def)
  let ?s' = "sti (?s4\<lparr>fs_sections := init_fs (fs_mem ?s4) fs_address\<rparr>)"
  have run: "init_devices E L H K fs_address s = Some ?s'"
    using s1(1) s2 s4 by (simp add: init_devices_def s3_def Let_def)
  have sel: "terms ?s' = ts" "processes ?s' = processes s" "pcbs ?s' = pcbs s" "fs_mem ?s' = fs_mem s"
      "user_mem ?s' = user_mem s" "idt ?s' = idt s1" "page_directory ?s' = page_directory s2"
      "page_table_0 ?s' = page_table_0 s2" "vid_page_table_0 ?s' = vid_page_table_0 s2" "iflag ?s'"
      "fs_sections ?s' = init_fs (fs_mem s) fs_address" "ldt_desc_ptr ?s' = ldt_desc_ptr s"
      "tss_desc_ptr ?s' = tss_desc_ptr s"
    using k3 f2 t by (simp_all add: kept_def sti_def)
  have "paging_inv L ?s'" using inv2 paging_inv_cong [of ?s' s2 L] sel(7-9) by simp
  moreover have "irq_enabled ?s' j \<longleftrightarrow> j \<in> {1, 2, 8}" if "j < 16" for j
    using irq3 [OF that] irq_enabled_cong [of ?s' s3 j] by (simp add: sti_def)
  ultimately show ?thesis using run ts sel s1(2) by (intro exI [of _ ?s']) simp
qed

lemma kern_more:
  assumes "kstate.more s' = kstate.more s"
  shows "idt s' = idt s" "ldt_desc_ptr s' = ldt_desc_ptr s" "tss_desc_ptr s' = tss_desc_ptr s"
  using assms by (cases s; cases s'; simp)+

lemma power_on_load: "power_on s \<Longrightarrow> power_on (load_tss K (load_ldt K s))"
  by (simp add: power_on_def load_tss_def load_ldt_def Let_def con_view_def)

lemma load_descriptors:
  "seg_base (ldt_desc_ptr (load_tss K (load_ldt K s))) = ldt_addr K"
  "seg_limit (ldt_desc_ptr (load_tss K (load_ldt K s))) = take_bit 20 (ldt_size K)"
  "seg_base (tss_desc_ptr (load_tss K (load_ldt K s))) = tss_addr K"
  "seg_limit (tss_desc_ptr (load_tss K (load_ldt K s))) = take_bit 20 (tss_size K)"
  by (simp_all add: load_tss_def load_ldt_def Let_def seg_base_set seg_limit_set)

lemma power_on_frame: "con_frame s s' \<Longrightarrow> con_ok s' \<Longrightarrow> power_on s \<Longrightarrow> power_on s' \<and> fs_mem s' = fs_mem s"
  by (erule con_frame_elim) (simp add: power_on_def)

text \<open>
  What the boot loader has to leave: the cleared memory of the kernel image, a boot structure at \<open>a\<close>
  that can be reported and names a module, and in that module a file system whose file \<open>shell\<close> is the
  executable \<open>bin\<close>. The file system is read after paging is on, without a mapping of its own: the module has
  to hold all of it and to lie in the 4 MB of the kernel, below the process control blocks.
\<close>

definition boot_module :: "u32 \<Rightarrow> 'a kernel_scheme \<Rightarrow> module_t" where
  "boot_module a s = read_module (fs_mem s) (mods_addr (read_mbi (fs_mem s) a))"

definition module_placed :: "mem \<Rightarrow> module_t \<Rightarrow> bool" where
  "module_placed m md \<longleftrightarrow> 0x400000 \<le> mod_start md \<and> mod_end md \<le> 0x7F8000 \<and>
     (let f = init_fs m (mod_start md)
      in unat (mod_start md) + 4096 * (1 + unat (num_inodes m f) + unat (num_data_blocks m f)) \<le> unat (mod_end md))"

definition bootable :: "env \<Rightarrow> u32 \<Rightarrow> u8 list \<Rightarrow> 'a kernel_scheme \<Rightarrow> bool" where
  "bootable E a bin s \<longleftrightarrow> power_on s \<and>
     (let mbi = read_mbi (fs_mem s) a;
          f = init_fs (fs_mem s) (mod_start (boot_module a s))
      in mbi_readable (fs_mem s) mbi \<and> CHECK_FLAG (mbi_flags mbi) 3 \<and> mods_count mbi \<noteq> 0 \<and>
         module_placed (fs_mem s) (boot_module a s) \<and> 28 \<le> length bin \<and> length bin \<le> 0x3B8000 \<and>
         (\<exists>d. program_file E (s\<lparr>fs_sections := f\<rparr>) (bytes ''shell'' @ [0]) = Some d \<and>
              bin = contents (fs_mem s) f (inode_index d)))"

lemma module_mapped:
  assumes "paging_inv L s'" "module_placed m md" "mod_start md \<le> va" "va < mod_end md"
  shows "translate L s' False va = Some va"
proof -
  have "0x400000 \<le> unat va" "unat va < 0x800000"
    using assms(2-4) by (auto simp: module_placed_def word_le_nat_alt word_less_nat_alt)
  then have "unat va div 2 ^ 22 = 1" by simp
  then have "unat (drop_bit 22 va) = 1" by (simp add: drop_bit_eq_div unat_div)
  then show ?thesis by (rule paging_inv_kernel [OF assms(1)])
qed

lemma entry_ok:
  assumes "bootable E a bin s" "env_ok E"
  shows "\<exists>s'. entry E L H K MULTIBOOT_BOOTLOADER_MAGIC a s = Some (Boots (Iret (entry_word bin) s')) \<and>
    proc_chains (\<lambda>t. [t]) s' \<and> tty_ids_ok s' \<and> paging_inv L s' \<and> exec_term_id s' = 0 \<and> running s' = 0 \<and> program_frame L s' 2 \<and>
    processes s' = [True, False, False, False, False, False, False] \<and> iflag s' \<and>
    handlers_at H (idt s') \<and>
    (\<forall>va. mod_start (boot_module a s) \<le> va \<and> va < mod_end (boot_module a s) \<longrightarrow> translate L s' False va = Some va) \<and>
    seg_base (ldt_desc_ptr s') = ldt_addr K \<and> seg_limit (ldt_desc_ptr s') = take_bit 20 (ldt_size K) \<and>
    seg_base (tss_desc_ptr s') = tss_addr K \<and> seg_limit (tss_desc_ptr s') = take_bit 20 (tss_size K) \<and>
    (\<forall>j < 16. irq_enabled s' j \<longleftrightarrow> j \<in> {0, 1, 2, 8})"
proof -
  define mbi where "mbi = read_mbi (fs_mem s) a"
  define base where "base = mod_start (boot_module a s)"
  define f where "f = init_fs (fs_mem s) base"
  have po: "power_on s" and mb: "mods_count mbi \<noteq> 0" "CHECK_FLAG (mbi_flags mbi) 3" "mbi_readable (fs_mem s) mbi"
    and bin: "28 \<le> length bin" "length bin \<le> 0x3B8000"
    using assms(1) by (simp_all add: bootable_def Let_def mbi_def)
  obtain d where d: "program_file E (s\<lparr>fs_sections := f\<rparr>) (bytes ''shell'' @ [0]) = Some d"
      "bin = contents (fs_mem s) f (inode_index d)"
    using assms(1) by (auto simp: bootable_def Let_def mbi_def base_def f_def)
  have "con_ok s" using po by (simp add: power_on_def)
  from multiboot_report_ok [OF this mbi_def mb, of "uninit_fs_address K"] obtain s1 where
    s1: "multiboot_report (fs_mem s) (uninit_fs_address K) MULTIBOOT_BOOTLOADER_MAGIC a s = Some (Inr (base, s1))"
      "con_ok s1" "con_frame s s1" unfolding base_def boot_module_def mbi_def by blast
  let ?s2 = "load_tss K (load_ldt K s1)"
  have p2: "power_on ?s2" "fs_mem ?s2 = fs_mem s"
    using power_on_frame [OF s1(3,2) po] power_on_load [of s1 K]
    by (auto simp: load_tss_def load_ldt_def Let_def)
  obtain s3 where s3: "init_devices E L H K base ?s2 = Some s3" "paging_inv L s3"
      "length (terms s3) = 3" "\<forall>t \<in> set (terms s3). buff_save t \<noteq> [] \<and> length (vid_save t) = 4000"
      "processes s3 = processes ?s2" "pcbs s3 = pcbs ?s2" "fs_mem s3 = fs_mem s" "fs_sections s3 = f"
      "ldt_desc_ptr s3 = ldt_desc_ptr ?s2" "tss_desc_ptr s3 = tss_desc_ptr ?s2"
      "handlers_at H (idt s3)"
      "\<forall>j < 16. irq_enabled s3 j \<longleftrightarrow> j \<in> {1, 2, 8}"
    using init_devices_ok [OF p2(1), of E L H K base] p2(2) f_def by auto
  have pf: "program_file E s3 (bytes ''shell'' @ [0]) = Some d"
    using d(1) program_file_cong [of s3 "s\<lparr>fs_sections := f\<rparr>" E] s3(7,8) by simp
  have len: "length (processes s3) = 7" "length (page_directory s3) = 1024" "\<forall>p. pcb_shape (pcbs s3 p)"
    using p2(1) s3(2,5,6) by (auto simp: power_on_def paging_inv_def)
  obtain s' where s': "boot E L s3 = Some (Iret (entry_word bin) s')" "proc_chains (\<lambda>t. [t]) s'" "tty_ids_ok s'"
      "processes s' = [True, False, False, False, False, False, False]" "exec_term_id s' = 0" "running s' = 0" "program_frame L s' 2"
      "paging_inv L s'" "iflag s'" "\<forall>j < 16. irq_enabled s' j \<longleftrightarrow> j = 0 \<or> irq_enabled s3 j"
      "kstate.more s' = kstate.more s3"
    using boot_ok [OF s3(3,4) len assms(2) pf, of bin L] s3(2,7,8) d(2) bin by auto
  have run: "entry E L H K MULTIBOOT_BOOTLOADER_MAGIC a s = Some (Boots (Iret (entry_word bin) s'))"
    unfolding entry_def s1(1) bind.bind_lunit sum.case prod.case Let_def s3(1) s'(1) ..
  note more = kern_more [OF s'(11)]
  have "\<forall>j < 16. irq_enabled s' j \<longleftrightarrow> j \<in> {0, 1, 2, 8}" using s'(10) s3(12) by auto
  moreover have "module_placed (fs_mem s) (boot_module a s)" using assms(1) by (simp add: bootable_def Let_def)
  then have "\<forall>va. mod_start (boot_module a s) \<le> va \<and> va < mod_end (boot_module a s) \<longrightarrow> translate L s' False va = Some va"
    using module_mapped [OF s'(8)] by blast
  ultimately show ?thesis using run s' s3(9-11) load_descriptors [of K s1] by (intro exI [of _ s']) (simp add: more)
qed

text \<open>
  C5: From power-on to the first shell. With a readable boot structure whose first module is a file system
  that holds an executable \<open>shell\<close> and lies in the 4 MB of the kernel, \<open>entry\<close> ends in user mode at the
  entry point of the shell: each of the three terminals has the control block of its shell, the first
  shell is the one active process and its program is mapped, the page tables isolate user mode and keep
  the whole module readable for the kernel at its own addresses, vectors 0 to 19 lead to the handlers of
  the exceptions, 0x80 to the system call, 0x20, 0x21 and 0x28 to timer, keyboard and clock, the
  descriptors of LDT and TSS have the addresses and limits (of 20 bits) of their objects, and exactly the
  interrupt lines of timer, keyboard, cascade and clock are open.
\<close>

theorem entry_boots:
  assumes "bootable E a bin s" "env_ok E"
  shows "\<exists>s'. entry E L H K MULTIBOOT_BOOTLOADER_MAGIC a s = Some (Boots (Iret (entry_word bin) s')) \<and>
    proc_chains (\<lambda>t. [t]) s' \<and> tty_ids_ok s' \<and> paging_inv L s' \<and> exec_term_id s' = 0 \<and> running s' = 0 \<and> program_frame L s' 2 \<and>
    processes s' = [True, False, False, False, False, False, False] \<and> iflag s' \<and>
    (\<forall>n < 20. gate_offset (idt s' ! n) = interrupt_addr H n) \<and>
    gate_offset (idt s' ! 0x80) = syscall_wrapper H \<and> gate_offset (idt s' ! 0x20) = pit_wrapper H \<and>
    gate_offset (idt s' ! 0x21) = keyboard_wrapper H \<and> gate_offset (idt s' ! 0x28) = rtc_wrapper H \<and>
    (\<forall>va. mod_start (boot_module a s) \<le> va \<and> va < mod_end (boot_module a s) \<longrightarrow> translate L s' False va = Some va) \<and>
    seg_base (ldt_desc_ptr s') = ldt_addr K \<and> seg_limit (ldt_desc_ptr s') = take_bit 20 (ldt_size K) \<and>
    seg_base (tss_desc_ptr s') = tss_addr K \<and> seg_limit (tss_desc_ptr s') = take_bit 20 (tss_size K) \<and>
    (\<forall>j < 16. irq_enabled s' j \<longleftrightarrow> j \<in> {0, 1, 2, 8})"
  using entry_ok [OF assms, of L H K] by (simp add: handlers_at_def)

end
