(* ===== verification/Sample.thy ===== *)
theory Sample
  imports Kernel
begin

text \<open>
  A concrete machine: a file system image with one executable file named \<open>shell\<close>, three shells
  just booted, the first terminal running and displayed. The lemmas below evaluate the invariants
  on it, so that the witnesses can apply the properties to it.
\<close>

subsection \<open>The file system image\<close>

text \<open>
  One directory entry, one inode, one data block; the file has 28 bytes and entry point 0x08048018.
  At 0x10000 there is the boot structure, which names one module, described at 0x10100: the image, for a
  loader that puts all this at 0x500000.
\<close>

definition sample_mem :: mem where
  "sample_mem = (\<lambda>_. 0)
     (0 := 1, 4 := 1, 8 := 1,
      64 := 115, 65 := 104, 66 := 101, 67 := 108, 68 := 108, 96 := 2,
      4096 := 28,
      8192 := 0x7f, 8193 := 0x45, 8194 := 0x4c, 8195 := 0x46,
      8216 := 0x18, 8217 := 0x80, 8218 := 0x04, 8219 := 0x08,
      0x10000 := 8, 0x10014 := 1, 0x10019 := 1, 0x1001A := 0x51,
      0x10102 := 0x50, 0x10105 := 0x30, 0x10106 := 0x50)"

definition sample_fs :: fs where
  "sample_fs = init_fs sample_mem 0"

definition sample_file :: "u8 list" where
  "sample_file = elf_magic @ replicate 20 0 @ [0x18, 0x80, 0x04, 0x08]"

lemma sample_fs_eq:
  "sample_fs = \<lparr>boot_block = 0, dentries = 64, inodes = 4096, data_blocks = 8192\<rparr>"
  by (simp add: sample_fs_def init_fs_def ld32_def sample_mem_def)

lemma sample_inode:
  "inode_length sample_mem sample_fs 0 = 28" "num_inodes sample_mem sample_fs = 1"
  "num_data_blocks sample_mem sample_fs = 1" "data_index sample_mem sample_fs 0 0 = 0"
  by (simp_all add: sample_fs_eq inode_length_def num_inodes_def num_data_blocks_def data_index_def
      ld32_def sample_mem_def)

lemma sample_inode_ok: "inode_ok sample_mem sample_fs 0"
  by (simp add: inode_ok_def blocks_valid_def sample_inode)

lemma sample_contents: "contents sample_mem sample_fs 0 = sample_file"
proof -
  have "[0..<28] = [0, 1, 2, 3, 4, 5, 6, 7, 8, 9, 10, 11, 12, 13, 14, 15, 16, 17, 18, 19, 20, 21, 22,
      23, 24, 25, 26, 27 :: nat]" by (simp add: upt_rec)
  moreover have "replicate 20 (0 :: u8) = [0, 0, 0, 0, 0, 0, 0, 0, 0, 0, 0, 0, 0, 0, 0, 0, 0, 0, 0, 0]"
    by (simp add: numeral_eq_Suc)
  ultimately show ?thesis
    by (simp add: contents_def sample_inode sample_file_def elf_magic_def file_byte_def block_byte_def
        sample_fs_eq sample_inode [unfolded sample_fs_eq] del: upt_rec_numeral)
      (simp add: sample_mem_def)
qed

lemma mem_bytes_Suc: "mem_bytes m a (Suc n) = m a # mem_bytes m (a + 1) n"
proof -
  have "[0..<Suc n] = 0 # map Suc [0..<n]" by (simp add: map_Suc_upt upt_conv_Cons del: upt_Suc)
  then show ?thesis by (simp add: mem_bytes_def add.assoc del: upt_Suc)
qed

lemma sample_entry_0: "entry_name sample_mem sample_fs 0 = bytes ''shell''"
proof -
  have "mem_bytes sample_mem 64 64 = bytes ''shell'' @ 0 # mem_bytes sample_mem 70 58"
    using mem_bytes_Suc [of sample_mem 64 63] mem_bytes_Suc [of sample_mem 65 62]
      mem_bytes_Suc [of sample_mem 66 61] mem_bytes_Suc [of sample_mem 67 60]
      mem_bytes_Suc [of sample_mem 68 59] mem_bytes_Suc [of sample_mem 69 58]
    by (simp add: sample_mem_def bytes_def of_char_def)
  then show ?thesis
    by (simp add: entry_name_def dentry_addr_def sample_fs_eq cstr_simps bytes_def of_char_def)
qed

subsection \<open>The state\<close>

definition sample_fd :: fd_entry_t where
  "sample_fd = \<lparr>fo_jump_table_ptr = None, fd_inode_index = 0, file_position = 0, fd_flags = 0\<rparr>"

definition sample_pcb :: "nat \<Rightarrow> pcb_t" where
  "sample_pcb p =
     \<lparr>fd_array = std_fds (replicate FD_ARRAY_LEN sample_fd), filenames = replicate FD_ARRAY_LEN (replicate 32 0),
      process_id = p, parent_ebp = 0, parent_esp = 0, parent_pcb = None, child_pcb = None,
      pcb_args = replicate 128 0, return_ebp = 0, return_esp = 0, pcb_entry = 0x08048018\<rparr>"

definition sample_term :: term_t where
  "sample_term = \<lparr>x_save = 0, y_save = 0, buff_save = replicate BUFF_SIZE 0, vid_save = cell_run 32 2000,
     enters_save = 0, buff_index_save = 0\<rparr>"

definition sample :: kstate where
  "sample =
     \<lparr>out_log = [], iflag = True, master_mask = 0xFF, slave_mask = 0xFF,
      screen_x = 0, screen_y = 0, video_mem = cell_run 32 2000,
      SHIFT_LEFT_FLAG = False, SHIFT_RIGHT_FLAG = False, CAPS_LOCK_FLAG = False, CTRL_FLAG = False,
      alt_flag = False, key_buff = replicate BUFF_SIZE 0, num_enters = 0, buff_index = 0,
      terms = replicate NUM_TERMINALS sample_term, curr_term_id = 0, exec_term_id = 0,
      processes = [True, False, False, False, False, False, False],
      rtc_flags = [0, 0, 0],
      page_directory = replicate 1024 0, page_table_0 = replicate 1024 0, vid_page_table_0 = replicate 1024 0,
      cr0 = 0, cr3 = 0, cr4 = 0, active_tasks = 0,
      pcbs = sample_pcb, tss_esp0 = 0, tss_ss0 = 0, user_mem = (\<lambda>_. 0),
      fs_mem = sample_mem, fs_sections = sample_fs\<rparr>"

definition sample_dentry :: dentry_t where
  "sample_dentry = \<lparr>file_name = replicate 32 0, file_type = 0, inode_index = 0, d_reserved = replicate 24 0\<rparr>"

definition sample_env :: env where
  "sample_env = \<lparr>beyond_key_buff = 0, uninit_rate = 0, rtc_reg_a = 0, uninit_dentry = sample_dentry,
     uninit_cmd = replicate 128 0, uninit_args = replicate 128 0, before_args = 0, uninit_entry = 0,
     reg_esp = 0x7FFF00, reg_ebp = 0x7FFF20\<rparr>"

definition sample_layout :: layout where
  "sample_layout = \<lparr>page_directory_addr = 0x400000, page_table_0_addr = 0x401000,
     vid_page_table_0_addr = 0x402000, vid_save_addr = (\<lambda>i. 0x403000 + 0x1000 * word_of_int i)\<rparr>"

definition sample_chains :: "nat \<Rightarrow> nat list" where
  "sample_chains t = [t]"

subsection \<open>Its invariants\<close>

lemma sample_sel:
  "fs_mem sample = sample_mem" "fs_sections sample = sample_fs" "exec_term_id sample = 0"
  "curr_term_id sample = 0" "processes sample = [True, False, False, False, False, False, False]"
  "pcbs sample = sample_pcb" "page_directory sample = replicate 1024 0"
  "page_table_0 sample = replicate 1024 0" "vid_page_table_0 sample = replicate 1024 0"
  "key_buff sample = replicate BUFF_SIZE 0" "num_enters sample = 0" "buff_index sample = 0"
  "CTRL_FLAG sample = False" "rtc_flags sample = [0, 0, 0]" "terms sample = replicate NUM_TERMINALS sample_term"
  "iflag sample"
  by (simp_all add: sample_def)

lemma sample_env_ok: "env_ok sample_env"
  by (simp add: env_ok_def sample_env_def sample_dentry_def)

lemma sample_layout_ok: "layout_ok sample_layout"
proof -
  have "{0..<3} = {0, 1, 2 :: int}" by auto
  then show ?thesis by (simp add: layout_ok_def sample_layout_def)
qed

lemma sample_tty_ids: "tty_ids_ok sample"
  by (simp add: tty_ids_ok_def sample_sel)

lemma sample_con_ok: "con_ok sample"
  by (simp add: con_view_def sample_def)

lemma sample_tty_ok: "tty_ok sample"
  using sample_tty_ids sample_con_ok
  by (auto simp: tty_ok_def tty_screen_def sample_sel term_view_def sample_term_def)

lemma sample_pcb_shape: "pcb_shape (sample_pcb p)"
  using std_fds_entries(1) [of "replicate FD_ARRAY_LEN sample_fd"] by (simp add: pcb_shape_def sample_pcb_def)

lemma sample_proc_chains: "proc_chains sample_chains sample"
proof -
  have "p < 7 \<Longrightarrow> 3 \<le> p \<Longrightarrow> \<not> processes sample ! p" for p
    using less_Suc_eq [of p 6] by (auto simp: sample_sel nth_Cons' less_Suc_eq numeral_eq_Suc)
  then show ?thesis
    unfolding proc_chains_def using sample_pcb_shape
    by (auto simp: sample_sel sample_chains_def sample_pcb_def)
qed

lemma sample_fd_ok: "fd_ok sample"
  using sample_proc_chains sample_tty_ids by (auto simp: fd_ok_def proc_inv_def)

lemma sample_running: "running sample = 0"
  using executing_pcb [OF sample_proc_chains sample_tty_ids]
  by (simp add: running_def sample_sel sample_chains_def)

lemma sample_fd_view: "2 \<le> i \<Longrightarrow> fd_view sample i = None"
  using std_fds_entries(1,6) [of "replicate FD_ARRAY_LEN sample_fd"]
  by (auto simp: fd_view_def sample_running sample_sel sample_pcb_def Let_def)

lemma sample_free_fd: "free_fd sample = Some 2"
  by (simp add: free_fd_def upt_rec [of 2] sample_fd_view del: upt_rec_numeral)

lemma sample_lookup: "lookup_name sample (bytes ''shell'' @ [0]) = Some 0"
  by (simp add: lookup_name_def cstr_simps upt_rec [of 0] sample_sel sample_entry_0 del: upt_rec_numeral)
    (simp add: bytes_def of_char_def cstr_simps)

definition sample_file_dentry :: dentry_t where
  "sample_file_dentry = dentry_at sample_mem sample_fs 0 sample_dentry"

lemma sample_file_dentry_sel: "inode_index sample_file_dentry = 0" "file_type sample_file_dentry = 2"
  by (simp_all add: sample_file_dentry_def dentry_at_def dentry_addr_def sample_fs_eq ld32_def sample_mem_def)

lemma sample_program_file: "program_file sample_env sample (bytes ''shell'' @ [0]) = Some sample_file_dentry"
  using sample_lookup sample_inode_ok sample_file_dentry_sel(1)
  by (simp add: program_file_def is_elf_def sample_sel sample_env_def sample_file_dentry_def sample_contents
      sample_file_def elf_magic_def Let_def)

lemma sample_alloc: "alloc_pid sample = Some 3"
  by (simp add: alloc_pid_def sample_sel upt_rec [of 3] nth_Cons' del: upt_rec_numeral)

lemma length_sample_file: "length sample_file = 28"
  by (simp add: sample_file_def elf_magic_def)

subsection \<open>The rest of the directory is empty\<close>

lemma sample_gap: "97 \<le> a \<Longrightarrow> a < 4096 \<Longrightarrow> sample_mem a = 0"
  unfolding sample_mem_def by (auto simp: fun_upd_def)

lemma sample_gap_at:
  assumes "k + 64 * i < 4096" "97 \<le> k + 64 * i"
  shows "sample_mem (of_nat k + of_nat i * 64) = 0"
proof (rule sample_gap)
  have "of_nat k + of_nat i * 64 = (of_nat (k + 64 * i) :: u32)" by (simp add: mult.commute)
  moreover have "unat (of_nat (k + 64 * i) :: u32) = k + 64 * i"
    using assms(1) by (simp only: unat_of_nat) simp
  ultimately have "unat (of_nat k + of_nat i * 64 :: u32) = k + 64 * i" by (simp only:)
  then show "97 \<le> (of_nat k + of_nat i * 64 :: u32)" "of_nat k + of_nat i * 64 < (4096 :: u32)"
    using assms by (simp_all add: word_le_nat_alt word_less_nat_alt)
qed

lemma sample_entry_empty: "1 \<le> i \<Longrightarrow> i < 63 \<Longrightarrow> entry_name sample_mem sample_fs i = []"
  using sample_gap_at [of 64 i] mem_bytes_Suc [of sample_mem "64 + of_nat i * 64" 63]
  by (simp add: entry_name_def dentry_addr_def sample_fs_eq cstr_simps)

lemma sample_types_small:
  assumes "i < 63"
  shows "ld32 sample_mem (dentry_addr sample_fs i + 32) < 2 ^ 24"
proof -
  let ?a = "64 + of_nat i * 64 + 32 :: u32"
  have "sample_mem (?a + 1) = 0" "sample_mem (?a + 2) = 0" "sample_mem (?a + 3) = 0"
    using sample_gap_at [of 97 i] sample_gap_at [of 98 i] sample_gap_at [of 99 i] assms
    by (simp_all add: algebra_simps)
  then have "ld32 sample_mem (dentry_addr sample_fs i + 32) = ucast (sample_mem ?a)"
    by (simp add: ld32_def dentry_addr_def sample_fs_eq)
  moreover have "unat (ucast (sample_mem ?a) :: u32) < 256"
    using unsigned_less [where ?'a = nat and ?'b = 8, of "sample_mem ?a"] by (simp add: unsigned_ucast_eq take_bit_nat_def)
  ultimately show ?thesis by (simp add: word_less_nat_alt)
qed

lemma sample_used_entries: "filter (\<lambda>i. entry_name sample_mem sample_fs i \<noteq> []) [0..<63] = [0]"
proof -
  have "[0..<63] = 0 # [1..<63 :: nat]" by (simp add: upt_rec [of 0] del: upt_rec_numeral)
  moreover have "filter (\<lambda>i. entry_name sample_mem sample_fs i \<noteq> []) [1..<63] = []"
    using sample_entry_empty by (auto simp: filter_empty_conv simp del: upt_rec_numeral)
  ultimately show ?thesis by (simp add: sample_entry_0 bytes_def del: upt_rec_numeral)
qed

subsection \<open>A program started by the shell\<close>

definition sample_child :: kstate where
  "sample_child = sample\<lparr>processes := [True, False, False, True, False, False, False],
     pcbs := sample_pcb(0 := (sample_pcb 0)\<lparr>child_pcb := Some 3\<rparr>,
       3 := (sample_pcb 3)\<lparr>parent_pcb := Some 0, parent_esp := 0x7FFF00, parent_ebp := 0x7FFF20\<rparr>)\<rparr>"

lemma sample_child_sel:
  "exec_term_id sample_child = 0" "page_directory sample_child = replicate 1024 0"
  "parent_esp (pcbs sample_child 3) = 0x7FFF00" "parent_ebp (pcbs sample_child 3) = 0x7FFF20"
  "tty_ids_ok sample_child" "con_ok sample_child"
  using sample_tty_ids sample_con_ok
  by (simp_all add: sample_child_def sample_sel tty_ids_ok_def con_view_def)

lemma sample_child_chains: "proc_chains (sample_chains(0 := [0, 3])) sample_child"
  using proc_chains_extend [OF sample_proc_chains, of 0 3 sample_child
      "(sample_pcb 3)\<lparr>parent_pcb := Some 0, parent_esp := 0x7FFF00, parent_ebp := 0x7FFF20\<rparr>"]
    sample_pcb_shape [of 3]
  by (simp add: sample_chains_def sample_child_def sample_sel pcb_shape_def sample_pcb_def)

subsection \<open>A command\<close>

definition sample_command :: "u8 list" where
  "sample_command = bytes ''shell -x'' @ [0]"

lemma sample_command_ok: "0 \<in> set sample_command" "length (cstr sample_command) < 128"
  by (simp_all add: sample_command_def bytes_def of_char_def cstr_simps)

lemma sample_command_words:
  "first_word sample_command = bytes ''shell''" "other_words sample_command = bytes ''-x''"
  by (simp_all add: first_word_def other_words_def sample_command_def bytes_def of_char_def cstr_simps words_word)

lemma sample_command_file: "program_file sample_env sample (first_word sample_command) = Some sample_file_dentry"
proof -
  have "cstr (bytes ''shell'') = cstr (bytes ''shell'' @ [0])" by (simp add: bytes_def of_char_def cstr_simps)
  from lookup_name_cstr [OF this, of sample] show ?thesis
    using sample_program_file by (simp add: program_file_def sample_command_words(1))
qed

lemma sample_entry_point: "entry_word sample_file = 0x08048018"
proof -
  have "drop 24 sample_file = [0x18, 0x80, 0x04, 0x08]" by (simp add: sample_file_def elf_magic_def)
  then show ?thesis by (simp add: entry_word_def buf_int32_def rd_def)
qed

subsection \<open>Interrupt vectors\<close>

definition sample_isr :: isr_addrs where
  "sample_isr = \<lparr>interrupt_addr = (\<lambda>n. 0x402000 + of_nat n), syscall_wrapper = 0x401234,
     keyboard_wrapper = 0x401300, rtc_wrapper = 0x401400, pit_wrapper = 0x401500\<rparr>"

definition sample_kern :: kern where
  "sample_kern = kstate.extend sample (kern.fields (replicate 256
     \<lparr>offset_15_00 = 0, seg_selector = 0, reserved4 = 0, reserved3 = 0, reserved2 = 0, reserved1 = 0,
      gate_size = 0, reserved0 = 0, gate_dpl = 0, gate_present = 0, offset_31_16 = 0\<rparr>))"

subsection \<open>A machine at power-on\<close>

definition sample_desc :: seg_desc_t where
  "sample_desc = \<lparr>seg_lim_15_00 = 0, base_15_00 = 0, base_23_16 = 0, seg_type = 0, seg_sys = 0, seg_dpl = 0,
     seg_present = 0, seg_lim_19_16 = 0, seg_avail = 0, seg_reserved = 0, opsize = 0, granularity = 0, base_31_24 = 0\<rparr>"

definition boot_mem :: mem where
  "boot_mem a = sample_mem (a - 0x500000)"

definition sample_kernel :: kernel where
  "sample_kernel = (kern.extend sample_kern (kernel.fields sample_desc sample_desc 0 0 0))\<lparr>fs_mem := boot_mem\<rparr>"

definition sample_link :: link where
  "sample_link = \<lparr>ldt_addr = 0x00405000, ldt_size = 23, tss_addr = 0x00405100, tss_size = 103, rtc_reg_b = 2,
     uninit_fs_address = 0, uninit_desc = sample_desc\<rparr>"

lemma sample_kernel_sel:
  "fs_mem sample_kernel = boot_mem" "length (idt sample_kernel) = 256" "con_view sample_kernel = con_view sample"
  "terms sample_kernel = terms sample" "processes sample_kernel = processes sample" "pcbs sample_kernel = pcbs sample"
  "page_directory sample_kernel = replicate 1024 0" "page_table_0 sample_kernel = replicate 1024 0"
  "vid_page_table_0 sample_kernel = replicate 1024 0"
  by (simp_all add: sample_kernel_def sample_kern_def sample_def kstate.defs kern.defs kernel.defs con_view_def)

lemma sample_power_on: "power_on sample_kernel"
  using sample_con_ok sample_pcb_shape
  by (simp add: power_on_def sample_kernel_sel) (simp add: sample_sel sample_term_def)

text \<open>An image is the same wherever the loader puts it.\<close>

lemma ld32_moved: "ld32 (\<lambda>a. m (a - base)) (base + a) = ld32 m a"
  by (simp add: ld32_def add.assoc)

definition moved :: "u32 \<Rightarrow> fs \<Rightarrow> fs" where
  "moved base f = \<lparr>boot_block = base + boot_block f, dentries = base + dentries f, inodes = base + inodes f,
     data_blocks = base + data_blocks f\<rparr>"

lemma moved_image:
  fixes m :: mem and base :: u32
  defines "m' \<equiv> \<lambda>a. m (a - base)"
  shows "init_fs m' base = moved base (init_fs m 0)" "num_inodes m' (moved base f) = num_inodes m f"
    "num_data_blocks m' (moved base f) = num_data_blocks m f" "contents m' (moved base f) = contents m f"
    "inode_ok m' (moved base f) = inode_ok m f" "entry_name m' (moved base f) = entry_name m f"
    "dentry_at m' (moved base f) = dentry_at m f"
proof -
  note ld = ld32_moved [of m base, folded m'_def]
  have sec: "boot_block (moved base f) + x = base + (boot_block f + x)" "inodes (moved base f) + x = base + (inodes f + x)"
      "data_blocks (moved base f) + x = base + (data_blocks f + x)" for x
    by (simp_all add: moved_def add.assoc)
  show "init_fs m' base = moved base (init_fs m 0)" by (simp add: init_fs_def moved_def ld)
  show n: "num_inodes m' (moved base f) = num_inodes m f" "num_data_blocks m' (moved base f) = num_data_blocks m f"
    by (simp_all add: num_inodes_def num_data_blocks_def sec ld)
  have il: "inode_length m' (moved base f) = inode_length m f" "data_index m' (moved base f) = data_index m f"
    by (simp_all add: inode_length_def data_index_def sec ld add.assoc fun_eq_iff)
  have "block_byte m' (moved base f) = block_byte m f"
    by (simp add: block_byte_def m'_def sec add.assoc fun_eq_iff)
  then have "file_byte m' (moved base f) = file_byte m f" by (simp add: file_byte_def il fun_eq_iff)
  then show "contents m' (moved base f) = contents m f" by (simp add: contents_def il fun_eq_iff)
  show "inode_ok m' (moved base f) = inode_ok m f" by (simp add: inode_ok_def blocks_valid_def n il fun_eq_iff)
  have da: "dentry_addr (moved base f) i = base + dentry_addr f i" for i by (simp add: dentry_addr_def moved_def add.assoc)
  then show e: "entry_name m' (moved base f) = entry_name m f"
    by (simp add: entry_name_def mem_bytes_def m'_def add.assoc fun_eq_iff)
  show "dentry_at m' (moved base f) = dentry_at m f" by (simp add: dentry_at_def e da ld add.assoc fun_eq_iff)
qed

lemma boot_image:
  "init_fs boot_mem 0x500000 = moved 0x500000 sample_fs" "num_inodes boot_mem (moved 0x500000 sample_fs) = 1"
  "num_data_blocks boot_mem (moved 0x500000 sample_fs) = 1"
  "contents boot_mem (moved 0x500000 sample_fs) = contents sample_mem sample_fs"
  "inode_ok boot_mem (moved 0x500000 sample_fs) = inode_ok sample_mem sample_fs"
  "entry_name boot_mem (moved 0x500000 sample_fs) = entry_name sample_mem sample_fs"
  "dentry_at boot_mem (moved 0x500000 sample_fs) = dentry_at sample_mem sample_fs"
proof -
  have m: "boot_mem = (\<lambda>a. sample_mem (a - 0x500000))" by (simp add: boot_mem_def fun_eq_iff)
  show "init_fs boot_mem 0x500000 = moved 0x500000 sample_fs" "num_inodes boot_mem (moved 0x500000 sample_fs) = 1"
    "num_data_blocks boot_mem (moved 0x500000 sample_fs) = 1"
    "contents boot_mem (moved 0x500000 sample_fs) = contents sample_mem sample_fs"
    "inode_ok boot_mem (moved 0x500000 sample_fs) = inode_ok sample_mem sample_fs"
    "entry_name boot_mem (moved 0x500000 sample_fs) = entry_name sample_mem sample_fs"
    "dentry_at boot_mem (moved 0x500000 sample_fs) = dentry_at sample_mem sample_fs"
    unfolding m by (simp_all only: moved_image sample_fs_def sample_inode [unfolded sample_fs_def])
qed

lemma boot_mbi:
  "mbi_flags (read_mbi boot_mem 0x510000) = 8" "mods_count (read_mbi boot_mem 0x510000) = 1"
  "mods_addr (read_mbi boot_mem 0x510000) = 0x510100" "mod_start (read_module boot_mem 0x510100) = 0x500000"
  "mod_end (read_module boot_mem 0x510100) = 0x503000"
  by (simp_all add: read_mbi_def read_module_def ld32_def boot_mem_def sample_mem_def)

lemma sample_boot_module: "boot_module 0x510000 sample_kernel = read_module boot_mem 0x510100"
  by (simp add: boot_module_def sample_kernel_sel boot_mbi)

lemma sample_bootable: "bootable sample_env 0x510000 sample_file sample_kernel"
proof -
  have "program_file sample_env (sample_kernel\<lparr>fs_sections := moved 0x500000 sample_fs\<rparr>) (bytes ''shell'' @ [0]) =
      program_file sample_env sample (bytes ''shell'' @ [0])"
    by (simp add: program_file_def lookup_name_def is_elf_def sample_kernel_sel sample_sel boot_image Let_def cong: option.case_cong)
  then have pf: "program_file sample_env (sample_kernel\<lparr>fs_sections := moved 0x500000 sample_fs\<rparr>) (bytes ''shell'' @ [0]) =
      Some sample_file_dentry" using sample_program_file by simp
  have "module_placed boot_mem (read_module boot_mem 0x510100)"
    by (simp add: module_placed_def boot_mbi boot_image)
  then show ?thesis
    using sample_power_on pf
    by (simp add: bootable_def Let_def sample_boot_module sample_kernel_sel boot_mbi boot_image mbi_readable_def CHECK_FLAG_def
        length_sample_file sample_contents sample_file_dentry_sel)
qed

end
