(* ===== verification/System.thy ===== *)
theory System
  imports Kernel
begin

text \<open>
  The kernel as a whole: a transition for every system call, interrupt and store of a user program, on
  the states that \<open>entry\<close> leaves. The invariant ties the components together: the process chains
  of the terminals, the terminal ids, the page tables, and that the program page maps the frame of the
  process that runs.
\<close>

unbundle bit_operations_syntax

subsection \<open>The invariant\<close>

definition maps_process :: "'a paging_scheme \<Rightarrow> nat \<Rightarrow> bool" where
  "maps_process s p \<longleftrightarrow> grants True (page_directory s ! 32) \<and>
     drop_bit 10 (addr (page_directory s ! 32)) = word_of_int (int p + 2)"

definition idle_alone :: "(nat \<Rightarrow> nat list) \<Rightarrow> 'a kstate_scheme \<Rightarrow> bool" where
  "idle_alone cs s \<longleftrightarrow> (\<forall>t < NUM_TERMINALS. \<not> processes s ! t \<longrightarrow> cs t = [t])"

definition kinv_at :: "layout \<Rightarrow> (nat \<Rightarrow> nat list) \<Rightarrow> 'a kstate_scheme \<Rightarrow> bool" where
  "kinv_at L cs s \<longleftrightarrow> proc_chains cs s \<and> idle_alone cs s \<and> tty_ids_ok s \<and> paging_inv L s \<and>
     processes s ! nat (exec_term_id s) \<and> maps_process s (last (cs (nat (exec_term_id s))))"

definition kinv :: "layout \<Rightarrow> 'a kstate_scheme \<Rightarrow> bool" where
  "kinv L s \<longleftrightarrow> (\<exists>cs. kinv_at L cs s)"

lemma kinv_fd_ok: "kinv L s \<Longrightarrow> fd_ok s"
  by (auto simp: kinv_def kinv_at_def fd_ok_def proc_inv_def)

subsection \<open>What the invariant reads\<close>

definition same_core :: "'a kstate_scheme \<Rightarrow> 'a kstate_scheme \<Rightarrow> bool" where
  "same_core s s' \<longleftrightarrow> processes s' = processes s \<and> pcbs s' = pcbs s \<and> length (terms s') = length (terms s) \<and>
     curr_term_id s' = curr_term_id s \<and> exec_term_id s' = exec_term_id s \<and> page_directory s' = page_directory s \<and>
     page_table_0 s' = page_table_0 s \<and> vid_page_table_0 s' = vid_page_table_0 s \<and>
     fs_mem s' = fs_mem s \<and> fs_sections s' = fs_sections s \<and> user_mem s' = user_mem s"

lemma same_core_refl: "same_core s s"
  by (simp add: same_core_def)

lemma same_core_trans: "same_core s t \<Longrightarrow> same_core t u \<Longrightarrow> same_core s u"
  by (simp add: same_core_def)

lemma kinv_at_same_core:
  assumes "kinv_at L cs s" "same_core s s'"
  shows "kinv_at L cs s'"
  using assms paging_inv_cong [of s' s L]
  by (simp add: kinv_at_def same_core_def proc_chains_def idle_alone_def tty_ids_ok_def maps_process_def)

lemma kinv_same_core: "kinv L s \<Longrightarrow> same_core s s' \<Longrightarrow> kinv L s'"
  using kinv_at_same_core unfolding kinv_def by blast

lemma same_core_con_frame: "con_frame s s' \<Longrightarrow> same_core s s'"
  by (erule con_frame_elim) (simp add: same_core_def)

lemma same_core_upd:
  "same_core s (s\<lparr>out_log := l\<rparr>)" "same_core s (s\<lparr>iflag := i\<rparr>)"
  "same_core s (s\<lparr>rtc_flags := r\<rparr>)" "same_core s (s\<lparr>key_buff := kb\<rparr>)" "same_core s (s\<lparr>buff_index := bi\<rparr>)"
  "same_core s (s\<lparr>num_enters := n\<rparr>)" "same_core s (s\<lparr>cr3 := c\<rparr>)"
  "same_core s (s\<lparr>CTRL_FLAG := b\<rparr>)" "same_core s (s\<lparr>SHIFT_LEFT_FLAG := b\<rparr>)" "same_core s (s\<lparr>SHIFT_RIGHT_FLAG := b\<rparr>)"
  "same_core s (s\<lparr>CAPS_LOCK_FLAG := b\<rparr>)" "same_core s (s\<lparr>alt_flag := b\<rparr>)"
  "same_core s (s\<lparr>tss_esp0 := e\<rparr>)" "same_core s (s\<lparr>tss_ss0 := x\<rparr>)" "same_core s (s\<lparr>video_mem := v\<rparr>)"
  by (simp_all add: same_core_def)

lemma same_core_ports: "same_core s (outb d p s)" "same_core s (cli s)" "same_core s (sti s)" "same_core s (send_eoi n s)"
  "same_core s (reload_cr3 L s)" "same_core s (set_frequency k b f s)"
  by (simp_all add: same_core_def outb_def cli_def sti_def send_eoi_def reload_cr3_def set_frequency_def Let_def
      split: option.split)

lemmas same_core_intros = same_core_refl same_core_upd same_core_ports
  same_core_trans [OF _ same_core_ports(1)] same_core_trans [OF _ same_core_ports(2)]
  same_core_trans [OF _ same_core_ports(3)] same_core_trans [OF _ same_core_ports(4)]
  same_core_trans [OF _ same_core_upd(3)] same_core_trans [OF _ same_core_upd(5)] same_core_trans [OF _ same_core_upd(6)]

text \<open>Changes of one PCB that keep its links.\<close>

lemma kinv_upd_pcb:
  assumes "kinv L s"
    and "\<And>b. child_pcb (f b) = child_pcb b" "\<And>b. parent_pcb (f b) = parent_pcb b"
      "\<And>b. process_id (f b) = process_id b" "\<And>b. pcb_shape b \<Longrightarrow> pcb_shape (f b)"
  shows "kinv L (upd_pcb p f s)"
proof -
  obtain cs where cs: "kinv_at L cs s" using assms(1) by (auto simp: kinv_def)
  then have "proc_chains cs (upd_pcb p f s)"
    using assms(2-5) by (intro proc_chains_upd_pcb) (simp_all add: kinv_at_def)
  with cs have "kinv_at L cs (upd_pcb p f s)"
    using paging_inv_cong [of "upd_pcb p f s" s L]
    by (simp add: kinv_at_def upd_pcb_def idle_alone_def tty_ids_ok_def maps_process_def)
  then show ?thesis by (auto simp: kinv_def)
qed

lemma kinv_upd_fd: "kinv L s \<Longrightarrow> kinv L (upd_pcb p (upd_fd i f) s)"
  by (rule kinv_upd_pcb) (simp_all add: pcb_shape_upd_fd)

subsection \<open>Descriptors\<close>

lemma strncpy_length: "strncpy dest src n = Some d \<Longrightarrow> length d = length dest"
proof (induction dest src n arbitrary: d rule: strncpy.induct)
  case (2 dest c src n)
  have "strncpy_fill dest n = Some d \<Longrightarrow> length d = length dest" for dest :: "u8 list" and n d
    by (induction dest n arbitrary: d rule: strncpy_fill.induct) auto
  with 2 show ?case by (auto split: if_splits list.splits)
qed simp

lemma kinv_set_name:
  assumes "kinv L s" "rd (filenames (pcbs s p)) (int i) = Some old" "strncpy old src n = Some nm"
  shows "kinv L (upd_pcb p (\<lambda>b. b\<lparr>filenames := (filenames b)[i := nm]\<rparr>) s)"
proof -
  have "pcb_shape (pcbs s p)" using assms(1) by (auto simp: kinv_def kinv_at_def proc_chains_def)
  then have "length nm = 32"
    using assms(2,3) by (auto simp: pcb_shape_def rd_Some_iff dest!: strncpy_length)
  then have "pcb_shape b \<Longrightarrow> pcb_shape (b\<lparr>filenames := (filenames b)[i := nm]\<rparr>)" for b
    by (auto simp: pcb_shape_def dest!: set_update_subset_insert [THEN subsetD])
  then show ?thesis by (intro kinv_upd_pcb [OF assms(1)]) simp_all
qed

lemma kinv_open:
  assumes "kinv L s" "sys_open E f s = Some (r, s')"
  shows "kinv L s'"
  using assms
  by (auto simp: sys_open_def bind_eq_Some_conv Let_def kinv_upd_fd kinv_set_name split: option.splits if_splits)

lemma kinv_close: "kinv L s \<Longrightarrow> sys_close fd s = Some (r, s') \<Longrightarrow> kinv L s'"
  by (auto simp: sys_close_def bind_eq_Some_conv kinv_upd_fd split: if_splits)

lemma kinv_file_read:
  assumes "kinv L s" "file_read fd n s = Some (r, bs, s')"
  shows "kinv L s'"
proof -
  obtain p pos where "s' = upd_pcb p (upd_fd (nat fd) (\<lambda>e. e\<lparr>file_position := pos\<rparr>)) s"
    using assms(2) by (auto simp: file_read_def bind_eq_Some_conv Let_def split_def)
  then show ?thesis using kinv_upd_fd [OF assms(1)] by simp
qed

lemma kinv_dir_read: "kinv L s \<Longrightarrow> dir_read E fd n s = Some (r, bs, s') \<Longrightarrow> kinv L s'"
  by (auto simp: dir_read_def bind_eq_Some_conv Let_def kinv_upd_fd split: prod.splits)

subsection \<open>Terminals\<close>

lemma on_term_length: "on_term i f s = Some s' \<Longrightarrow> \<exists>ts. length ts = length (terms s) \<and> s' = s\<lparr>terms := ts\<rparr>"
  by (auto simp: on_term_def bind_eq_Some_conv dest: wr_length)

lemma same_core_terms: "length ts = length (terms s) \<Longrightarrow> same_core s (s\<lparr>terms := ts\<rparr>)"
  by (simp add: same_core_def)

lemma same_core_tty_putc: "tty_putc c s = Some s' \<Longrightarrow> same_core s s'"
  by (auto simp: tty_putc_def non_display_putc_def split: if_splits
      dest: putc_frame on_term_length intro: same_core_con_frame same_core_terms)

lemma same_core_terminal_write_loop:
  "terminal_write_loop buf n k s = Some (r, s') \<Longrightarrow> same_core s s'"
proof (induction buf n k s rule: terminal_write_loop.induct)
  case (1 buf n k s)
  then show ?case
    by (auto simp: terminal_write_loop.simps [of buf n k s] same_core_refl split: if_splits option.splits
        dest: same_core_tty_putc intro: same_core_trans)
qed

lemma same_core_terminal_write: "terminal_write fd buf n s = Some (r, s') \<Longrightarrow> same_core s s'"
  by (auto simp: terminal_write_def Let_def split: option.splits
      dest!: same_core_terminal_write_loop intro: same_core_intros same_core_trans [OF same_core_ports(2)])

lemma same_core_shift_buffer:
  assumes "shift_buffer b i s = Some s'"
  shows "same_core s s'"
proof (cases "exec_term_id s = curr_term_id s")
  case True
  then show ?thesis using assms by (auto simp: shift_buffer_def bind_eq_Some_conv Let_def same_core_def)
next
  case False
  then obtain f kb where "on_term (exec_term_id s) f (s\<lparr>key_buff := kb\<rparr>) = Some s'"
    using assms by (auto simp: shift_buffer_def bind_eq_Some_conv Let_def)
  from on_term_length [OF this] show ?thesis by (auto simp: same_core_def)
qed

fun read_state :: "'s read_result \<Rightarrow> 's" where
  "read_state (Read_waits s) = s"
| "read_state (Read_returns v bs s) = s"

lemma same_core_terminal_read:
  assumes "terminal_read b [] fd n s = Some r"
  shows "same_core s (read_state r)"
proof (cases "exec_term_id s = curr_term_id s \<and> 0 < num_enters s")
  case True
  then show ?thesis
    using assms
    by (auto simp: terminal_read_def spin.simps bind_eq_Some_conv Let_def
        dest!: same_core_shift_buffer) (simp add: same_core_def cli_def)
next
  case False
  then have "r = Read_waits (sti s)"
    using assms by (auto simp: terminal_read_def spin.simps split: bool.splits)
  then show ?thesis by (simp add: same_core_intros)
qed

subsection \<open>System calls\<close>

fun rtc_read_state :: "'s rtc_read_result \<Rightarrow> 's" where
  "rtc_read_state (Rtc_waits s) = s"
| "rtc_read_state (Rtc_returns v s) = s"

lemma same_core_rtc_read: "rtc_read [] fd buf n s = Some r \<Longrightarrow> same_core s (rtc_read_state r)"
  by (auto simp: rtc_read_def spin.simps bind_eq_Some_conv same_core_refl same_core_upd
      split: if_splits option.splits bool.splits)

lemma kinv_sys_read:
  assumes "kinv L s" "sys_read E [] fd null n s = Some r"
  shows "kinv L (read_state r)"
proof -
  have rtc: "kinv L (read_state (case q of Rtc_waits s \<Rightarrow> Read_waits s | Rtc_returns v s \<Rightarrow> Read_returns v [] s))"
    if "rtc_read [] fd (Some []) n s = Some q" for q
    using kinv_same_core [OF assms(1) same_core_rtc_read [OF that]] by (cases q) simp_all
  show ?thesis
    using assms rtc
    by (auto simp: sys_read_def bind_eq_Some_conv split: if_splits option.splits fo_jump_table_t.splits
        dest: kinv_file_read kinv_dir_read intro: kinv_same_core same_core_terminal_read)
qed

lemma same_core_rtc_write: "rtc_write k b fd f n s = (r, s') \<Longrightarrow> same_core s s'"
  by (auto simp: rtc_write_def same_core_intros split: option.splits if_splits)

lemma same_core_sys_write:
  assumes "sys_write E fd buf n s = Some (r, s')"
  shows "same_core s s'"
  using assms
  by (auto simp: sys_write_def bind_eq_Some_conv split: if_splits option.splits fo_jump_table_t.splits
      dest: same_core_rtc_write intro: same_core_terminal_write same_core_refl)

text \<open>Stores into user memory.\<close>

lemma kinv_user_mem: "kinv L (s\<lparr>user_mem := m\<rparr>) = kinv L s"
  using paging_inv_cong [of "s\<lparr>user_mem := m\<rparr>" s L]
  by (simp add: kinv_def kinv_at_def proc_chains_def idle_alone_def tty_ids_ok_def maps_process_def)

lemma store_byte_upd: "store_byte L va b s = Some s' \<Longrightarrow> s' = s\<lparr>user_mem := user_mem s'\<rparr>"
  by (auto simp: store_byte_def split: option.splits if_splits)

lemma store_bytes_upd: "store_bytes L va bs s = Some s' \<Longrightarrow> s' = s\<lparr>user_mem := user_mem s'\<rparr>"
proof (induction bs arbitrary: va s)
  case (Cons b bs)
  then obtain s1 where s1: "store_byte L va b s = Some s1" "store_bytes L (va + 1) bs s1 = Some s'"
    by (auto split: option.splits)
  obtain m where "s1 = s\<lparr>user_mem := m\<rparr>" using store_byte_upd [OF s1(1)] by blast
  with Cons.IH [OF s1(2)] show ?case by simp
qed simp

lemma kinv_store_bytes: "kinv L s \<Longrightarrow> store_bytes L va bs s = Some s' \<Longrightarrow> kinv L s'"
  by (metis kinv_user_mem store_bytes_upd)

lemma kinv_getargs:
  assumes "kinv L s" "getargs L buf n s = Some (r, s')"
  shows "kinv L s'"
proof -
  have "s' = s \<or> (\<exists>bs s1 va. store_bytes L buf bs s = Some s1 \<and> store_byte L va 0 s1 = Some s')"
    using assms(2) by (auto simp: getargs_def bind_eq_Some_conv Let_def split: if_splits)
  then show ?thesis using assms(1) kinv_store_bytes store_byte_upd kinv_user_mem by metis
qed

lemma kinv_map_video:
  assumes "kinv L s" "layout_ok L" "create_vid_4kb_page L s = Some (a, s')"
  shows "kinv L s'"
proof -
  obtain cs where cs: "kinv_at L cs s" using assms(1) by (auto simp: kinv_def)
  then have "paging_inv L s" by (simp add: kinv_at_def)
  from paging_inv_map_video [OF assms(2) this assms(3)] have "paging_inv L s'" .
  moreover obtain pd pt where "s' = s\<lparr>page_directory := pd, vid_page_table_0 := pt\<rparr>" "pd ! 32 = page_directory s ! 32"
    using assms(3) by (auto simp: create_vid_4kb_page_def bind_eq_Some_conv wr_Some_iff)
  ultimately have "kinv_at L cs s'"
    using cs by (simp add: kinv_at_def proc_chains_def idle_alone_def tty_ids_ok_def maps_process_def)
  then show ?thesis by (auto simp: kinv_def)
qed

lemma kinv_vidmap:
  assumes "kinv L s" "layout_ok L" "vidmap L a s = Some (r, s')"
  shows "kinv L s'"
proof (cases "a \<noteq> 0 \<and> USER_START \<le> a \<and> a < USER_END - 4")
  case True
  then obtain v s1 s2 where "create_vid_4kb_page L s = Some (v, s1)" "store_bytes L a (le32 v) s1 = Some s2"
      "s' = reload_cr3 L s2"
    using assms(3) by (auto simp: vidmap_def bind_eq_Some_conv)
  with kinv_map_video [OF assms(1,2)] show ?thesis
    using kinv_same_core kinv_store_bytes same_core_ports(5) by metis
next
  case False
  then show ?thesis using assms by (auto simp: vidmap_def split: if_splits)
qed

subsection \<open>Mapping a program\<close>

lemma kinv_map_program:
  assumes "proc_chains cs s'" "idle_alone cs s'" "tty_ids_ok s'" "paging_inv L s" "p < 7"
    and "create_user_4mb_page (int p + 2) USER_PD_INDEX s = Some (r, s1)"
    and "page_directory s' = page_directory s1" "page_table_0 s' = page_table_0 s1"
      "vid_page_table_0 s' = vid_page_table_0 s1"
    and "processes s' ! nat (exec_term_id s')" "p = last (cs (nat (exec_term_id s')))"
  shows "kinv_at L cs s'"
proof -
  have "length (page_directory s) = 1024" using assms(4) by (simp add: paging_inv_def)
  then have "page_directory s1 ! 32 = fill_entry (push_bit 10 (word_of_int (int p + 2))) 0 1 1 (page_directory s ! 32)"
    using create_user_4mb_page_eq [of s "int p + 2" 32] assms(5,6) by auto
  then have "maps_process s' p"
    using assms(5,7) frame_index [of "int p + 2"]
    by (simp add: maps_process_def grants_fill_entry fill_entry_fields del: of_int_add)
  moreover have "paging_inv L s'"
    using paging_inv_map_program [OF assms(4) _ _ assms(6)] assms(5,7-9) paging_inv_cong [of s' s1 L] by simp
  ultimately show ?thesis using assms by (simp add: kinv_at_def)
qed

lemma translate_program_page:
  assumes "paging_inv L s" "translate L s True 0x08000000 = Some (push_bit 22 (word_of_int (int p + 2)))" "p < 7"
  shows "maps_process s p"
proof -
  let ?e = "page_directory s ! 32"
  have g: "grants True ?e"
    using assms(1,2) by (auto simp: translate_def paging_inv_def rd_in split: if_splits)
  then obtain r where r: "2 \<le> r" "r < 9" "drop_bit 10 (addr ?e) = word_of_int r" "size_bit ?e = 1"
    using assms(1) grants_weaken [OF g] by (auto simp: paging_inv_def)
  have "push_bit 22 (word_of_int r :: u32) = push_bit 22 (word_of_int (int p + 2))"
    using assms(1,2) g r by (simp add: translate_def paging_inv_def rd_in del: of_int_add)
  then have "word_of_int r = (word_of_int (int p + 2) :: u32)"
    using frame_parts(1) [of r 0] frame_parts(1) [of "int p + 2" 0] r assms(3) by (simp del: of_int_add)
  with g r show ?thesis by (simp add: maps_process_def)
qed

subsection \<open>execute and halt\<close>

fun result_state :: "'s sys_result \<Rightarrow> 's" where
  "result_state (Ret v s) = s"
| "result_state (Iret e s) = s"
| "result_state (Return_to_parent esp ebp v s) = s"

lemma strcpy_length: "strcpy dest src = Some d \<Longrightarrow> length d = length dest"
  by (induction dest src arbitrary: d rule: strcpy.induct) (auto split: if_splits)

lemma create_pcb_result:
  assumes "create_pcb E new prev e args s = Some s'" "3 \<le> new" "prev \<noteq> new" "pcb_shape (pcbs s new)"
  obtains nb where "s' = s\<lparr>pcbs := (pcbs s)(prev := (pcbs s prev)\<lparr>child_pcb := Some new\<rparr>, new := nb)\<rparr>"
    "parent_pcb nb = Some prev" "child_pcb nb = None" "process_id nb = new" "pcb_shape nb"
proof -
  obtain a where a: "strcpy (pcb_args (pcbs s new)) args = Some a"
    using assms(1) by (auto simp: create_pcb_def bind_eq_Some_conv)
  let ?nb = "(pcbs s new)\<lparr>fd_array := std_fds (fd_array (pcbs s new)), pcb_entry := e,
      pcb_args := a, process_id := new, parent_esp := reg_esp E, parent_ebp := reg_ebp E,
      parent_pcb := Some prev, child_pcb := None\<rparr>"
  have "s' = s\<lparr>pcbs := (pcbs s)(prev := (pcbs s prev)\<lparr>child_pcb := Some new\<rparr>, new := ?nb)\<rparr>"
    using assms(1-3) a by (simp add: create_pcb_def upd_pcb_def Let_def fun_upd_twist)
  moreover have "pcb_shape ?nb"
    using assms(4) std_fds_entries(1) [of "fd_array (pcbs s new)"] strcpy_length [OF a] by (auto simp: pcb_shape_def)
  ultimately show ?thesis by (intro that) simp_all
qed

text \<open>An image that is loaded without a page fault fits into the program page.\<close>

lemma store_bytes_translates:
  "store_bytes L va bs s = Some s' \<Longrightarrow> i < length bs \<Longrightarrow> \<exists>pa. translate L s False (va + of_nat i) = Some pa"
proof (induction bs arbitrary: va s i)
  case (Cons b bs)
  then obtain pa where pa: "translate L s False va = Some pa"
      "store_bytes L (va + 1) bs (s\<lparr>user_mem := (user_mem s)(pa := b)\<rparr>) = Some s'"
    by (auto simp: store_byte_def split: option.splits if_splits)
  show ?case
  proof (cases i)
    case (Suc j)
    have "translate L (s\<lparr>user_mem := (user_mem s)(pa := b)\<rparr>) = translate L s" by (rule translate_cong) simp_all
    with Cons.IH [OF pa(2), of j] Cons.prems(2) Suc show ?thesis by (simp add: add.assoc)
  qed (use pa in simp)
qed simp

lemma store_bytes_fits:
  assumes "paging_inv L s" "store_bytes L PROGRAM_LOAD_VIRT_ADDRESS bs s = Some s'"
  shows "length bs \<le> 0x3B8000"
proof (rule ccontr)
  assume "\<not> length bs \<le> 0x3B8000"
  then have "\<exists>pa. translate L s False (PROGRAM_LOAD_VIRT_ADDRESS + of_nat 0x3B8000) = Some pa"
    using store_bytes_translates [OF assms(2), of "0x3B8000"] by simp
  then have "\<exists>pa. translate L s False 0x08400000 = Some pa" by simp
  then show False using assms(1) by (auto simp: translate_def paging_inv_def rd_in split: if_splits)
qed

lemma load_image_store:
  "load_image L inode s = Some (c, s') \<Longrightarrow> \<exists>bs. store_bytes L PROGRAM_LOAD_VIRT_ADDRESS bs s = Some s'"
  by (auto simp: load_image_def Let_def bind_eq_Some_conv split: prod.splits)

lemma load_image_complete:
  assumes "load_image L inode s = Some (c, s')" "paging_inv L s" "inode_ok (fs_mem s) (fs_sections s) inode"
  shows "c"
proof -
  let ?c = "contents (fs_mem s) (fs_sections s) inode" and ?n = "inode_length (fs_mem s) (fs_sections s) inode"
  have rd: "read_data (fs_mem s) (fs_sections s) inode 0 ?n = (int (unat ?n), ?c)"
    using read_data_contents [OF assms(3), of 0 ?n] by simp
  then have "store_bytes L PROGRAM_LOAD_VIRT_ADDRESS ?c s = Some s'" and c: "c = (int (unat ?n) = sint ?n)"
    using assms(1) by (auto simp: load_image_def Let_def bind_eq_Some_conv)
  from store_bytes_fits [OF assms(2) this(1)] have "sint ?n = int (unat ?n)" by (intro sint_small) simp
  with c show ?thesis by simp
qed

text \<open>
  A program that \<open>find_executable\<close> accepts is loaded completely: the branch of
  \<open>start_program\<close> for an incomplete load is not taken.
\<close>

lemma start_program_result:
  fixes s :: "'a kstate_scheme"
  assumes "kinv L s" "alloc_pid s = Some new"
    and "inode_ok (fs_mem s) (fs_sections s) (inode_index d)"
    and "start_program E L d args new (s\<lparr>processes := (processes s)[new := True]\<rparr>) = Some r"
  obtains cs bs and s1 s2 :: "'a kstate_scheme" where "kinv_at L (cs(nat (exec_term_id s) := cs (nat (exec_term_id s)) @ [new])) (result_state r)"
    "exec_term_id (result_state r) = exec_term_id s" "new < 7" "paging_inv L s1" "maps_process s1 new"
    "store_bytes L PROGRAM_LOAD_VIRT_ADDRESS bs s1 = Some s2"
    "user_mem s1 = user_mem s" "user_mem (result_state r) = user_mem s2"
proof -
  obtain cs where cs: "kinv_at L cs s" using assms(1) by (auto simp: kinv_def)
  then have inv: "proc_chains cs s" "idle_alone cs s" "tty_ids_ok s" "paging_inv L s"
      "processes s ! nat (exec_term_id s)"
    by (simp_all add: kinv_at_def)
  note new = alloc_pid_free [OF inv(1) assms(2)]
  let ?e = "nat (exec_term_id s)" and ?s0 = "s\<lparr>processes := (processes s)[new := True]\<rparr>"
  let ?l = "last (cs ?e)"
  have e: "?e < 3" using inv(3) by (auto simp: tty_ids_ok_def)
  have len: "length (page_directory ?s0) = 1024" using inv(4) by (simp add: paging_inv_def)
  obtain pd where s1: "create_user_4mb_page (int new + 2) 32 ?s0 = Some (0, ?s0\<lparr>page_directory := pd\<rparr>)"
    using create_user_4mb_page_eq [OF len, of "int new + 2" 32] new by simp
  let ?s1 = "?s0\<lparr>page_directory := pd\<rparr>"
  have pinv0: "paging_inv L ?s0" using inv(4) paging_inv_cong [of ?s0 s L] by simp
  have "paging_inv L ?s1" using paging_inv_map_program [OF pinv0 _ _ s1] new by simp
  then have pinv: "paging_inv L (reload_cr3 L ?s1)"
    using paging_inv_cong [of "reload_cr3 L ?s1" ?s1 L] by (simp add: reload_cr3_def)
  obtain c s3 where s3: "load_image L (inode_index d) (reload_cr3 L ?s1) = Some (c, s3)"
    using assms(4) s1 by (auto simp: start_program_def bind_eq_Some_conv)
  have "c" using load_image_complete [OF s3 pinv] assms(3) by (simp add: reload_cr3_def)
  obtain bs where bs: "store_bytes L PROGRAM_LOAD_VIRT_ADDRESS bs (reload_cr3 L ?s1) = Some s3"
    using load_image_store [OF s3] by blast
  then obtain m where "s3 = (reload_cr3 L ?s1)\<lparr>user_mem := m\<rparr>" using store_bytes_upd by blast
  then have sel: "processes s3 = (processes s)[new := True]" "pcbs s3 = pcbs s" "page_directory s3 = pd"
      "page_table_0 s3 = page_table_0 s" "vid_page_table_0 s3 = vid_page_table_0 s"
      "exec_term_id s3 = exec_term_id s" "curr_term_id s3 = curr_term_id s" "length (terms s3) = length (terms s)"
    by (simp_all add: reload_cr3_def)
  have prev: "get_current_executing_pcb s3 = Some ?l"
    using executing_pcb [OF inv(1,3)] sel by (simp add: get_current_executing_pcb_def)
  have ln: "?l \<noteq> new"
    using executing_member(1) [OF inv(1) e] chain_in_members [OF e, of cs] new(1) by auto
  obtain s4 where s4: "create_pcb E new ?l (read_entry E (inode_index d) s3) args s3 = Some s4"
    and r: "result_state r = sti (cli ((cli s4)\<lparr>tss_esp0 := kernel_esp0 (int new), tss_ss0 := KERNEL_DS\<rparr>))"
    using assms(4) s1 s3 prev \<open>c\<close> by (auto simp: start_program_def bind_eq_Some_conv enter_user_def Let_def)
  have "pcb_shape (pcbs s3 new)" using inv(1) sel(2) by (simp add: proc_chains_def)
  from create_pcb_result [OF s4 new(2) ln this] obtain nb where
    nb: "s4 = s3\<lparr>pcbs := (pcbs s3)(?l := (pcbs s3 ?l)\<lparr>child_pcb := Some new\<rparr>, new := nb)\<rparr>"
      "parent_pcb nb = Some ?l" "child_pcb nb = None" "process_id nb = new" "pcb_shape nb" .
  let ?cs = "cs(?e := cs ?e @ [new])" and ?s' = "result_state r"
  have sel': "processes ?s' = (processes s)[new := True]" "exec_term_id ?s' = exec_term_id s"
      "pcbs ?s' = (pcbs s)(?l := (pcbs s ?l)\<lparr>child_pcb := Some new\<rparr>, new := nb)" "tty_ids_ok ?s'"
      "page_directory ?s' = page_directory ?s1" "page_table_0 ?s' = page_table_0 ?s1"
      "vid_page_table_0 ?s' = vid_page_table_0 ?s1" "user_mem ?s' = user_mem s3"
    unfolding r nb(1) using sel inv(3) by (simp_all add: cli_def sti_def tty_ids_ok_def)
  have ch: "proc_chains ?cs ?s'"
    by (rule proc_chains_extend [OF inv(1) e new sel'(1,3) nb(2-)])
  have idle: "idle_alone ?cs ?s'" "processes ?s' ! nat (exec_term_id ?s')"
    using inv(2,5) new(2) e by (auto simp: idle_alone_def sel'(1,2) nth_list_update)
  have k: "kinv_at L ?cs ?s'"
    by (rule kinv_map_program [OF ch idle(1) sel'(4) pinv0 new(3) s1 sel'(5-7) idle(2)]) (simp add: sel'(2))
  then have "maps_process ?s' new" using sel'(2) by (simp add: kinv_at_def)
  then have "maps_process (reload_cr3 L ?s1) new" using sel'(5) by (simp add: maps_process_def reload_cr3_def)
  from that [OF k sel'(2) new(3) pinv this bs _ sel'(8)] show thesis by (simp add: reload_cr3_def)
qed

lemma exception_test_if: "(if b then exception_test s else s) = s"
  by (simp add: exception_test_def)

text \<open>\<open>execute\<close> returns an error without an effect on the processes, or starts a program.\<close>

lemma execute_result:
  assumes "kinv L s" "env_ok E" "execute E L command s = Some r"
  shows "same_core s (result_state r) \<or>
    (\<exists>new d args. alloc_pid s = Some new \<and> inode_ok (fs_mem s) (fs_sections s) (inode_index d) \<and>
       start_program E L d args new (s\<lparr>processes := (processes s)[new := True]\<rparr>) = Some r)"
proof (cases command)
  case None
  with assms show ?thesis by (auto simp: execute_def same_core_refl)
next
  case (Some line)
  obtain cmd args pre c exe where
    p: "parse_command (uninit_cmd E) (uninit_args E) (before_args E) line = Some (cmd, args, pre)"
      "strncmp cmd (bytes ''exception'' @ [0]) 9 = Some c" "find_executable E cmd s = Some exe"
    using assms(3) Some by (auto simp: execute_def exception_test_if Let_def bind_eq_Some_conv)
  then have "0 \<in> set cmd"
    by (auto simp: find_executable_def read_dentry_by_name_def bind_eq_Some_conv strlen_Some_iff)
  then have exe: "exe = program_file E s cmd" using find_executable_eq [OF assms(2), of cmd s] p(3) by simp
  show ?thesis
  proof (cases exe)
    case None
    then show ?thesis using assms Some p by (auto simp: execute_def exception_test_if Let_def same_core_refl)
  next
    case (Some d)
    then have ok: "inode_ok (fs_mem s) (fs_sections s) (inode_index d)"
      using exe by (auto simp: program_file_def is_elf_def Let_def split: option.splits if_splits)
    show ?thesis
    proof (cases "alloc_pid s")
      case None
      then obtain n s' where "printf (''Process # limit reached'' @ [CHR 0x0A]) [] s = Some (n, s')" "r = Ret 0 s'"
        using assms(3) \<open>command = Some line\<close> p Some by (auto simp: execute_def exception_test_if Let_def bind_eq_Some_conv)
      with same_core_con_frame [OF printf_frame [OF this(1)]] show ?thesis by simp
    next
      case (Some new)
      then have "start_program E L d args new (s\<lparr>processes := (processes s)[new := True]\<rparr>) = Some r"
        using assms(3) \<open>command = Some line\<close> \<open>exe = Some d\<close> p by (simp add: execute_def exception_test_if Let_def)
      with Some ok show ?thesis by blast
    qed
  qed
qed

lemma kinv_execute:
  assumes "kinv L s" "env_ok E" "execute E L command s = Some r"
  shows "kinv L (result_state r)"
  using execute_result [OF assms]
proof (elim disjE exE conjE)
  fix new d args
  assume "alloc_pid s = Some new" "inode_ok (fs_mem s) (fs_sections s) (inode_index d)"
    "start_program E L d args new (s\<lparr>processes := (processes s)[new := True]\<rparr>) = Some r"
  from start_program_result [OF assms(1) this] show ?thesis unfolding kinv_def by blast
qed (rule kinv_same_core [OF assms(1)])

lemma kinv_halt:
  assumes "kinv L s" "halt L status s = Some r"
  shows "kinv L (result_state r) \<and> user_mem (result_state r) = user_mem s"
proof -
  obtain cs where cs: "kinv_at L cs s" using assms(1) by (auto simp: kinv_def)
  then have inv: "proc_chains cs s" "idle_alone cs s" "tty_ids_ok s" "paging_inv L s"
      "processes s ! nat (exec_term_id s)" "length (page_directory s) = 1024"
    by (simp_all add: kinv_at_def paging_inv_def)
  let ?e = "nat (exec_term_id s)"
  have e: "?e < 3" using inv(3) by (auto simp: tty_ids_ok_def)
  have ch: "chain (pcbs s) (cs ?e)" "hd (cs ?e) = ?e" using inv(1) e by (simp_all add: proc_chains_def)
  consider p where "cs ?e = [p]" | ps q c where "cs ?e = ps @ [q, c]"
    using chain_nonempty [OF ch(1)]
    by (metis append.assoc append_Cons append_Nil append_butlast_last_id)
  then show ?thesis
  proof cases
    case 1
    from halt_restarts [OF inv(1,3) this, of L status] assms(2)
    have "result_state r = sti (cli ((cli s)\<lparr>tss_esp0 := kernel_esp0 (int p), tss_ss0 := KERNEL_DS\<rparr>))" by auto
    then have "same_core s (result_state r)" by (simp add: same_core_def cli_def sti_def)
    then show ?thesis using kinv_same_core [OF assms(1)] by (simp add: same_core_def)
  next
    case 2
    obtain s' where s': "result_state r = s'" "proc_chains (cs(?e := ps @ [q])) s'" "tty_ids_ok s'"
        "exec_term_id s' = exec_term_id s" "program_frame L s' (int q + 2)" "processes s' = (processes s)[c := False]"
        "paging_inv L s'" "user_mem s' = user_mem s"
      using halt_child [OF inv(1,3,6) 2, of L status] assms(2) inv(4) by auto
    have "3 \<le> c"
    proof (rule ccontr)
      assume "\<not> 3 \<le> c"
      then have "c = ?e" using members_roots(2) [OF inv(1) e, of c] 2 by simp
      moreover have "distinct (cs ?e)" using chain_distinct [of cs ?e] inv(1) e by (simp add: proc_chains_def)
      ultimately show False using ch(2) 2 by (cases ps) auto
    qed
    then have "idle_alone (cs(?e := ps @ [q])) s'" "processes s' ! nat (exec_term_id s')"
      using inv(2,5) e by (auto simp: idle_alone_def s'(4,6) nth_list_update)
    moreover have "q \<in> set (members cs)" using chain_in_members [OF e, of cs] 2 by auto
    then have "q < 7" using inv(1) unfolding proc_chains_def by blast
    then have "maps_process s' q"
      using s'(5) by (intro translate_program_page [OF s'(7)]) (simp_all add: program_frame_def del: of_int_add)
    ultimately have "kinv_at L (cs(?e := ps @ [q])) s'" using s' by (simp add: kinv_at_def)
    then show ?thesis using s'(1,8) by (auto simp: kinv_def)
  qed
qed

lemma kinv_interrupt:
  assumes "kinv L s" "interrupt n L s = Some r"
  shows "kinv L (result_state r) \<and> user_mem (result_state r) = user_mem s"
proof -
  obtain k s1 where s1: "printf (exception_text n) [] s = Some (k, s1)" "halt L 255 s1 = Some r"
    using assms(2) by (auto simp: interrupt_def bind_eq_Some_conv)
  have "same_core s s1" by (rule same_core_con_frame [OF printf_frame [OF s1(1)]])
  with kinv_halt [OF kinv_same_core [OF assms(1) this] s1(2)] show ?thesis by (simp add: same_core_def)
qed

subsection \<open>Interrupts\<close>

lemma same_core_rtc_handler: "rtc_handler s = Some s' \<Longrightarrow> same_core s s'"
  by (auto simp: rtc_handler_def Let_def bind_eq_Some_conv same_core_def cli_def sti_def outb_def send_eoi_def)

lemma kinv_pit_handler:
  assumes "kinv L s"
  obtains r s' where "pit_handler L ebp esp s = Some (r, s')" "kinv L s'" "processes s' = processes s"
    "user_mem s' = user_mem s"
proof -
  obtain cs where cs: "kinv_at L cs s" using assms(1) by (auto simp: kinv_def)
  then have inv: "proc_chains cs s" "idle_alone cs s" "tty_ids_ok s" "paging_inv L s"
      "processes s ! nat (exec_term_id s)" "length (page_directory s) = 1024" "length (vid_page_table_0 s) = 1024"
    by (simp_all add: kinv_at_def paging_inv_def)
  have act: "\<exists>t < 3. processes s ! t" using inv(3,5) by (intro exI [of _ "nat (exec_term_id s)"]) (auto simp: tty_ids_ok_def)
  define p where "p = last (cs (nat (exec_term_id s)))"
  obtain t s' where s': "t < 3" "processes s ! t"
    "pit_handler L ebp esp s =
       Some (if last (cs t) = p then (ebp, esp)
             else (return_ebp (pcbs s (last (cs t))), return_esp (pcbs s (last (cs t)))), s')"
    "proc_chains cs s'" "tty_ids_ok s'" "exec_term_id s' = int t" "processes s' = processes s" "paging_inv L s'"
      "user_mem s' = user_mem s"
    and tr: "\<And>va. uint (drop_bit 22 va) = 32 \<Longrightarrow>
       translate L s' True va = Some (push_bit 22 (word_of_int (int (last (cs t)) + 2)) OR take_bit 22 va)"
    by (rule pit_handler_switch [OF inv(1,3) act inv(6,7), of L ebp esp]) (use inv(4) in \<open>auto simp: p_def\<close>)
  have "last (cs t) < 7" by (rule executing_member(2) [OF inv(1) s'(1)])
  with tr [of "0x08000000"] have "maps_process s' (last (cs t))"
    by (intro translate_program_page [OF s'(8)]) (simp_all del: of_int_add)
  with s' inv(2) have "kinv_at L cs s'" by (simp add: kinv_at_def idle_alone_def)
  then show ?thesis using that s'(3,7,9) by (auto simp: kinv_def)
qed

fun kb_state :: "'s kb_result \<Rightarrow> 's" where
  "kb_state (Kb_return s) = s"
| "kb_state (Kb_iret e s) = s"

lemma kinv_start_shell:
  assumes "kinv L s" "curr_term_id s = t" "start_shell L t s = Some r"
  shows "kinv L (kb_state r) \<and> user_mem (kb_state r) = user_mem s"
proof -
  obtain cs where cs: "kinv_at L cs s" using assms(1) by (auto simp: kinv_def)
  then have inv: "proc_chains cs s" "idle_alone cs s" "tty_ids_ok s" "paging_inv L s"
      "length (page_directory s) = 1024" "length (processes s) = 7"
    by (simp_all add: kinv_at_def paging_inv_def proc_chains_def)
  have t: "0 \<le> t" "t < 3" using inv(3) assms(2) by (auto simp: tty_ids_ok_def)
  show ?thesis
  proof (cases "processes s ! nat t")
    case True
    then show ?thesis using assms t inv(6) by (auto simp: start_shell_def rd_in)
  next
    case False
    let ?ps = "(processes s)[nat t := True]"
    let ?s0 = "s\<lparr>processes := ?ps\<rparr>"
    obtain pd where s1: "create_user_4mb_page (t + 2) 32 ?s0 = Some (0, ?s0\<lparr>page_directory := pd\<rparr>)"
      using create_user_4mb_page_eq [of ?s0 "t + 2" 32] inv(5) t by simp
    let ?s1 = "?s0\<lparr>page_directory := pd\<rparr>"
    let ?s' = "sti (cli ((reload_cr3 L ?s1)\<lparr>tss_esp0 := kernel_esp0 t, tss_ss0 := KERNEL_DS, exec_term_id := t\<rparr>))"
    have r: "kb_state r = ?s'"
      using assms t inv(6) False s1 by (auto simp: start_shell_def rd_in wr_in Let_def)
    have sel: "processes ?s' = ?ps" "pcbs ?s' = pcbs s" "exec_term_id ?s' = t" "tty_ids_ok ?s'"
        "page_directory ?s' = page_directory ?s1" "page_table_0 ?s' = page_table_0 ?s1"
        "vid_page_table_0 ?s' = vid_page_table_0 ?s1"
      using inv(3) t by (simp_all add: sti_def cli_def reload_cr3_def tty_ids_ok_def)
    have ch: "proc_chains cs ?s'" using inv(1) t by (simp add: proc_chains_def sel(1,2) nth_list_update)
    have idle: "idle_alone cs ?s'" "processes ?s' ! nat (exec_term_id ?s')"
      using inv(2,6) t by (auto simp: idle_alone_def sel(1,3) nth_list_update)
    have "cs (nat t) = [nat t]" using inv(2) False t by (simp add: idle_alone_def)
    moreover have "paging_inv L ?s0" using inv(4) paging_inv_cong [of ?s0 s L] by simp
    ultimately have "kinv_at L cs ?s'"
      using kinv_map_program [OF ch idle(1) sel(4) _ _ _ sel(5-7) idle(2), where s = ?s0 and p = "nat t" and r = 0 and L = L] s1 t
      by (simp add: sel(3) del: of_int_add)
    moreover have "user_mem ?s' = user_mem s" by (simp add: sti_def cli_def reload_cr3_def)
    ultimately show ?thesis unfolding r by (auto simp: kinv_def)
  qed
qed

lemma kinv_switch_swap:
  assumes "kinv L s" "0 \<le> t" "t < 3" "switch_swap t s = Some s'"
  shows "kinv L s' \<and> curr_term_id s' = t \<and> user_mem s' = user_mem s"
proof -
  obtain ts where "length ts = length (terms s)" "terms s' = ts" "processes s' = processes s" "pcbs s' = pcbs s"
      "page_directory s' = page_directory s" "page_table_0 s' = page_table_0 s"
      "vid_page_table_0 s' = vid_page_table_0 s" "exec_term_id s' = exec_term_id s" "curr_term_id s' = t"
      "user_mem s' = user_mem s"
    using assms(4)
    by (auto simp: switch_swap_def bind_eq_Some_conv Let_def set_x_def set_y_def move_cursor_def send_eoi_def outb_def
        dest!: on_term_length)
  with assms(1-3) paging_inv_cong [of s' s L] show ?thesis
    by (auto simp: kinv_def kinv_at_def proc_chains_def idle_alone_def tty_ids_ok_def maps_process_def)
qed

lemma kinv_switch:
  assumes "kinv L s" "0 \<le> t" "t < 3" "switch_displaying_term L t s = Some r"
  shows "kinv L (kb_state r) \<and> user_mem (kb_state r) = user_mem s"
proof -
  obtain s1 where s1: "switch_swap t s = Some s1" "start_shell L t s1 = Some r"
    using assms(4) by (auto simp: switch_displaying_term_def bind_eq_Some_conv)
  with kinv_switch_swap [OF assms(1-3) s1(1)] kinv_start_shell [OF _ _ s1(2)] show ?thesis by simp
qed

lemma same_core_buffer_char: "buffer_char c s = Some s' \<Longrightarrow> same_core s s'"
  by (auto simp: buffer_char_def bind_eq_Some_conv dest!: printf_frame [THEN same_core_con_frame])
    (simp add: same_core_def)

lemma same_core_enter: "enter s = Some s' \<Longrightarrow> same_core s s'"
  by (auto simp: enter_def bind_eq_Some_conv Let_def same_core_refl split: if_splits
      dest!: printf_frame [THEN same_core_con_frame]) (simp add: same_core_def)

lemma same_core_backspace:
  assumes "backspace s = Some s'"
  shows "same_core s s'"
proof -
  obtain i s1 kb where s1: "print_backspace (s\<lparr>buff_index := i\<rparr>) = Some s1 \<or> s1 = s\<lparr>buff_index := i\<rparr>"
      "s' = s1\<lparr>key_buff := kb\<rparr>"
    using assms by (auto simp: backspace_def bind_eq_Some_conv Let_def split: if_splits)
  then have "same_core (s\<lparr>buff_index := i\<rparr>) s1"
    using print_backspace_frame [THEN same_core_con_frame] same_core_refl by blast
  with s1(2) show ?thesis by (simp add: same_core_def)
qed

lemma kb_case_state:
  "(case q of Kb_return s \<Rightarrow> Some (Kb_return (sti s)) | Kb_iret e s \<Rightarrow> Some (Kb_iret e s)) = Some r \<Longrightarrow>
     kb_state r = kb_state q \<or> kb_state r = sti (kb_state q)"
  by (cases q) auto

definition safe_to :: "layout \<Rightarrow> 'a kstate_scheme \<Rightarrow> 'a kstate_scheme \<Rightarrow> bool" where
  "safe_to L s s' \<longleftrightarrow> kinv L s' \<and> user_mem s' = user_mem s"

lemma safe_same_core: "kinv L s \<Longrightarrow> same_core s s' \<Longrightarrow> safe_to L s s'"
  using kinv_same_core [of L s s'] by (simp add: safe_to_def) (simp add: same_core_def)

lemma safe_then_same: "safe_to L s t \<Longrightarrow> same_core t u \<Longrightarrow> safe_to L s u"
  using kinv_same_core [of L t u] by (simp add: safe_to_def) (simp add: same_core_def)

lemma safe_kb_eoi:
  "safe_to L s (kb_state q) \<Longrightarrow>
     safe_to L s (kb_state (case q of Kb_return s \<Rightarrow> Kb_return (send_eoi n s) | Kb_iret e s \<Rightarrow> Kb_iret e s))"
  by (cases q) (simp_all add: safe_then_same [OF _ same_core_ports(4)])

lemma set_buffer_safe:
  assumes "kinv L s" "set_buffer L key s = Some r"
  shows "safe_to L s (kb_state r)"
proof -
  consider (clear) s' where "clear s = Some s'" "r = Kb_return s'"
    | (switch) q where "0x3B \<le> key" "key \<le> 0x3D" "switch_displaying_term L (uint (key - 0x3B)) (cli s) = Some q"
        "kb_state r = kb_state q \<or> kb_state r = sti (kb_state q)"
    | (same) "r = Kb_return s"
    | (char) c s' where "buffer_char c s = Some s'" "r = Kb_return s'"
    using assms(2)
    by (auto simp: set_buffer_def bind_eq_Some_conv split: if_splits dest!: kb_case_state)
  then show ?thesis
  proof cases
    case clear
    then show ?thesis using safe_same_core [OF assms(1) same_core_con_frame [OF clear_frame]] by simp
  next
    case switch
    have "uint (key - 0x3B) < 3"
      using switch(1,2) by (simp add: uint_minus_simple_alt [THEN iffD1] word_le_def)
    moreover have "kinv L (cli s)" by (rule kinv_same_core [OF assms(1) same_core_ports(2)])
    ultimately have "safe_to L s (kb_state q)"
      using kinv_switch [OF _ _ _ switch(3)] by (simp add: safe_to_def cli_def)
    then show ?thesis using switch(4) safe_then_same [OF _ same_core_ports(3)] by metis
  next
    case same
    then show ?thesis using assms(1) by (simp add: safe_to_def)
  next
    case char
    then show ?thesis using safe_same_core [OF assms(1) same_core_buffer_char] by simp
  qed
qed

lemma keyboard_handler_safe:
  assumes "kinv L s" "keyboard_handler L key s = Some r"
  shows "safe_to L s (kb_state r)"
proof -
  have flags: "safe_to L s (s\<lparr>SHIFT_LEFT_FLAG := b\<rparr>)" "safe_to L s (s\<lparr>SHIFT_RIGHT_FLAG := b\<rparr>)"
      "safe_to L s (s\<lparr>CTRL_FLAG := b\<rparr>)" "safe_to L s (s\<lparr>CAPS_LOCK_FLAG := b\<rparr>)" "safe_to L s (s\<lparr>alt_flag := b\<rparr>)" for b
    by (rule safe_same_core [OF assms(1)], rule same_core_upd)+
  show ?thesis
    using assms flags
    by (auto simp: keyboard_handler_def bind_eq_Some_conv split: if_splits
        intro!: safe_kb_eoi safe_then_same [OF _ same_core_ports(4)]
        dest: set_buffer_safe safe_same_core [OF _ same_core_enter] safe_same_core [OF _ same_core_backspace])
qed

subsection \<open>The transitions\<close>

text \<open>
  A transition is a whole system call, exception or interrupt, or one store of a user program. That a
  call is not interrupted is a condition on the runs considered here: the wrapper enables interrupts
  before the call (\<open>interrupt_wrapper.S\<close>, line 64), and \<open>execute_interrupted\<close> in \<open>Isolation\<close> shows what a
  timer interrupt in the middle of \<open>execute\<close> does. Only the waiting loops are divided: a read that has to
  wait leaves the kernel in its loop with interrupts enabled, the interrupts are transitions of their own,
  and the next iteration of the loop is the same call again.

  The second condition is on the callers: \<open>read\<close> stores at any address but the null pointer, also into
  the kernel's own data, which is no array of bytes here; the transition is for a buffer in the page of
  the program. The third is on the kernel: a handler that would leave one of its arrays has no transition.

  A user program stores bytes through the page tables, into its own page or into the page behind the
  video address: the screen, of which only the first 4000 bytes are shown, or the page of \<open>term_t\<close> that
  starts with the saved screen and goes on with \<open>enters_save\<close>, \<open>buff_index_save\<close> and unused bytes.
\<close>

definition own_buffer :: "u32 \<Rightarrow> nat \<Rightarrow> bool" where
  "own_buffer buf n \<longleftrightarrow> n = 0 \<or> USER_START \<le> buf \<and> unat buf + n \<le> unat USER_END"

definition put_int_byte :: "nat \<Rightarrow> u8 \<Rightarrow> int \<Rightarrow> int" where
  "put_int_byte k b v =
     sint ((word_of_int v :: u32) AND NOT (push_bit (8 * k) 0xFF) OR push_bit (8 * k) (ucast b))"

definition store_saved :: "nat \<Rightarrow> u8 \<Rightarrow> term_t \<Rightarrow> term_t" where
  "store_saved i b t =
     (if i < 4000 then t\<lparr>vid_save := (vid_save t)[i := b]\<rparr>
      else if i < 4004 then t\<lparr>enters_save := put_int_byte (i - 4000) b (enters_save t)\<rparr>
      else if i < 4008 then t\<lparr>buff_index_save := put_int_byte (i - 4004) b (buff_index_save t)\<rparr>
      else t)"

inductive kstep :: "env \<Rightarrow> layout \<Rightarrow> 'a kstate_scheme \<Rightarrow> 'a kstate_scheme \<Rightarrow> bool" for E L where
  open_call: "sys_open E f s = Some (r, s') \<Longrightarrow> kstep E L s s'"
| close_call: "sys_close fd s = Some (r, s') \<Longrightarrow> kstep E L s s'"
| read_waits: "sys_read E [] fd null n s = Some (Read_waits s') \<Longrightarrow> kstep E L s s'"
| read_returns: "sys_read E [] fd null n s = Some (Read_returns v bs s1) \<Longrightarrow> own_buffer buf (length bs) \<Longrightarrow>
    store_bytes L buf bs s1 = Some s' \<Longrightarrow> kstep E L s s'"
| write_call: "sys_write E fd buf n s = Some (r, s') \<Longrightarrow> kstep E L s s'"
| getargs_call: "getargs L a n s = Some (r, s') \<Longrightarrow> kstep E L s s'"
| vidmap_call: "vidmap L a s = Some (r, s') \<Longrightarrow> kstep E L s s'"
| execute_call: "execute E L command s = Some r \<Longrightarrow> kstep E L s (result_state r)"
| halt_call: "halt L status s = Some r \<Longrightarrow> kstep E L s (result_state r)"
| exception: "interrupt k L s = Some r \<Longrightarrow> kstep E L s (result_state r)"
| keyboard: "keyboard_handler L key s = Some r \<Longrightarrow> kstep E L s (kb_state r)"
| clock: "rtc_handler s = Some s' \<Longrightarrow> kstep E L s s'"
| timer: "pit_handler L ebp esp s = Some (r, s') \<Longrightarrow> kstep E L s s'"
| user_store: "translate L s True va = Some pa \<Longrightarrow> 0x800000 \<le> pa \<Longrightarrow>
    kstep E L s (s\<lparr>user_mem := (user_mem s)(pa := b)\<rparr>)"
| user_draw: "translate L s True va = Some (0xB8000 + of_nat i) \<Longrightarrow> i < 4096 \<Longrightarrow>
    kstep E L s (s\<lparr>video_mem := (video_mem s)[i := b]\<rparr>)"
| user_draw_saved: "translate L s True va = Some (vid_save_addr L (int t) + of_nat i) \<Longrightarrow> t < NUM_TERMINALS \<Longrightarrow> i < 4096 \<Longrightarrow>
    kstep E L s (s\<lparr>terms := (terms s)[t := store_saved i b (terms s ! t)]\<rparr>)"

text \<open>The states of the running kernel: those that follow a successful boot.\<close>

inductive kreach :: "env \<Rightarrow> layout \<Rightarrow> 'a kernel_scheme \<Rightarrow> bool" for E L where
  booted: "bootable E a bin s0 \<Longrightarrow> entry E L H K MULTIBOOT_BOOTLOADER_MAGIC a s0 = Some (Boots (Iret e s)) \<Longrightarrow>
    kreach E L s"
| step: "kreach E L s \<Longrightarrow> kstep E L s s' \<Longrightarrow> kreach E L s'"

lemma kinv_kstep:
  assumes "kstep E L s s'" "kinv L s" "env_ok E" "layout_ok L"
  shows "kinv L s'"
  using assms(1)
proof cases
  case (read_waits fd null n)
  from kinv_sys_read [OF assms(2) this] show ?thesis by simp
next
  case (read_returns fd null n v bs s1 buf)
  from kinv_sys_read [OF assms(2) this(1)] show ?thesis
    using kinv_store_bytes [OF _ read_returns(3)] by simp
next
  case (timer ebp esp r)
  then show ?thesis using kinv_pit_handler [OF assms(2), of ebp esp] by (metis option.inject prod.inject)
next
  case (halt_call status r)
  then show ?thesis using kinv_halt [OF assms(2)] by simp
next
  case (exception k r)
  then show ?thesis using kinv_interrupt [OF assms(2)] by simp
next
  case (keyboard key r)
  then show ?thesis using keyboard_handler_safe [OF assms(2)] by (simp add: safe_to_def)
next
  case (user_draw_saved va t i b)
  then show ?thesis using kinv_same_core [OF assms(2) same_core_terms] by simp
qed (use assms in \<open>auto intro: kinv_open kinv_close kinv_execute
       kinv_vidmap kinv_getargs kinv_same_core same_core_sys_write same_core_rtc_handler same_core_upd
       simp: kinv_user_mem\<close>)

lemma kinv_booted:
  assumes "bootable E a bin s0" "env_ok E" "entry E L H K MULTIBOOT_BOOTLOADER_MAGIC a s0 = Some (Boots (Iret e s))"
  shows "kinv L s"
proof -
  have inv: "proc_chains (\<lambda>t. [t]) s" "tty_ids_ok s" "paging_inv L s" "exec_term_id s = 0" "program_frame L s 2"
      "processes s = [True, False, False, False, False, False, False]"
    using entry_ok [OF assms(1,2), of L H K] assms(3) by auto
  have "maps_process s 0"
    using inv(5) by (intro translate_program_page [OF inv(3)]) (simp_all add: program_frame_def)
  with inv show ?thesis by (auto simp: kinv_def kinv_at_def idle_alone_def intro!: exI [of _ "\<lambda>t. [t]"])
qed

lemma kinv_reach:
  assumes "kreach E L s" "env_ok E" "layout_ok L"
  shows "kinv L s"
  using assms(1)
proof induction
  case (booted a bin s0 H K e s)
  from kinv_booted [OF this(1) assms(2) this(2)] show ?case .
next
  case (step s s')
  from kinv_kstep [OF step.hyps(2) step.IH assms(2,3)] show ?case .
qed

end
