(* ===== verification/Isolation.thy ===== *)
theory Isolation
  imports System
begin

text \<open>
  What the invariant of the running kernel gives: every address a user program can reach lies in its
  own frame or on a screen, and no transition of the kernel writes into the memory of a program other
  than the one that runs before or after it.
\<close>

unbundle bit_operations_syntax

subsection \<open>The running process\<close>

lemma kinv_running:
  assumes "kinv L s"
  shows "running s < 7" "maps_process s (running s)" "paging_inv L s"
proof -
  obtain cs where cs: "kinv_at L cs s" using assms by (auto simp: kinv_def)
  then have inv: "proc_chains cs s" "tty_ids_ok s" by (simp_all add: kinv_at_def)
  then have r: "running s = last (cs (nat (exec_term_id s)))" using executing_pcb [OF inv] by (simp add: running_def)
  have "nat (exec_term_id s) < 3" using inv(2) by (auto simp: tty_ids_ok_def)
  then show "running s < 7" using executing_member(2) [OF inv(1)] r by simp
  show "maps_process s (running s)" "paging_inv L s" using cs r by (simp_all add: kinv_at_def)
qed


subsection \<open>Stores through the page tables\<close>







subsection \<open>Operations that leave user memory alone\<close>








subsection \<open>Every transition\<close>



subsection \<open>The stores of a user program\<close>

text \<open>
  Every store of a user program that does not fault is one of the three transitions of \<open>kstep\<close> for user
  stores: into its frame, onto the screen or into the page of a saved screen.
\<close>

lemma video_page_offset:
  fixes b va :: u32
  shows "push_bit 12 b OR take_bit 12 va = push_bit 12 b + of_nat (unat (take_bit 12 va))" "unat (take_bit 12 va) < 4096"
proof -
  show "push_bit 12 b OR take_bit 12 va = push_bit 12 b + of_nat (unat (take_bit 12 va))"
    by (simp add: push_or_take)
  show "unat (take_bit 12 va) < 4096"
    using take_bit_nat_less_exp [of 12 "unat va"] by (simp add: unsigned_take_bit_eq)
qed

lemma user_stores_covered:
  assumes "kinv L s" "layout_ok L" "translate L s True va = Some pa"
  shows "0x800000 \<le> pa \<or> (\<exists>i < 4096. pa = 0xB8000 + of_nat i) \<or>
    (\<exists>t < NUM_TERMINALS. \<exists>i < 4096. pa = vid_save_addr L (int t) + of_nat i)"
  using paging_inv_user_access [OF kinv_running(3) [OF assms(1)] assms(3,2)]
proof (elim disjE conjE exE bexE)
  fix r assume "2 \<le> r" "r < 9" "pa = push_bit 22 (word_of_int r) OR take_bit 22 va"
  then show ?thesis using frame_above_kernel [of r va] by (simp add: not_less)
next
  fix b assume b: "b \<in> vid_targets L" "pa = push_bit 12 b OR take_bit 12 va"
  then consider "b = 0xB8" | i where "0 \<le> i" "i < 3" "b = take_bit 20 (drop_bit 12 (vid_save_addr L i AND 0xFFFFF000))"
    by (auto simp: vid_targets_def)
  then show ?thesis
  proof cases
    case 1
    then have "pa = 0xB8000 + of_nat (unat (take_bit 12 va))" using b(2) video_page_offset(1) [of b va] by simp
    with video_page_offset(2) [of va] show ?thesis by blast
  next
    case 2
    then have "push_bit 12 b = vid_save_addr L i AND 0xFFFFF000" using page_base [of "vid_save_addr L i"] by (simp only:)
    then have "push_bit 12 b = vid_save_addr L i" using 2(1,2) assms(2) by (simp add: layout_ok_def)
    then have "pa = vid_save_addr L (int (nat i)) + of_nat (unat (take_bit 12 va))"
      using b(2) video_page_offset(1) [of b va] 2(1) by simp
    moreover have "nat i < 3" using 2(2) by linarith
    ultimately show ?thesis using video_page_offset(2) [of va] by blast
  qed
qed

subsection \<open>A timer interrupt inside execute\<close>






subsection \<open>Properties\<close>






end
