(* ===== verification/Witnesses.thy ===== *)
theory Witnesses
  imports Sample Isolation
begin

text \<open>
  The properties whose hypotheses speak of a kernel state, applied to the concrete machine of
  \<open>Sample\<close>.
\<close>

unbundle bit_operations_syntax

subsection \<open>Console, terminals and devices\<close>

theorem printf_shows_text_witness:
  "\<exists>n st'. printf ''n=%d'' [VInt 7] sample = Some (n, st') \<and> con_ok st' \<and>
     con_view st' = fold scr_putc (bytes ''n=7'') (con_view sample)"
proof -
  have "format_out (bytes ''n=%d'' @ [0]) [VInt 7] = Some (bytes ''n=7'')"
    by (simp add: bytes_def of_char_def dec_text_def num_text_def digits.simps digit_char_def itoa_lookup_def)
  from printf_shows_text [OF sample_con_ok this] show ?thesis by blast
qed

theorem background_renders_alike_witness:
  "\<exists>s' t'. put_all putc [72, 105, 10] sample = Some s' \<and> put_all term_putc [72, 105, 10] sample_term = Some t' \<and>
     term_view t' = con_view s'"
proof -
  have "term_view sample_term = con_view sample"
    by (simp add: term_view_def con_view_def sample_term_def sample_def)
  from background_renders_alike [OF sample_con_ok this] show ?thesis by blast
qed

theorem terminal_write_screen_witness:
  "\<exists>s'. terminal_write 1 (Some [72, 105]) 2 sample = Some (2, s') \<and> iflag s' \<and>
     tty_screen s' 0 = fold scr_putc [72, 105] (tty_screen sample 0)"
  using terminal_write_screen [OF sample_tty_ok, of 2 "[72, 105]" 1] by (auto simp: sample_sel)

theorem switch_started_witness:
  "\<exists>s'. switch_displaying_term sample_layout 1 (sample\<lparr>processes := [True, True, False, False, False, False, False]\<rparr>) =
       Some (Kb_return s') \<and> curr_term_id s' = 1 \<and> tty_screen s' 0 = tty_screen sample 0"
proof -
  let ?s = "sample\<lparr>processes := [True, True, False, False, False, False, False]\<rparr>"
  have "tty_ids_ok ?s" using sample_tty_ids by (simp add: tty_ids_ok_def)
  from switch_started [OF this, of 1 sample_layout] obtain s' where
    "switch_displaying_term sample_layout 1 ?s = Some (Kb_return s')" "curr_term_id s' = 1"
    "tty_screen s' 0 = tty_screen ?s 0"
    by auto
  moreover have "tty_screen ?s 0 = tty_screen sample 0" by (simp add: tty_screen_def con_view_def)
  ultimately show ?thesis by auto
qed

theorem type_and_read_witness:
  "\<exists>s1 s2. type_keys sample_layout ([0x26, 0x1F] @ [0x1C]) sample = Some s1 \<and>
     terminal_read 0 [] 0 128 s1 = Some (Read_returns 2 (bytes ''ls'') s2)"
proof -
  have "map (key_char sample) [0x26, 0x1F] = bytes ''ls''"
    by (simp add: key_char_def key_table_def sample_def no_modifier_def bytes_def of_char_def)
  then show ?thesis
    using type_and_read [OF sample_con_ok, of "[0x26, 0x1F]" 128 sample_layout 0 "[]" 0]
    by (auto simp: sample_sel plain_key_def)
qed

theorem read_two_lines_witness:
  "\<exists>s1 s2. terminal_read 0 [] 0 128 (sample\<lparr>key_buff := bytes ''ls'' @ NEWLINE # 112 # bytes ''wd'' @
         NEWLINE # replicate 121 0, num_enters := 2\<rparr>) = Some (Read_returns 2 (bytes ''ls'') s1) \<and>
     terminal_read 0 [] 0 128 s1 = Some (Read_returns 2 (bytes ''wd'') s2)"
  using read_two_lines [of "sample\<lparr>key_buff := bytes ''ls'' @ NEWLINE # 112 # bytes ''wd'' @
      NEWLINE # replicate 121 0, num_enters := 2\<rparr>" "bytes ''ls''" 112 "bytes ''wd''" "replicate 121 0" 128 0 0 0]
  by (simp add: sample_sel bytes_def of_char_def)

subsection \<open>The file system\<close>


subsection \<open>Paging and processes\<close>

lemma sample_paged:
  obtains s :: kstate where "paging_reach sample_layout s" "translate sample_layout s True 0x08048000 = Some 0x00848000"
proof -
  obtain s0 where s0: "init_paging sample_layout sample = Some s0"
    using init_paging_tables [of sample sample_layout] by (auto simp: sample_sel)
  have r0: "paging_reach sample_layout s0"
    using paging_reach.start [of sample sample_layout s0] s0 by (simp add: sample_sel)
  then have len: "length (page_directory s0) = 1024"
    using paging_inv_reach [OF _ sample_layout_ok] by (auto simp: paging_inv_def)
  obtain s1 where s1: "create_user_4mb_page (0 + 2) 32 s0 = Some (0, s1)"
    using create_user_4mb_page_eq [OF len, of 2 32] by auto
  have "paging_reach sample_layout s1"
    by (rule paging_reach.step [OF r0 paging_step.map_program [OF _ _ s1]]) simp_all
  moreover have "translate sample_layout s1 True 0x08048000 = Some 0x00848000"
    using translate_user_page [OF len, of 2 32 s1 sample_layout True "0x08048000"] s1 by simp
  ultimately show ?thesis by (rule that)
qed

theorem kernel_always_mapped_witness:
  "\<exists>s :: kstate. paging_reach sample_layout s \<and> translate sample_layout s False 0x00400010 = Some 0x00400010 \<and>
     translate sample_layout s True 0x00400010 = None"
proof -
  obtain s :: kstate where s: "paging_reach sample_layout s" by (rule sample_paged)
  from kernel_always_mapped [OF s sample_layout_ok, of "0x00400010"] s show ?thesis by auto
qed

theorem current_pcb_found_witness:
  "get_current_executing_pcb sample_child = Some 3 \<and> child_pcb (pcbs sample_child 3) = None"
proof -
  have "last ((sample_chains(0 := [0, 3])) 0) = 3" by simp
  then show ?thesis
    using current_pcb_found [OF sample_child_chains sample_child_sel(5)] sample_child_sel(1)
    by (metis nat_zero_as_int of_nat_0 zero_less_numeral)
qed

theorem round_robin_witness:
  "\<exists>k. 1 \<le> k \<and> k \<le> 3 \<and> after_switches k [True, False, True, False, False, False, False] 0 = Some 2"
  using round_robin [of 0 "[True, False, True, False, False, False, False]" 2] by simp

theorem pit_handler_switches_witness:
  "\<exists>t s'. pit_handler sample_layout 7 8 sample_child = Some ((7, 8), s') \<and> exec_term_id s' = int t \<and>
     return_ebp (pcbs s' 3) = 7"
proof -
  have "processes sample_child ! 0" "vid_page_table_0 sample_child = replicate 1024 0"
    by (simp_all add: sample_child_def sample_sel)
  then obtain t s' where t: "t < 3" "processes sample_child ! t" "exec_term_id s' = int t"
      "pit_handler sample_layout 7 8 sample_child =
        Some (if last ((sample_chains(0 := [0, 3])) t) = 3 then (7, 8)
              else (return_ebp (pcbs sample_child (last ((sample_chains(0 := [0, 3])) t))),
                    return_esp (pcbs sample_child (last ((sample_chains(0 := [0, 3])) t)))), s')"
      "return_ebp (pcbs s' 3) = 7"
    using pit_handler_switches [OF sample_child_chains sample_child_sel(5), of 3 sample_layout 7 8]
    by (fastforce simp: sample_child_sel)
  have "t = 0" using t(1,2) by (auto simp: sample_child_def nth_Cons' split: if_splits)
  with t show ?thesis by auto
qed

subsection \<open>System calls\<close>

lemma sample_type: "type_entry sample_file_dentry = Some (file_fo_jump_table, 0)"
  by (simp add: type_entry_def sample_file_dentry_sel)

lemma sample_name: "0 \<in> set (bytes ''shell'' @ [0])"
  by simp

lemma sample_found: "dentry_at (fs_mem sample) (fs_sections sample) 0 (uninit_dentry sample_env) = sample_file_dentry"
  by (simp add: sample_sel sample_env_def sample_file_dentry_def)

theorem sys_open_outcome_witness:
  "\<exists>s'. sys_open sample_env (Some (bytes ''shell'' @ [0])) sample = Some (2, s') \<and>
     fd_view s' 2 = Some (Some file_fo_jump_table, 0, 0)"
  using sys_open_outcome [OF sample_fd_ok sample_env_ok sample_name]
  by (auto simp: sample_lookup sample_free_fd sample_found sample_type)

theorem open_then_read_all_witness:
  "\<exists>s1 s2. sys_open sample_env (Some (bytes ''shell'' @ [0])) sample = Some (2, s1) \<and>
     read_all sample_env 10 29 2 s1 = Some (sample_file, s2)"
  using open_then_read_all [OF sample_fd_ok sample_env_ok sample_name sample_lookup sample_free_fd, of 0 10 29]
    sample_found sample_type sample_inode_ok
  by (simp add: sample_sel sample_contents length_sample_file)

subsection \<open>Programs\<close>

lemma sample_image:
  "contents (fs_mem sample) (fs_sections sample) (inode_index sample_file_dentry) = sample_file"
  by (simp add: sample_sel sample_file_dentry_sel sample_contents)

lemmas sample_run = sample_env_ok sample_proc_chains sample_tty_ids

theorem execute_starts_program_witness:
  "\<exists>s'. execute sample_env sample_layout (Some sample_command) sample = Some (Iret 0x08048018 s') \<and>
     cstr (pcb_args (pcbs s' 3)) = bytes ''-x'' \<and> running s' = 3"
proof -
  have "length (page_directory sample) = 1024" by (simp add: sample_sel)
  from execute_starts_program [OF sample_run this sample_command_ok sample_command_file sample_alloc
      sample_image [symmetric], of sample_layout]
  show ?thesis by (auto simp: length_sample_file sample_entry_point started_def sample_command_words)
qed

theorem execute_refuses_witness:
  "execute sample_env sample_layout (Some (bytes ''nope'' @ [0])) sample = Some (Ret (- 1) sample)"
proof -
  have w: "first_word (bytes ''nope'' @ [0]) = bytes ''nope''"
    by (simp add: first_word_def bytes_def of_char_def cstr_simps words_word)
  have n: "take 32 (cstr (bytes ''nope'')) = bytes ''nope''" "bytes ''nope'' \<noteq> bytes ''shell''"
      "bytes ''nope'' \<noteq> []"
    by (simp_all add: bytes_def of_char_def cstr_simps)
  have "entry_name sample_mem sample_fs i \<noteq> bytes ''nope''" if "i < 63" for i
    using sample_entry_0 sample_entry_empty [of i] that n by (cases "i = 0") auto
  then have "lookup_name sample (bytes ''nope'') = None"
    using n(1) by (auto simp: lookup_name_def find_None_iff sample_sel simp del: upt_rec_numeral)
  then have "program_file sample_env sample (first_word (bytes ''nope'' @ [0])) = None"
    unfolding w by (simp add: program_file_def)
  with execute_refuses [OF sample_env_ok, of "bytes ''nope'' @ [0]" sample sample_layout] sample_con_ok
  show ?thesis by (auto simp: bytes_def of_char_def cstr_simps)
qed

theorem halt_returns_to_parent_witness:
  "\<exists>s'. halt sample_layout 3 sample_child = Some (Return_to_parent 0x7FFF00 0x7FFF20 3 s') \<and> running s' = 0"
  using halt_returns_to_parent [OF sample_child_chains sample_child_sel(5), of "[]" 0 3 sample_layout 3]
  by (auto simp: sample_child_sel exit_status_def)

theorem execute_then_halt_witness:
  "\<exists>e s1 s2. execute sample_env sample_layout (Some sample_command) sample = Some (Iret e s1) \<and>
     halt sample_layout 0 s1 = Some (Return_to_parent 0x7FFF00 0x7FFF20 0 s2) \<and> running s2 = 0"
proof -
  have "length (page_directory sample) = 1024" by (simp add: sample_sel)
  from execute_then_halt [OF sample_run this sample_command_ok sample_command_file sample_alloc, of sample_layout 0]
  show ?thesis
    by (simp add: sample_image length_sample_file sample_running exit_status_def) (auto simp: sample_env_def)
qed

subsection \<open>Interrupts\<close>

theorem init_idt_table_witness:
  "\<exists>s'. init_idt sample_isr sample_kern = Some s' \<and> gate_offset (idt s' ! 0x80) = 0x401234 \<and>
     gate_dpl (idt s' ! 0x80) = 3 \<and> gate_dpl (idt s' ! 14) = 0"
proof -
  have "length (idt sample_kern) = 256" "syscall_wrapper sample_isr = 0x401234"
    by (simp_all add: sample_kern_def sample_def kstate.defs kern.defs sample_isr_def)
  then show ?thesis using init_idt_table [of sample_kern sample_isr] by fastforce
qed

theorem exception_ends_program_witness:
  "\<exists>s2. interrupt 14 sample_layout sample_child = Some (Return_to_parent 0x7FFF00 0x7FFF20 256 s2) \<and> running s2 = 0"
  using exception_ends_program [OF _ sample_child_sel(6) sample_child_chains sample_child_sel(5), of 14 "[]" 0 3 sample_layout]
  by (auto simp: sample_child_sel)

subsection \<open>The booted kernel\<close>

theorem entry_boots_witness:
  "\<exists>s'. entry sample_env sample_layout sample_isr sample_link MULTIBOOT_BOOTLOADER_MAGIC 0x510000 sample_kernel =
       Some (Boots (Iret 0x08048018 s')) \<and> running s' = 0 \<and> gate_offset (idt s' ! 0x80) = 0x401234"
proof -
  have "syscall_wrapper sample_isr = 0x401234" by (simp add: sample_isr_def)
  with entry_boots [OF sample_bootable sample_env_ok, of sample_layout sample_isr sample_link]
  show ?thesis by (auto simp: sample_entry_point)
qed








end
