(* ===== verification/Lib_Mem.thy ===== *)
theory Lib_Mem
  imports Filesys
begin

text \<open>
  The block functions of \<open>src/student-distrib/lib.c\<close> on byte-addressed memory: \<open>memset\<close>,
  \<open>memset_word\<close>, \<open>memset_dword\<close>, \<open>memcpy\<close> and \<open>memmove\<close>, with the loops of
  their inline assembly: a byte loop up to an aligned address, a string instruction, a byte loop for
  the rest. Addresses wrap at 32 bits as the registers do; a repeat count is the number in its register.
\<close>

unbundle bit_operations_syntax

subsection \<open>Stores of words and string instructions\<close>

definition st16 :: "mem \<Rightarrow> u32 \<Rightarrow> u16 \<Rightarrow> mem" where
  "st16 m a w = m(a := ucast w, a + 1 := ucast (drop_bit 8 w))"

definition st32 :: "mem \<Rightarrow> u32 \<Rightarrow> u32 \<Rightarrow> mem" where
  "st32 m a w = m(a := ucast w, a + 1 := ucast (drop_bit 8 w), a + 2 := ucast (drop_bit 16 w),
     a + 3 := ucast (drop_bit 24 w))"

fun rep_stosw :: "u16 \<Rightarrow> nat \<Rightarrow> mem \<Rightarrow> u32 \<Rightarrow> mem \<times> u32" where
  "rep_stosw ax 0 m edi = (m, edi)"
| "rep_stosw ax (Suc ecx) m edi = rep_stosw ax ecx (st16 m edi ax) (edi + 2)"

fun rep_stosl :: "u32 \<Rightarrow> nat \<Rightarrow> mem \<Rightarrow> u32 \<Rightarrow> mem \<times> u32" where
  "rep_stosl eax 0 m edi = (m, edi)"
| "rep_stosl eax (Suc ecx) m edi = rep_stosl eax ecx (st32 m edi eax) (edi + 4)"

fun rep_movsl :: "nat \<Rightarrow> mem \<Rightarrow> u32 \<Rightarrow> u32 \<Rightarrow> mem \<times> u32 \<times> u32" where
  "rep_movsl 0 m edi esi = (m, edi, esi)"
| "rep_movsl (Suc ecx) m edi esi = rep_movsl ecx (st32 m edi (ld32 m esi)) (edi + 4) (esi + 4)"

text \<open>\<open>rep movsb\<close> with the direction flag clear (step 1) or set (step - 1).\<close>

fun rep_movsb :: "u32 \<Rightarrow> nat \<Rightarrow> mem \<Rightarrow> u32 \<Rightarrow> u32 \<Rightarrow> mem" where
  "rep_movsb step 0 m edi esi = m"
| "rep_movsb step (Suc ecx) m edi esi = rep_movsb step ecx (m(edi := m esi)) (edi + step) (esi + step)"

subsection \<open>memset\<close>

text \<open>\<open>.memset_top\<close>: bytes until the address is aligned or the count is used up.\<close>

fun memset_top :: "u8 \<Rightarrow> nat \<Rightarrow> mem \<Rightarrow> u32 \<Rightarrow> mem \<times> u32 \<times> nat" where
  "memset_top al 0 m edi = (m, edi, 0)"
| "memset_top al (Suc ecx) m edi =
     (if edi AND 3 = 0 then (m, edi, Suc ecx) else memset_top al ecx (m(edi := al)) (edi + 1))"

fun memset_bottom :: "u8 \<Rightarrow> nat \<Rightarrow> mem \<Rightarrow> u32 \<Rightarrow> mem" where
  "memset_bottom al 0 m edi = m"
| "memset_bottom al (Suc edx) m edi = memset_bottom al edx (m(edi := al)) (edi + 1)"

definition memset :: "mem \<Rightarrow> u32 \<Rightarrow> u32 \<Rightarrow> u32 \<Rightarrow> mem" where
  "memset m s c n =
     (let c = c AND 0xFF;
          eax = push_bit 24 c OR push_bit 16 c OR push_bit 8 c OR c;
          (m, edi, ecx) = memset_top (ucast eax) (unat n) m s;
          edx = ecx mod 4;
          (m, edi) = rep_stosl eax (ecx div 4) m edi
      in memset_bottom (ucast eax) edx m edi)"

definition memset_word :: "mem \<Rightarrow> u32 \<Rightarrow> u32 \<Rightarrow> u32 \<Rightarrow> mem" where
  "memset_word m s c n = fst (rep_stosw (ucast c) (unat n) m s)"

definition memset_dword :: "mem \<Rightarrow> u32 \<Rightarrow> u32 \<Rightarrow> u32 \<Rightarrow> mem" where
  "memset_dword m s c n = fst (rep_stosl c (unat n) m s)"

subsection \<open>memcpy and memmove\<close>

fun memcpy_top :: "nat \<Rightarrow> mem \<Rightarrow> u32 \<Rightarrow> u32 \<Rightarrow> mem \<times> u32 \<times> u32 \<times> nat" where
  "memcpy_top 0 m edi esi = (m, edi, esi, 0)"
| "memcpy_top (Suc ecx) m edi esi =
     (if edi AND 3 = 0 then (m, edi, esi, Suc ecx)
      else memcpy_top ecx (m(edi := m esi)) (edi + 1) (esi + 1))"

fun memcpy_bottom :: "nat \<Rightarrow> mem \<Rightarrow> u32 \<Rightarrow> u32 \<Rightarrow> mem" where
  "memcpy_bottom 0 m edi esi = m"
| "memcpy_bottom (Suc edx) m edi esi = memcpy_bottom edx (m(edi := m esi)) (edi + 1) (esi + 1)"

definition memcpy :: "mem \<Rightarrow> u32 \<Rightarrow> u32 \<Rightarrow> u32 \<Rightarrow> mem" where
  "memcpy m dest src n =
     (let (m, edi, esi, ecx) = memcpy_top (unat n) m dest src;
          edx = ecx mod 4;
          (m, edi, esi) = rep_movsl (ecx div 4) m edi esi
      in memcpy_bottom edx m edi esi)"

text \<open>\<open>memmove\<close> also returns the direction flag it leaves: it is not cleared again.\<close>

definition memmove :: "mem \<Rightarrow> u32 \<Rightarrow> u32 \<Rightarrow> u32 \<Rightarrow> mem \<times> bool" where
  "memmove m dest src n =
     (if dest \<le> src then (rep_movsb 1 (unat n) m dest src, False)
      else (rep_movsb (- 1) (unat n) m (dest + n - 1) (src + n - 1), True))"

subsection \<open>Ranges\<close>

text \<open>The reference: a range of memory filled with a byte, or taken from another place.\<close>

definition fill :: "mem \<Rightarrow> u32 \<Rightarrow> nat \<Rightarrow> u8 \<Rightarrow> mem" where
  "fill m s k b = (\<lambda>a. if unat (a - s) < k then b else m a)"

definition block_copy :: "mem \<Rightarrow> u32 \<Rightarrow> u32 \<Rightarrow> nat \<Rightarrow> mem" where
  "block_copy m d s k = (\<lambda>a. if unat (a - d) < k then m (s + (a - d)) else m a)"

lemma unat_diff_shift:
  assumes "j < 2 ^ 32"
  shows "unat (x - of_nat j :: u32) = (if j \<le> unat x then unat x - j else unat x + 2 ^ 32 - j)"
proof (cases "j \<le> unat x")
  case True
  then have "of_nat j \<le> x" using assms by (simp add: word_le_nat_alt unat_of_nat take_bit_nat_eq_self)
  then have "unat (x - of_nat j) = unat x - unat (of_nat j :: u32)" by (rule unat_sub)
  then show ?thesis using True assms by (simp add: unat_of_nat take_bit_nat_eq_self)
next
  case False
  have "of_nat (unat x + 2 ^ 32 - j) = (of_nat (unat x + 2 ^ 32) :: u32) - of_nat j" using assms by (intro of_nat_diff) simp
  also have "\<dots> = x - of_nat j" by simp
  finally have eq: "x - of_nat j = of_nat (unat x + 2 ^ 32 - j)" by (rule sym)
  have "unat x + 2 ^ 32 - j < 2 ^ 32" using False by simp
  then have "unat (of_nat (unat x + 2 ^ 32 - j) :: u32) = unat x + 2 ^ 32 - j"
    by (simp only: unat_of_nat) (simp add: take_bit_nat_eq_self)
  then show ?thesis using False unfolding eq by simp
qed

lemma fill_append:
  assumes "j + k \<le> 2 ^ 32"
  shows "fill (fill m s j b) (s + of_nat j) k b = fill m s (j + k) b"
proof
  fix a
  show "fill (fill m s j b) (s + of_nat j) k b a = fill m s (j + k) b a"
  proof (cases "j = 2 ^ 32")
    case True
    then show ?thesis using assms u32_bound [of "a - s"] by (simp add: fill_def)
  next
    case False
    then have "unat (a - (s + of_nat j)) =
        (if j \<le> unat (a - s) then unat (a - s) - j else unat (a - s) + 2 ^ 32 - j)"
      using unat_diff_shift [of j "a - s"] assms by (simp add: algebra_simps)
    then show ?thesis using assms by (auto simp: fill_def split: if_splits)
  qed
qed

lemma fill_1: "m(s := b) = fill m s 1 b"
  by (auto simp: fill_def unat_eq_0)

lemma fill_0: "fill m s 0 b = m"
  by (simp add: fill_def)

lemma fill_Suc: "Suc k \<le> 2 ^ 32 \<Longrightarrow> fill (m(s := b)) (s + 1) k b = fill m s (Suc k) b"
  using fill_append [of 1 k m s b] by (simp add: fill_1)

lemma memset_bottom_fill: "k \<le> 2 ^ 32 \<Longrightarrow> memset_bottom al k m edi = fill m edi k al"
  by (induction k arbitrary: m edi) (simp_all add: fill_0 fill_Suc)

lemma memset_top_fill:
  "k \<le> 2 ^ 32 \<Longrightarrow> memset_top al k m edi = (m', edi', k') \<Longrightarrow>
     k' \<le> k \<and> m' = fill m edi (k - k') al \<and> edi' = edi + of_nat (k - k')"
proof (induction k arbitrary: m edi)
  case (Suc k)
  show ?case
  proof (cases "edi AND 3 = 0")
    case False
    then have "memset_top al k (m(edi := al)) (edi + 1) = (m', edi', k')" using Suc.prems(2) by simp
    from Suc.IH [OF _ this] Suc.prems(1)
    have "k' \<le> k" "m' = fill (m(edi := al)) (edi + 1) (k - k') al" "edi' = edi + 1 + of_nat (k - k')"
      by (auto simp: fun_upd_def simp del: of_nat_diff)
    then show ?thesis using Suc.prems(1) by (simp add: fill_Suc Suc_diff_le del: of_nat_diff)
  qed (use Suc.prems in \<open>simp add: fill_0\<close>)
qed (simp add: fill_0)

lemma fill_snoc: "Suc k \<le> 2 ^ 32 \<Longrightarrow> (fill m s k b)(s + of_nat k := b) = fill m s (Suc k) b"
  using fill_append [of k 1 m s b] by (simp add: fill_1)

lemma st32_fill:
  assumes "c = take_bit 8 c0" "w = push_bit 24 c OR push_bit 16 c OR push_bit 8 c OR c"
  shows "st32 m a w = fill m a 4 (ucast c0)" "ucast w = (ucast c0 :: u8)"
proof -
  have u: "ucast w = (ucast c0 :: u8)" "ucast (drop_bit 8 w) = (ucast c0 :: u8)"
      "ucast (drop_bit 16 w) = (ucast c0 :: u8)" "ucast (drop_bit 24 w) = (ucast c0 :: u8)"
    unfolding assms by (rule bit_word_eqI, auto simp: bit_simps)+
  have "fill (fill m a 1 b) (a + 1) 1 b = fill m a 2 b" for b
    using fill_append [of 1 1 m a b] unfolding nat_1_add_1 by simp
  then have "(fill m a 1 b)(a + 1 := b) = fill m a 2 b" "(fill m a 2 b)(a + 2 := b) = fill m a 3 b"
      "(fill m a 3 b)(a + 3 := b) = fill m a 4 b" for b
    using fill_snoc [of 2 m a b] fill_snoc [of 3 m a b] unfolding fill_1 [of "fill m a 1 b"] by simp_all
  then show "st32 m a w = fill m a 4 (ucast c0)" unfolding st32_def u fill_1 [of m] by simp
  show "ucast w = (ucast c0 :: u8)" by (rule u(1))
qed

lemma rep_stosl_fill:
  assumes "\<And>m a. st32 m a w = fill m a 4 b" "4 * k \<le> 2 ^ 32"
  shows "rep_stosl w k m edi = (fill m edi (4 * k) b, edi + of_nat (4 * k))"
  using assms(2)
proof (induction k arbitrary: m edi)
  case (Suc k)
  then show ?case using fill_append [of 4 "4 * k" m edi b] by (simp add: assms(1) algebra_simps)
qed (simp add: fill_0)

text \<open>
  \<open>memset\<close>, with its byte loops around the string instruction, sets exactly the \<open>n\<close>
  bytes from \<open>s\<close> on to the low byte of \<open>c\<close>, for every alignment and every length.
\<close>

lemma memset_fills: "memset m s c n = (\<lambda>a. if a - s < n then ucast c else m a)"
proof -
  define c' where "c' = c AND 0xFF"
  define w where "w = push_bit 24 c' OR push_bit 16 c' OR push_bit 8 c' OR c'"
  have c': "c' = take_bit 8 c" by (simp add: c'_def take_bit_eq_mask mask_eq_exp_minus_1)
  note st = st32_fill [OF c' w_def]
  obtain m1 edi k where top: "memset_top (ucast c) (unat n) m s = (m1, edi, k)" by (cases "memset_top (ucast c) (unat n) m s")
  have n: "unat n \<le> 2 ^ 32" using u32_bound [of n] by simp
  have t: "k \<le> unat n" "m1 = fill m s (unat n - k) (ucast c)" "edi = s + of_nat (unat n - k)"
    using memset_top_fill [OF n top] by blast+
  have k: "4 * (k div 4) \<le> 2 ^ 32" using t(1) n by linarith
  have rest: "memset_bottom (ucast c) (k mod 4) (fill m1 edi (4 * (k div 4)) (ucast c)) (edi + of_nat (4 * (k div 4))) =
      fill m1 edi k (ucast c)"
    using fill_append [of "4 * (k div 4)" "k mod 4" m1 edi "ucast c"] t(1) n by (simp add: memset_bottom_fill)
  have "memset m s c n = fill m1 edi k (ucast c)"
    unfolding memset_def Let_def c'_def [symmetric] w_def [symmetric] st(2) top prod.case
      rep_stosl_fill [OF st(1) k] rest ..
  also have "\<dots> = fill m s (unat n) (ucast c)"
    using fill_append [of "unat n - k" k m s "ucast c"] t n by (simp del: of_nat_diff)
  finally show ?thesis by (simp add: fill_def word_less_nat_alt)
qed

subsection \<open>Copies\<close>

text \<open>
  A copy in ascending order reads every byte before it is overwritten when the destination does not
  start inside the source range.
\<close>

definition forward_ok :: "u32 \<Rightarrow> u32 \<Rightarrow> nat \<Rightarrow> bool" where
  "forward_ok d s k \<longleftrightarrow> d = s \<or> k \<le> unat (d - s)"

lemma block_copy_append:
  assumes "j + k \<le> 2 ^ 32" "forward_ok d s (j + k)"
  shows "block_copy (block_copy m d s j) (d + of_nat j) (s + of_nat j) k = block_copy m d s (j + k)"
proof
  fix a
  show "block_copy (block_copy m d s j) (d + of_nat j) (s + of_nat j) k a = block_copy m d s (j + k) a"
  proof (cases "k = 0")
    case True
    then show ?thesis by (simp add: block_copy_def)
  next
    case False
    then have j: "j < 2 ^ 32" using assms(1) by simp
    let ?x = "a - d"
    have x: "unat (a - (d + of_nat j)) = (if j \<le> unat ?x then unat ?x - j else unat ?x + 2 ^ 32 - j)"
      using unat_diff_shift [OF j, of ?x] by (simp add: algebra_simps)
    have src: "s + of_nat j + (a - (d + of_nat j)) = s + ?x" by (simp add: algebra_simps)
    have keep: "block_copy m d s j (s + ?x) = m (s + ?x)" if "j \<le> unat ?x" "unat ?x < j + k"
    proof (cases "d = s")
      case True
      then show ?thesis by (simp add: block_copy_def)
    next
      case False
      then have y: "j + k \<le> unat (d - s)" using assms(2) by (simp add: forward_ok_def)
      have eq: "s + ?x - d = ?x - of_nat (unat (d - s))" by simp
      have "unat (s + ?x - d) = unat ?x + 2 ^ 32 - unat (d - s)"
        unfolding eq using unat_diff_shift [OF u32_bound [of "d - s"], of ?x] that y by (simp only: if_not_P not_le)
      then have "\<not> unat (s + ?x - d) < j" using that(1) u32_bound [of "d - s"] by simp
      then show ?thesis by (simp add: block_copy_def)
    qed
    show ?thesis
      using x assms(1) keep unfolding block_copy_def [of "block_copy m d s j"] src
      by (auto simp: block_copy_def split: if_splits)
  qed
qed

lemma block_copy_0: "block_copy m d s 0 = m"
  by (simp add: block_copy_def)

lemma block_copy_1: "m(d := m s) = block_copy m d s 1"
  by (auto simp: block_copy_def unat_eq_0)

lemma forward_ok_mono: "forward_ok d s k \<Longrightarrow> j \<le> k \<Longrightarrow> forward_ok d s j"
  by (auto simp: forward_ok_def)

lemma forward_ok_shift: "forward_ok (d + x) (s + x) k = forward_ok d s k"
  by (simp add: forward_ok_def)

lemma block_copy_Suc:
  "Suc k \<le> 2 ^ 32 \<Longrightarrow> forward_ok d s (Suc k) \<Longrightarrow>
     block_copy (m(d := m s)) (d + 1) (s + 1) k = block_copy m d s (Suc k)"
  using block_copy_append [of 1 k d s m] by (simp add: block_copy_1)

lemma memcpy_bottom_copy:
  "k \<le> 2 ^ 32 \<Longrightarrow> forward_ok d s k \<Longrightarrow> memcpy_bottom k m d s = block_copy m d s k"
proof (induction k arbitrary: m d s)
  case (Suc k)
  have "forward_ok (d + 1) (s + 1) k" using Suc.prems(2) forward_ok_mono [of d s "Suc k" k] by (simp add: forward_ok_shift)
  then show ?case using Suc.IH [of "d + 1" "s + 1" "m(d := m s)"] Suc.prems block_copy_Suc [of k d s m] by (simp add: fun_upd_def)
qed (simp add: block_copy_0)

lemma memcpy_top_copy:
  "k \<le> 2 ^ 32 \<Longrightarrow> forward_ok d s k \<Longrightarrow> memcpy_top k m d s = (m', d', s', k') \<Longrightarrow>
     k' \<le> k \<and> m' = block_copy m d s (k - k') \<and> d' = d + of_nat (k - k') \<and> s' = s + of_nat (k - k')"
proof (induction k arbitrary: m d s)
  case (Suc k)
  show ?case
  proof (cases "d AND 3 = 0")
    case False
    then have "memcpy_top k (m(d := m s)) (d + 1) (s + 1) = (m', d', s', k')" using Suc.prems(3) by simp
    from Suc.IH [OF _ _ this] Suc.prems(1,2) forward_ok_mono [of d s "Suc k" k]
    have "k' \<le> k" and m': "m' = block_copy (m(d := m s)) (d + 1) (s + 1) (k - k')"
      and "d' = d + 1 + of_nat (k - k')" "s' = s + 1 + of_nat (k - k')"
      by (auto simp: fun_upd_def forward_ok_shift simp del: of_nat_diff)
    moreover have "forward_ok d s (Suc (k - k'))" using Suc.prems(2) forward_ok_mono [of d s "Suc k"] by simp
    then have "m' = block_copy m d s (Suc (k - k'))"
      unfolding m' using Suc.prems(1) by (intro block_copy_Suc) simp_all
    ultimately show ?thesis by (simp add: Suc_diff_le del: of_nat_diff)
  qed (use Suc.prems in \<open>simp add: block_copy_0\<close>)
qed (simp add: block_copy_0)

lemma ld32_or:
  "ld32 m a = ucast (m a) OR push_bit 8 (ucast (m (a + 1))) OR push_bit 16 (ucast (m (a + 2)))
     OR push_bit 24 (ucast (m (a + 3)))"
proof -
  have add: "x + push_bit k y = x OR push_bit k y" if "\<And>n. bit x n \<Longrightarrow> n < k" for x y :: u32 and k
    by (rule disjunctive_add) (use that in \<open>auto simp: bit_push_bit_iff simp flip: not_less\<close>)
  define b0 b1 b2 b3 :: u32
    where b: "b0 = ucast (m a)" "b1 = ucast (m (a + 1))" "b2 = ucast (m (a + 2))" "b3 = ucast (m (a + 3))"
  have l: "bit b0 n \<Longrightarrow> n < 8" "bit b1 n \<Longrightarrow> n < 8" "bit b2 n \<Longrightarrow> n < 8" for n
    by (auto simp: b bit_simps dest: bit_imp_le_length)
  have "b0 + push_bit 8 b1 = b0 OR push_bit 8 b1" by (rule add) (rule l)
  moreover have "(b0 OR push_bit 8 b1) + push_bit 16 b2 = (b0 OR push_bit 8 b1) OR push_bit 16 b2"
    by (rule add) (auto simp: bit_simps dest!: l)
  moreover have "(b0 OR push_bit 8 b1 OR push_bit 16 b2) + push_bit 24 b3 = (b0 OR push_bit 8 b1 OR push_bit 16 b2) OR push_bit 24 b3"
    by (rule add) (auto simp: bit_simps dest!: l)
  ultimately show ?thesis
    unfolding ld32_def mult.commute [of "2 ^ _"] push_bit_eq_mult [symmetric] b [symmetric] by (simp add: or.assoc)
qed

lemma ld32_bytes:
  "ucast (ld32 m a) = m a" "ucast (drop_bit 8 (ld32 m a)) = m (a + 1)"
  "ucast (drop_bit 16 (ld32 m a)) = m (a + 2)" "ucast (drop_bit 24 (ld32 m a)) = m (a + 3)"
  unfolding ld32_or by (rule bit_word_eqI, auto simp: bit_simps dest: bit_imp_le_length)+

lemma less_4_cases: "unat (x :: u32) < 4 \<longleftrightarrow> x = 0 \<or> x = 1 \<or> x = 2 \<or> x = 3"
proof
  assume "unat x < 4"
  then have "unat x = 0 \<or> unat x = 1 \<or> unat x = 2 \<or> unat x = 3" by linarith
  then have "of_nat (unat x) = (0 :: u32) \<or> of_nat (unat x) = (1 :: u32) \<or> of_nat (unat x) = (2 :: u32)
      \<or> of_nat (unat x) = (3 :: u32)" by (elim disjE) simp_all
  then show "x = 0 \<or> x = 1 \<or> x = 2 \<or> x = 3" by simp
qed auto

lemma st32_copy: "st32 m d (ld32 m s) = block_copy m d s 4"
proof
  fix a
  obtain x where a: "a = d + x" by (metis add.commute diff_add_cancel)
  show "st32 m d (ld32 m s) a = block_copy m d s 4 a"
    unfolding st32_def ld32_bytes block_copy_def a by (auto simp: less_4_cases)
qed

lemma rep_movsl_copy:
  "4 * k \<le> 2 ^ 32 \<Longrightarrow> forward_ok d s (4 * k) \<Longrightarrow>
     rep_movsl k m d s = (block_copy m d s (4 * k), d + of_nat (4 * k), s + of_nat (4 * k))"
proof (induction k arbitrary: m d s)
  case (Suc k)
  have "forward_ok d s 4" "forward_ok (d + 4) (s + 4) (4 * k)"
    using Suc.prems(2) forward_ok_mono [of d s "4 * Suc k"] by (simp_all add: forward_ok_shift)
  then show ?case
    using Suc.IH [of "d + 4" "s + 4"] Suc.prems block_copy_append [of 4 "4 * k" d s m]
    by (simp add: st32_copy algebra_simps)
qed (simp add: block_copy_0)

text \<open>
  C38: \<open>memcpy\<close>, with its byte loops around the string instruction, makes the \<open>n\<close> bytes from
  \<open>dest\<close> on equal to those that were at \<open>src\<close> and changes no other byte, for every alignment and
  every length, when the destination does not start inside the source range.
\<close>

theorem memcpy_copies:
  assumes "dest = src \<or> n \<le> dest - src"
  shows "memcpy m dest src n = (\<lambda>a. if a - dest < n then m (src + (a - dest)) else m a)"
proof -
  have n: "unat n \<le> 2 ^ 32" using u32_bound [of n] by simp
  have fw: "forward_ok dest src (unat n)" using assms by (auto simp: forward_ok_def word_le_nat_alt)
  obtain m1 d s k where top: "memcpy_top (unat n) m dest src = (m1, d, s, k)"
    by (cases "memcpy_top (unat n) m dest src")
  have k: "k \<le> unat n" and m1: "m1 = block_copy m dest src (unat n - k)"
    and d: "d = dest + of_nat (unat n - k)" and s: "s = src + of_nat (unat n - k)"
    using memcpy_top_copy [OF n fw top] by blast+
  have kb: "4 * (k div 4) \<le> 2 ^ 32" "k mod 4 \<le> 2 ^ 32" using k n by linarith+
  have fwk: "forward_ok d s k" unfolding d s forward_ok_shift by (rule forward_ok_mono [OF fw k])
  have fwd: "forward_ok d s (4 * (k div 4))" by (rule forward_ok_mono [OF fwk]) simp
  have fwm: "forward_ok (d + of_nat (4 * (k div 4))) (s + of_nat (4 * (k div 4))) (k mod 4)"
    unfolding forward_ok_shift by (rule forward_ok_mono [OF fwk]) simp
  have "memcpy m dest src n = block_copy m1 d s k"
    using block_copy_append [of "4 * (k div 4)" "k mod 4" d s m1] fwk k n
    unfolding memcpy_def Let_def top prod.case rep_movsl_copy [OF kb(1) fwd] memcpy_bottom_copy [OF kb(2) fwm] by simp
  also have "\<dots> = block_copy m dest src (unat n)"
    using block_copy_append [of "unat n - k" k dest src m] fw k n unfolding m1 d s by (simp del: of_nat_diff)
  finally show ?thesis by (simp add: block_copy_def word_less_nat_alt)
qed

lemma rep_movsb_forward:
  "k \<le> 2 ^ 32 \<Longrightarrow> forward_ok d s k \<Longrightarrow> rep_movsb 1 k m d s = block_copy m d s k"
proof (induction k arbitrary: m d s)
  case (Suc k)
  have "forward_ok (d + 1) (s + 1) k" using Suc.prems(2) forward_ok_mono [of d s "Suc k" k] by (simp add: forward_ok_shift)
  then show ?case
    using Suc.IH [of "d + 1" "s + 1" "m(d := m s)"] Suc.prems block_copy_Suc [of k d s m] by (simp add: fun_upd_def)
qed (simp add: block_copy_0)

text \<open>A copy in descending order has the mirrored condition: the source does not start inside the destination.\<close>

lemma block_copy_snoc:
  assumes "Suc k \<le> 2 ^ 32" "forward_ok s d (Suc k)"
  shows "block_copy (m(d + of_nat k := m (s + of_nat k))) d s k = block_copy m d s (Suc k)"
proof
  fix a
  obtain x where a: "a = d + x" by (metis add.commute diff_add_cancel)
  have k: "unat (of_nat k :: u32) = k" using assms(1) by (simp only: unat_of_nat) (simp add: take_bit_nat_eq_self)
  have "s + x \<noteq> d + of_nat k" if "unat x < k"
  proof
    assume "s + x = d + of_nat k"
    then have eq: "s - d = of_nat k - x" by (simp add: algebra_simps eq_diff_eq)
    have "x \<le> of_nat k" "x \<noteq> of_nat k" using that k by (auto simp: word_le_nat_alt)
    then have "unat (s - d) = k - unat x" "s \<noteq> d" using eq unat_sub [of x "of_nat k"] k by auto
    then show False using assms(2) by (simp add: forward_ok_def)
  qed
  moreover have "unat x < Suc k \<longleftrightarrow> unat x < k \<or> x = of_nat k" using k by (auto simp: less_Suc_eq)
  ultimately show "block_copy (m(d + of_nat k := m (s + of_nat k))) d s k a = block_copy m d s (Suc k) a"
    unfolding block_copy_def a using k by auto
qed

lemma rep_movsb_backward:
  "k \<le> 2 ^ 32 \<Longrightarrow> forward_ok s d k \<Longrightarrow>
     rep_movsb (- 1) k m (d + of_nat k - 1) (s + of_nat k - 1) = block_copy m d s k"
proof (induction k arbitrary: m)
  case (Suc k)
  have "rep_movsb (- 1) (Suc k) m (d + of_nat (Suc k) - 1) (s + of_nat (Suc k) - 1) =
      rep_movsb (- 1) k (m(d + of_nat k := m (s + of_nat k))) (d + of_nat k - 1) (s + of_nat k - 1)"
    by simp
  also have "\<dots> = block_copy m d s (Suc k)"
    using Suc.IH Suc.prems forward_ok_mono [of s d "Suc k" k] block_copy_snoc [of k s d m] by simp
  finally show ?case .
qed (simp add: block_copy_0)

lemma no_wrap_apart:
  fixes d s :: u32
  assumes "d \<le> s" "unat s + k \<le> 2 ^ 32"
  shows "forward_ok d s k"
proof (cases "d = s")
  case False
  then have "d < s" using assms(1) by simp
  then have "unat d < unat s" by (simp add: word_less_nat_alt)
  then have "unat (d - s) = unat d + 2 ^ 32 - unat s"
    using unat_diff_shift [OF u32_bound [of s], of d] by simp
  then have "k \<le> unat (d - s)" using assms(2) by linarith
  then show ?thesis by (simp add: forward_ok_def)
qed (simp add: forward_ok_def)

text \<open>
  \<open>memmove\<close> makes the \<open>n\<close> bytes from \<open>dest\<close> on equal to those that were at \<open>src\<close>,
  however the two ranges overlap, when neither runs past the end of the address space; the direction
  flag is left set exactly when the copy went downwards.
\<close>

lemma memmove_moves:
  assumes "unat src + unat n \<le> 2 ^ 32" "unat dest + unat n \<le> 2 ^ 32"
  shows "memmove m dest src n =
    ((\<lambda>a. if a - dest < n then m (src + (a - dest)) else m a), src < dest)"
proof (cases "dest \<le> src")
  case True
  have "rep_movsb 1 (unat n) m dest src = block_copy m dest src (unat n)"
    using rep_movsb_forward no_wrap_apart [OF True assms(1)] u32_bound [of n] by simp
  then show ?thesis using True leD [OF True] by (simp add: memmove_def block_copy_def flip: word_less_nat_alt)
next
  case False
  then have "src \<le> dest" by simp
  then have "rep_movsb (- 1) (unat n) m (dest + n - 1) (src + n - 1) = block_copy m dest src (unat n)"
    using rep_movsb_backward [of "unat n" src dest m] no_wrap_apart [OF _ assms(2)] u32_bound [of n] by simp
  then show ?thesis using False by (simp add: memmove_def block_copy_def not_le flip: word_less_nat_alt)
qed

text \<open>Witnesses: an unaligned copy of 4097 bytes, and a move of a range up by three bytes over itself.\<close>

theorem memcpy_copies_witness:
  "memcpy (\<lambda>a. ucast a) 0x2003 0x1001 0x1001 =
     (\<lambda>a. if a - 0x2003 < 0x1001 then ucast (0x1001 + (a - 0x2003)) else ucast a)"
  using memcpy_copies [of "0x2003" "0x1001" "0x1001" "\<lambda>a. ucast a"] by simp

end
