(* ===== verification/User_Lib.thy ===== *)
theory User_Lib
  imports Lib_Number
begin

text \<open>
  What every user program is linked with: the support functions of
  \<open>src/syscalls/ece391support.c\<close>, and the system calls it makes through the stubs declared in
  \<open>src/syscalls/ece391syscall.h\<close>. A program is a function of a record of system calls, over a
  state of the operating system the program never inspects; \<open>None\<close> is a call that does not return
  or an access outside an array. The text and number routines are proved equal to the kernel's.
\<close>

subsection \<open>The system calls\<close>

text \<open>
  \<open>os_read\<close> also gives the bytes stored from the start of the buffer on, \<open>os_getargs\<close> the
  contents of the buffer of the given length after the call. \<open>os_vidmap\<close> and
  \<open>os_set_handler\<close> take an address. \<open>os_call\<close> is the bare trap with a number in \<open>eax\<close>.
\<close>

record 's os =
  os_execute :: "u8 list \<Rightarrow> 's \<Rightarrow> (int \<times> 's) option"
  os_read :: "int \<Rightarrow> int \<Rightarrow> 's \<Rightarrow> (int \<times> u8 list \<times> 's) option"
  os_write :: "int \<Rightarrow> u8 list \<Rightarrow> int \<Rightarrow> 's \<Rightarrow> (int \<times> 's) option"
  os_open :: "u8 list \<Rightarrow> 's \<Rightarrow> (int \<times> 's) option"
  os_close :: "int \<Rightarrow> 's \<Rightarrow> (int \<times> 's) option"
  os_getargs :: "int \<Rightarrow> 's \<Rightarrow> (int \<times> u8 list \<times> 's) option"
  os_vidmap :: "u32 \<Rightarrow> 's \<Rightarrow> (int \<times> 's) option"
  os_call :: "int \<Rightarrow> 's \<Rightarrow> (int \<times> 's) option"

text \<open>A string literal with its terminating NUL, and an array after bytes were stored at an offset.\<close>

definition lit :: "string \<Rightarrow> u8 list" where
  "lit t = bytes t @ [0]"

definition put_bytes :: "u8 list \<Rightarrow> nat \<Rightarrow> u8 list \<Rightarrow> u8 list option" where
  "put_bytes buf off bs =
     (if off + length bs \<le> length buf then Some (take off buf @ bs @ drop (off + length bs) buf) else None)"

subsection \<open>Strings\<close>

fun ece391_strlen :: "u8 list \<Rightarrow> nat option" where
  "ece391_strlen [] = None"
| "ece391_strlen (c # s) = (if 0 \<noteq> c then map_option Suc (ece391_strlen s) else Some 0)"

text \<open>Source and destination are offsets in one array, so that they may overlap.\<close>

function ece391_strcpy :: "u8 list \<Rightarrow> nat \<Rightarrow> nat \<Rightarrow> u8 list option" where
  "ece391_strcpy m dst src =
     (case rd m (int src) of
        None \<Rightarrow> None
      | Some c \<Rightarrow>
          (case wr m (int dst) c of
             None \<Rightarrow> None
           | Some m' \<Rightarrow> if 0 \<noteq> c then ece391_strcpy m' (Suc dst) (Suc src) else Some m'))"
  by pat_completeness auto
termination
  by (relation "measure (\<lambda>(m, dst, src). length m - src)") (auto simp: rd_Some_iff dest: wr_length)

declare ece391_strcpy.simps [simp del]

definition ece391_fdputs :: "'s os \<Rightarrow> int \<Rightarrow> u8 list \<Rightarrow> 's \<Rightarrow> 's option" where
  "ece391_fdputs OS fd str s = do {
     n \<leftarrow> ece391_strlen str;
     (_, s) \<leftarrow> os_write OS fd str (int n) s;
     Some s
   }"

fun ece391_strcmp :: "u8 list \<Rightarrow> u8 list \<Rightarrow> int option" where
  "ece391_strcmp (a # s1) (b # s2) =
     (if a = b then (if a = 0 then Some 0 else ece391_strcmp s1 s2) else Some (uint a - uint b))"
| "ece391_strcmp s1 s2 = None"

fun ece391_strncmp :: "u8 list \<Rightarrow> u8 list \<Rightarrow> nat \<Rightarrow> int option" where
  "ece391_strncmp s1 s2 0 = Some 0"
| "ece391_strncmp (a # s1) (b # s2) (Suc n) =
     (if a = b then (if a = 0 \<or> n = 0 then Some 0 else ece391_strncmp s1 s2 n) else Some (uint a - uint b))"
| "ece391_strncmp s1 s2 (Suc n) = None"

subsection \<open>Numbers\<close>

function ece391_strrev_loop :: "u8 list \<Rightarrow> int \<Rightarrow> int \<Rightarrow> u8 list option" where
  "ece391_strrev_loop s beg en =
     (if beg < en
      then do {
        tmp \<leftarrow> rd s en;
        b \<leftarrow> rd s beg;
        s \<leftarrow> wr s en b;
        s \<leftarrow> wr s beg tmp;
        ece391_strrev_loop s (beg + 1) (en - 1)
      }
      else Some s)"
  by pat_completeness auto
termination
  by (relation "measure (\<lambda>(s, beg, en). nat (en - beg))") auto

declare ece391_strrev_loop.simps [simp del]

definition ece391_strrev :: "u8 list \<Rightarrow> u8 list option" where
  "ece391_strrev s = do {
     n \<leftarrow> ece391_strlen s;
     let en = int n - 1;
     if en \<le> 0 then Some s else ece391_strrev_loop s 0 en
   }"

partial_function (option) ece391_itoa_loop ::
  "nat \<Rightarrow> nat \<Rightarrow> u8 list \<Rightarrow> nat \<Rightarrow> (u8 list \<times> nat) option" where
  "ece391_itoa_loop newval radix buf k =
     (if 0 < newval
      then (if radix = 0 then None
            else do {
              c \<leftarrow> rd itoa_lookup (int (newval mod radix));
              buf \<leftarrow> wr buf (int k) c;
              ece391_itoa_loop (newval div radix) radix buf (Suc k)
            })
      else Some (buf, k))"

definition ece391_itoa :: "u32 \<Rightarrow> u8 list \<Rightarrow> nat \<Rightarrow> u8 list option" where
  "ece391_itoa value buf radix =
     (if value = 0
      then do { buf \<leftarrow> wr buf 0 48; wr buf 1 0 }
      else do {
        (buf, k) \<leftarrow> ece391_itoa_loop (unat value) radix buf 0;
        buf \<leftarrow> wr buf (int k) 0;
        ece391_strrev buf
      })"

subsection \<open>The routines agree with the kernel's\<close>

lemma ece391_strlen_eq: "ece391_strlen s = strlen s"
  by (induction s) auto

lemma ece391_strlen_cstr: "0 \<in> set s \<Longrightarrow> ece391_strlen s = Some (length (cstr s))"
  by (simp add: ece391_strlen_eq strlen_cstr)

lemma ece391_strrev_loop_eq: "ece391_strrev_loop s beg en = strrev_loop s beg en"
  by (induction s beg en rule: ece391_strrev_loop.induct)
    (subst ece391_strrev_loop.simps, subst strrev_loop.simps, auto intro!: Option.bind_cong)

lemma ece391_strrev_eq: "ece391_strrev = strrev"
proof
  show "ece391_strrev s = strrev s" for s
    by (cases "strlen s")
      (auto simp: ece391_strrev_def strrev_def ece391_strlen_eq ece391_strrev_loop_eq strrev_loop_stop)
qed

lemma ece391_itoa_loop_eq: "2 \<le> radix \<Longrightarrow> ece391_itoa_loop n radix buf k = itoa_loop n radix buf k"
proof (induction n arbitrary: buf k rule: less_induct)
  case (less n)
  have "0 < n \<Longrightarrow> n div radix < n" using less.prems by simp
  then show ?case
    using less by (subst ece391_itoa_loop.simps, subst itoa_loop.simps) (auto intro!: Option.bind_cong)
qed

lemma ece391_itoa_eq: "2 \<le> radix \<Longrightarrow> ece391_itoa value buf radix = itoa value buf radix"
  by (simp add: ece391_itoa_def itoa_def ece391_itoa_loop_eq ece391_strrev_eq)

lemma ece391_itoa_num_text:
  assumes "2 \<le> r" "r \<le> 36" "33 \<le> length buf"
  shows "\<exists>b. ece391_itoa v buf r = Some (num_text r v @ 0 # b) \<and> length (num_text r v @ 0 # b) = length buf"
proof -
  let ?b = "drop (Suc (max 1 (length (digits r (unat v))))) buf"
  have "0 < length (num_text r v) \<and> length (num_text r v) \<le> 32"
    by (rule length_num_text [of 2]) (use assms in auto)
  moreover have "length (num_text r v) = max 1 (length (digits r (unat v)))"
    using calculation by (auto simp: num_text_def digits.simps [of r 0] max_def Suc_le_eq)
  ultimately have "length (num_text r v @ 0 # ?b) = length buf" using assms(3) by (simp add: max_def split: if_splits)
  then show ?thesis
    using itoa_eq [OF assms, of v] assms(1) unfolding num_text_def [symmetric]
    by (intro exI [of _ ?b]) (simp add: ece391_itoa_eq)
qed

lemma uint_u8_inject: "uint (a :: u8) = uint b \<longleftrightarrow> a = b" "uint (a :: u8) = 0 \<longleftrightarrow> a = 0"
  by (simp_all flip: word_uint_eq_iff add: unsigned_eq_0_iff)

lemma ece391_strcmp_zero:
  "0 \<in> set s1 \<Longrightarrow> 0 \<in> set s2 \<Longrightarrow> ece391_strcmp s1 s2 = Some 0 \<longleftrightarrow> cstr s1 = cstr s2"
  by (induction s1 s2 rule: ece391_strcmp.induct) (auto simp: cstr_simps uint_u8_inject)

lemma ece391_strcmp_defined: "0 \<in> set s1 \<Longrightarrow> 0 \<in> set s2 \<Longrightarrow> \<exists>r. ece391_strcmp s1 s2 = Some r"
  by (induction s1 s2 rule: ece391_strcmp.induct) auto

text \<open>Comparing as many characters as a string has tests whether it is a prefix.\<close>

lemma ece391_strncmp_prefix:
  assumes "0 \<in> set s1" "0 \<notin> set w"
  shows "\<exists>r. ece391_strncmp s1 (w @ t) (length w) = Some r \<and> (r = 0 \<longleftrightarrow> take (length w) (cstr s1) = w)"
  using assms
proof (induction w arbitrary: s1)
  case (Cons a w)
  then obtain b s where s1: "s1 = b # s" by (cases s1) auto
  show ?case
  proof (cases "a = b \<and> w \<noteq> []")
    case True
    then have "0 \<in> set s" "0 \<notin> set w" using Cons.prems s1 by auto
    from Cons.IH [OF this] show ?thesis using True Cons.prems s1 by (auto simp: cstr_simps)
  next
    case False
    then show ?thesis using Cons.prems s1 by (auto simp: cstr_simps uint_u8_inject)
  qed
qed simp

lemma lit_string: "0 \<notin> set (bytes t) \<Longrightarrow> 0 \<in> set (lit t) \<and> cstr (lit t) = bytes t"
  by (simp add: lit_def cstr_append_zero)

text \<open>Copying a string down inside its array.\<close>

lemma ece391_strcpy_down:
  assumes "d \<le> s" "s + length w < length m" "take (length w) (drop s m) = w" "0 \<notin> set w" "m ! (s + length w) = 0"
  shows "ece391_strcpy m d s = Some (take d m @ w @ 0 # drop (Suc (d + length w)) m)"
  using assms
proof (induction w arbitrary: m d s)
  case Nil
  then show ?case
    by (simp add: ece391_strcpy.simps [of m d s] rd_nat wr_nat upd_conv_take_nth_drop)
next
  case (Cons c w)
  have c: "m ! s = c" using Cons.prems(2,3) by (simp add: Cons_nth_drop_Suc [symmetric])
  let ?m = "m[d := c]"
  have tl: "take (length w) (drop (Suc s) m) = w" using Cons.prems(2,3) by (simp add: Cons_nth_drop_Suc [symmetric])
  have "ece391_strcpy ?m (Suc d) (Suc s) = Some (take (Suc d) ?m @ w @ 0 # drop (Suc (Suc d + length w)) ?m)"
    using Cons.prems tl by (intro Cons.IH) simp_all
  moreover have "ece391_strcpy m d s = ece391_strcpy ?m (Suc d) (Suc s)"
    using Cons.prems(1,2,4) c by (subst ece391_strcpy.simps) (simp add: rd_nat wr_nat)
  moreover have "take (Suc d) ?m = take d m @ [c]" using Cons.prems(1,2) by (intro take_Suc_update) simp
  ultimately show ?case by simp
qed

end
