(* ===== verification/Programs.thy ===== *)
theory Programs
  imports User_Lib
begin

text \<open>
  The user programs of \<open>src/syscalls\<close>: \<open>testprint\<close>, \<open>hello\<close>, \<open>cat\<close>,
  \<open>ls\<close>, \<open>counter\<close>, \<open>shell\<close>, \<open>grep\<close> and the system call tests
  \<open>syserr\<close>. Each is its \<open>main\<close> over the system calls: the value it returns and the state of the
  operating system then. An uninitialised local array is an argument. Loops that depend on what the
  system calls return are partial functions.
\<close>

definition BUFSIZE :: int where "BUFSIZE = 1024"
definition SBUFSIZE :: int where "SBUFSIZE = 33"

lemmas buf_sizes = BUFSIZE_def SBUFSIZE_def

subsection \<open>testprint, hello and cat\<close>

definition testprint_main :: "'s os \<Rightarrow> 's \<Rightarrow> (int \<times> 's) option" where
  "testprint_main OS s = do {
     s \<leftarrow> ece391_fdputs OS 1 (lit ''Hello, if this ran, the program was correct. Yay!\<newline>'') s;
     Some (0, s)
   }"

definition hello_main :: "'s os \<Rightarrow> u8 list \<Rightarrow> 's \<Rightarrow> (int \<times> 's) option" where
  "hello_main OS buf s = do {
     s \<leftarrow> ece391_fdputs OS 1 (lit ''Hi, what's your name? '') s;
     (cnt, bs, s) \<leftarrow> os_read OS 0 (BUFSIZE - 1) s;
     buf \<leftarrow> put_bytes buf 0 bs;
     if - 1 = cnt then do {
       s \<leftarrow> ece391_fdputs OS 1 (lit ''Can't read name from keyboard.\<newline>'') s;
       Some (3, s)
     }
     else do {
       buf \<leftarrow> wr buf cnt 0;
       s \<leftarrow> ece391_fdputs OS 1 (lit ''Hello, '') s;
       s \<leftarrow> ece391_fdputs OS 1 buf s;
       Some (0, s)
     }
   }"

partial_function (option) cat_loop :: "'s os \<Rightarrow> int \<Rightarrow> u8 list \<Rightarrow> 's \<Rightarrow> (int \<times> 's) option" where
  "cat_loop OS fd buf s = do {
     (cnt, bs, s) \<leftarrow> os_read OS fd 1024 s;
     buf \<leftarrow> put_bytes buf 0 bs;
     if 0 \<noteq> cnt then
       if - 1 = cnt then do {
         s \<leftarrow> ece391_fdputs OS 1 (lit ''file read failed\<newline>'') s;
         Some (3, s)
       }
       else do {
         (r, s) \<leftarrow> os_write OS 1 buf cnt s;
         if - 1 = r then Some (3, s) else cat_loop OS fd buf s
       }
     else Some (0, s)
   }"

definition cat_main :: "'s os \<Rightarrow> 's \<Rightarrow> (int \<times> 's) option" where
  "cat_main OS s = do {
     (r, buf, s) \<leftarrow> os_getargs OS 1024 s;
     if 0 \<noteq> r then do {
       s \<leftarrow> ece391_fdputs OS 1 (lit ''could not read arguments\<newline>'') s;
       Some (3, s)
     }
     else do {
       (fd, s) \<leftarrow> os_open OS buf s;
       if - 1 = fd then do {
         s \<leftarrow> ece391_fdputs OS 1 (lit ''file not found\<newline>'') s;
         Some (2, s)
       }
       else cat_loop OS fd buf s
     }
   }"

subsection \<open>ls\<close>

partial_function (option) ls_loop :: "'s os \<Rightarrow> int \<Rightarrow> u8 list \<Rightarrow> 's \<Rightarrow> (int \<times> 's) option" where
  "ls_loop OS fd buf s = do {
     (cnt, bs, s) \<leftarrow> os_read OS fd (SBUFSIZE - 1) s;
     buf \<leftarrow> put_bytes buf 0 bs;
     if 0 \<noteq> cnt then
       if - 1 = cnt then do {
         s \<leftarrow> ece391_fdputs OS 1 (lit ''directory entry read failed\<newline>'') s;
         Some (3, s)
       }
       else do {
         buf \<leftarrow> wr buf cnt 10;
         (r, s) \<leftarrow> os_write OS 1 buf (cnt + 1) s;
         if - 1 = r then Some (3, s) else ls_loop OS fd buf s
       }
     else Some (0, s)
   }"

definition ls_main :: "'s os \<Rightarrow> u8 list \<Rightarrow> 's \<Rightarrow> (int \<times> 's) option" where
  "ls_main OS buf s = do {
     (fd, s) \<leftarrow> os_open OS (lit ''.'') s;
     if - 1 = fd then do {
       s \<leftarrow> ece391_fdputs OS 1 (lit ''directory open failed\<newline>'') s;
       Some (2, s)
     }
     else ls_loop OS fd buf s
   }"

subsection \<open>counter\<close>

lemma counter_measure: "i < mx \<Longrightarrow> unat mx - unat (i + 1) < unat mx - unat (i :: u32)"
  using u32_bound [of mx] by (simp add: word_less_nat_alt unat_word_ariths)

function counter_loop :: "'s os \<Rightarrow> u32 \<Rightarrow> u32 \<Rightarrow> u8 list \<Rightarrow> 's \<Rightarrow> 's option" where
  "counter_loop OS i mx buf s =
     (if i < mx then do {
        buf \<leftarrow> ece391_itoa (i + 1) buf 10;
        s \<leftarrow> ece391_fdputs OS 1 buf s;
        s \<leftarrow> ece391_fdputs OS 1 (lit ''\<newline>'') s;
        counter_loop OS (i + 1) mx buf s
      }
      else Some s)"
  by pat_completeness auto
termination
  by (relation "measure (\<lambda>(OS, i, mx, buf, s). unat mx - unat i)") (auto dest: counter_measure)

declare counter_loop.simps [simp del]

definition counter_max :: "u8 \<Rightarrow> u32" where
  "counter_max c = (if c = 48 then 100 else if c = 49 then 10000 else if c = 50 then 100000 else 0)"

definition counter_main :: "'s os \<Rightarrow> u8 list \<Rightarrow> 's \<Rightarrow> (int \<times> 's) option" where
  "counter_main OS buf s = do {
     s \<leftarrow> ece391_fdputs OS 1 (lit ''Enter the Test Number: (0): 100, (1): 10000, (2): 100000\<newline>'') s;
     (cnt, bs, s) \<leftarrow> os_read OS 0 (BUFSIZE - 1) s;
     buf \<leftarrow> put_bytes buf 0 bs;
     if - 1 = cnt then do {
       s \<leftarrow> ece391_fdputs OS 1 (lit ''Can't read the number from keyboard.\<newline>'') s;
       Some (3, s)
     }
     else do {
       buf \<leftarrow> wr buf cnt 0;
       n \<leftarrow> ece391_strlen buf;
       c \<leftarrow> rd buf 0;
       if 2 < n \<or> n = 2 \<and> (c < 48 \<or> 50 < c) then do {
         s \<leftarrow> ece391_fdputs OS 1 (lit ''Wrong Choice!\<newline>'') s;
         Some (0, s)
       }
       else do {
         s \<leftarrow> counter_loop OS 0 (counter_max c) buf s;
         Some (0, s)
       }
     }
   }"

subsection \<open>shell\<close>

definition shell_report :: "'s os \<Rightarrow> int \<Rightarrow> 's \<Rightarrow> 's option" where
  "shell_report OS rval s =
     (if - 1 = rval then ece391_fdputs OS 1 (lit ''no such command\<newline>'') s
      else if 256 = rval then ece391_fdputs OS 1 (lit ''program terminated by exception\<newline>'') s
      else if 0 \<noteq> rval then ece391_fdputs OS 1 (lit ''program terminated abnormally\<newline>'') s
      else Some s)"

text \<open>
  One round of the endless loop: \<open>Inl\<close> is a return from \<open>main\<close>, \<open>Inr\<close> the buffer and the
  state at the start of the next round.
\<close>

definition shell_step :: "'s os \<Rightarrow> u8 list \<Rightarrow> 's \<Rightarrow> ((int \<times> 's) + (u8 list \<times> 's)) option" where
  "shell_step OS buf s = do {
     s \<leftarrow> ece391_fdputs OS 1 (lit ''391OS> '') s;
     (cnt, bs, s) \<leftarrow> os_read OS 0 (BUFSIZE - 1) s;
     buf \<leftarrow> put_bytes buf 0 bs;
     if - 1 = cnt then do {
       s \<leftarrow> ece391_fdputs OS 1 (lit ''read from keyboard failed\<newline>'') s;
       Some (Inl (3, s))
     }
     else do {
       cnt \<leftarrow> (if 0 < cnt then do { c \<leftarrow> rd buf (cnt - 1); Some (if 10 = c then cnt - 1 else cnt) } else Some cnt);
       buf \<leftarrow> wr buf cnt 0;
       r \<leftarrow> ece391_strcmp buf (lit ''exit'');
       if 0 = r then Some (Inl (0, s))
       else do {
         c \<leftarrow> rd buf 0;
         if 0 = c then Some (Inr (buf, s))
         else do {
           (rval, s) \<leftarrow> os_execute OS buf s;
           s \<leftarrow> shell_report OS rval s;
           Some (Inr (buf, s))
         }
       }
     }
   }"

partial_function (option) shell_loop :: "'s os \<Rightarrow> u8 list \<Rightarrow> 's \<Rightarrow> (int \<times> 's) option" where
  "shell_loop OS buf s = do {
     round \<leftarrow> shell_step OS buf s;
     case round of Inl result \<Rightarrow> Some result | Inr (buf, s) \<Rightarrow> shell_loop OS buf s
   }"

definition shell_main :: "'s os \<Rightarrow> u8 list \<Rightarrow> 's \<Rightarrow> (int \<times> 's) option" where
  "shell_main OS buf s = do {
     s \<leftarrow> ece391_fdputs OS 1 (lit ''Starting 391 Shell\<newline>'') s;
     shell_loop OS buf s
   }"

subsection \<open>grep\<close>

function scan_line :: "u8 list \<Rightarrow> int \<Rightarrow> int \<Rightarrow> int option" where
  "scan_line data lst line_end =
     (if line_end < lst then do {
        c \<leftarrow> rd data line_end;
        if 10 \<noteq> c then scan_line data lst (line_end + 1) else Some line_end
      }
      else Some line_end)"
  by pat_completeness auto
termination
  by (relation "measure (\<lambda>(data, lst, line_end). nat (lst - line_end))") auto

declare scan_line.simps [simp del]

text \<open>
  The search in one line. The pattern is a \<open>char*\<close>, signed, the data are unsigned bytes: the first
  characters are compared after the promotion to \<open>int\<close>.
\<close>

function search_line ::
  "'s os \<Rightarrow> u8 list \<Rightarrow> nat \<Rightarrow> u8 list \<Rightarrow> u8 list \<Rightarrow> int \<Rightarrow> int \<Rightarrow> int \<Rightarrow> 's \<Rightarrow> 's option" where
  "search_line OS pat s_len fname data line_start line_end check s =
     (if check < line_end then do {
        p \<leftarrow> rd pat 0;
        c \<leftarrow> rd data check;
        hit \<leftarrow> (if sint p = uint c
                then do { r \<leftarrow> ece391_strncmp (drop (nat check) data) pat s_len; Some (0 = r) }
                else Some False);
        if hit then do {
          s \<leftarrow> ece391_fdputs OS 1 fname s;
          s \<leftarrow> ece391_fdputs OS 1 (lit '':'') s;
          s \<leftarrow> ece391_fdputs OS 1 (drop (nat line_start) data) s;
          ece391_fdputs OS 1 (lit ''\<newline>'') s
        }
        else search_line OS pat s_len fname data line_start line_end (check + 1) s
      }
      else Some s)"
  by pat_completeness auto
termination
  by (relation "measure (\<lambda>(OS, pat, s_len, fname, data, line_start, line_end, check, s). nat (line_end - check))") auto

declare search_line.simps [simp del]

lemma scan_line_ge: "scan_line data lst i = Some e \<Longrightarrow> i \<le> e"
proof (induction data lst i rule: scan_line.induct)
  case (1 data lst i)
  show ?case using "1.IH" "1.prems" by (subst (asm) (2) scan_line.simps) (force split: if_splits bind_splits)
qed

text \<open>
  The loop over the lines of the buffer: the buffer, the number of bytes kept for the next read, and
  the state.
\<close>

function grep_lines ::
  "'s os \<Rightarrow> u8 list \<Rightarrow> nat \<Rightarrow> u8 list \<Rightarrow> int \<Rightarrow> u8 list \<Rightarrow> int \<Rightarrow> int \<Rightarrow> 's \<Rightarrow> (u8 list \<times> int \<times> 's) option" where
  "grep_lines OS pat s_len fname cnt data lst line_start s =
     (case scan_line data lst line_start of
        None \<Rightarrow> None
      | Some line_end \<Rightarrow> do {
          c \<leftarrow> rd data line_end;
          if 10 \<noteq> c \<and> 0 \<noteq> cnt \<and> line_start \<noteq> 0 then do {
            data \<leftarrow> wr data line_end 0;
            data \<leftarrow> ece391_strcpy data 0 (nat line_start);
            Some (data, lst - line_start, s)
          }
          else do {
            data \<leftarrow> wr data line_end 0;
            s \<leftarrow> search_line OS pat s_len fname data line_start line_end line_start s;
            if lst \<le> line_end + 1 then Some (data, 0, s)
            else grep_lines OS pat s_len fname cnt data lst (line_end + 1) s
          }
        })"
  by pat_completeness auto
termination
  by (relation "measure (\<lambda>(OS, pat, s_len, fname, cnt, data, lst, line_start, s). nat (lst - line_start))")
    (auto dest!: scan_line_ge)

declare grep_lines.simps [simp del]

text \<open>The loop over the reads; the result says whether a read failed.\<close>

partial_function (option) grep_reads ::
  "'s os \<Rightarrow> u8 list \<Rightarrow> nat \<Rightarrow> u8 list \<Rightarrow> int \<Rightarrow> u8 list \<Rightarrow> int \<Rightarrow> 's \<Rightarrow> (bool \<times> 's) option" where
  "grep_reads OS pat s_len fname fd data lst s = do {
     (cnt, bs, s) \<leftarrow> os_read OS fd (BUFSIZE - lst) s;
     data \<leftarrow> put_bytes data (nat lst) bs;
     if - 1 = cnt then do {
       s \<leftarrow> ece391_fdputs OS 1 (lit ''file read failed\<newline>'') s;
       Some (True, s)
     }
     else do {
       (data, lst, s) \<leftarrow> grep_lines OS pat s_len fname cnt data (lst + cnt) 0 s;
       if 0 = cnt then Some (False, s) else grep_reads OS pat s_len fname fd data lst s
     }
   }"

definition do_one_file :: "'s os \<Rightarrow> u8 list \<Rightarrow> u8 list \<Rightarrow> u8 list \<Rightarrow> 's \<Rightarrow> (int \<times> 's) option" where
  "do_one_file OS data pat fname s = do {
     s_len \<leftarrow> ece391_strlen pat;
     (fd, s) \<leftarrow> os_open OS fname s;
     if - 1 = fd then do {
       s \<leftarrow> ece391_fdputs OS 1 (lit ''file open failed\<newline>'') s;
       Some (- 1, s)
     }
     else do {
       (failed, s) \<leftarrow> grep_reads OS pat s_len fname fd data 0 s;
       if failed then Some (- 1, s)
       else do {
         (r, s) \<leftarrow> os_close OS fd s;
         if - 1 = r then do {
           s \<leftarrow> ece391_fdputs OS 1 (lit ''file close failed\<newline>'') s;
           Some (- 1, s)
         }
         else Some (0, s)
       }
     }
   }"

text \<open>The array in the \<open>i\<close>-th call of \<open>do_one_file\<close> holds \<open>datas i\<close> at first.\<close>

partial_function (option) grep_loop ::
  "'s os \<Rightarrow> (nat \<Rightarrow> u8 list) \<Rightarrow> nat \<Rightarrow> u8 list \<Rightarrow> int \<Rightarrow> u8 list \<Rightarrow> 's \<Rightarrow> (int \<times> 's) option" where
  "grep_loop OS datas i search fd buf s = do {
     (cnt, bs, s) \<leftarrow> os_read OS fd (SBUFSIZE - 1) s;
     buf \<leftarrow> put_bytes buf 0 bs;
     if 0 \<noteq> cnt then
       if - 1 = cnt then do {
         s \<leftarrow> ece391_fdputs OS 1 (lit ''directory entry read failed\<newline>'') s;
         Some (3, s)
       }
       else do {
         c \<leftarrow> rd buf 0;
         if 46 = c then grep_loop OS datas i search fd buf s
         else do {
           buf \<leftarrow> wr buf cnt 0;
           (r, s) \<leftarrow> do_one_file OS (datas i) search buf s;
           if 0 \<noteq> r then Some (3, s) else grep_loop OS datas (Suc i) search fd buf s
         }
       }
     else Some (0, s)
   }"

definition grep_main :: "'s os \<Rightarrow> (nat \<Rightarrow> u8 list) \<Rightarrow> u8 list \<Rightarrow> 's \<Rightarrow> (int \<times> 's) option" where
  "grep_main OS datas buf s = do {
     (r, search, s) \<leftarrow> os_getargs OS BUFSIZE s;
     if 0 \<noteq> r then do {
       s \<leftarrow> ece391_fdputs OS 1 (lit ''could not read argument\<newline>'') s;
       Some (3, s)
     }
     else do {
       (fd, s) \<leftarrow> os_open OS (lit ''.'') s;
       if - 1 = fd then do {
         s \<leftarrow> ece391_fdputs OS 1 (lit ''directory open failed\<newline>'') s;
         Some (2, s)
       }
       else grep_loop OS datas 0 search fd buf s
     }
   }"

subsection \<open>syserr\<close>

definition NEG_FD :: int where "NEG_FD = - 1073741823"
definition BIG_FD :: int where "BIG_FD = 1073741823"

lemmas fd_numbers = NEG_FD_def BIG_FD_def

text \<open>
  One check of a test: the call should have returned -1; otherwise the failure value becomes 2 and the
  message is printed. Then the verdict of the test.
\<close>

definition expect_error :: "'s os \<Rightarrow> string \<Rightarrow> int \<Rightarrow> (int \<times> 's) option \<Rightarrow> (int \<times> 's) option" where
  "expect_error OS msg fail call = do {
     (r, s) \<leftarrow> call;
     if - 1 \<noteq> r then do { s \<leftarrow> ece391_fdputs OS 1 (lit msg) s; Some (2, s) } else Some (fail, s)
   }"

definition verdict :: "'s os \<Rightarrow> string \<Rightarrow> int \<Rightarrow> 's \<Rightarrow> (int \<times> 's) option" where
  "verdict OS test_name fail s =
     (if fail \<noteq> 0 then do { s \<leftarrow> ece391_fdputs OS 1 (lit (test_name @ '': FAIL\<newline>'')) s; Some (fail, s) }
      else do { s \<leftarrow> ece391_fdputs OS 1 (lit (test_name @ '': PASS\<newline>'')) s; Some (fail, s) })"

text \<open>A read whose bytes the test does not look at, into an array of 32 bytes.\<close>

definition read_32 :: "'s os \<Rightarrow> int \<Rightarrow> 's \<Rightarrow> (int \<times> 's) option" where
  "read_32 OS fd s = do { (r, bs, s) \<leftarrow> os_read OS fd 31 s; if length bs \<le> 32 then Some (r, s) else None }"

definition err_fd :: "'s os \<Rightarrow> u8 list \<Rightarrow> int \<Rightarrow> string \<Rightarrow> 's \<Rightarrow> (int \<times> 's) option" where
  "err_fd OS buf fd test_name s = do {
     (fail, s) \<leftarrow> expect_error OS ''read fail\<newline>'' 0 (read_32 OS fd s);
     (fail, s) \<leftarrow> expect_error OS ''write fail\<newline>'' fail (os_write OS fd buf 31 s);
     (fail, s) \<leftarrow> expect_error OS ''close fail\<newline>'' fail (os_close OS fd s);
     verdict OS test_name fail s
   }"

definition err_neg_fd :: "'s os \<Rightarrow> u8 list \<Rightarrow> 's \<Rightarrow> (int \<times> 's) option" where
  "err_neg_fd OS buf s = err_fd OS buf NEG_FD ''err_neg_fd'' s"

definition err_big_fd :: "'s os \<Rightarrow> u8 list \<Rightarrow> 's \<Rightarrow> (int \<times> 's) option" where
  "err_big_fd OS buf s = err_fd OS buf BIG_FD ''err_big_fd'' s"

fun open_lots :: "'s os \<Rightarrow> nat \<Rightarrow> nat \<Rightarrow> 's \<Rightarrow> (nat \<times> 's) option" where
  "open_lots OS 0 cnt s = Some (cnt, s)"
| "open_lots OS (Suc i) cnt s = do {
     (r, s) \<leftarrow> os_open OS (lit ''.'') s;
     open_lots OS i (if - 1 = r then Suc cnt else cnt) s
   }"

fun close_fds :: "'s os \<Rightarrow> int list \<Rightarrow> 's \<Rightarrow> 's option" where
  "close_fds OS [] s = Some s"
| "close_fds OS (i # is) s = do { (_, s) \<leftarrow> os_close OS i s; close_fds OS is s }"

definition err_open_lots :: "'s os \<Rightarrow> 's \<Rightarrow> (int \<times> 's) option" where
  "err_open_lots OS s = do {
     (cnt, s) \<leftarrow> open_lots OS 7 0 s;
     s \<leftarrow> close_fds OS [2, 3, 4, 5, 6, 7] s;
     if cnt = 1 then do { s \<leftarrow> ece391_fdputs OS 1 (lit ''err_open_lots: PASS\<newline>'') s; Some (0, s) }
     else do { s \<leftarrow> ece391_fdputs OS 1 (lit ''err_open_lots: FAIL\<newline>'') s; Some (2, s) }
   }"

definition err_open :: "'s os \<Rightarrow> 's \<Rightarrow> (int \<times> 's) option" where
  "err_open OS s = do {
     (fail, s) \<leftarrow> expect_error OS ([CHR 0x27] @ ''helloo'' @ [CHR 0x27] @ '' fail\<newline>'') 0 (os_open OS (lit ''helloo'') s);
     (fail, s) \<leftarrow> expect_error OS ([CHR 0x27] @ ''shel'' @ [CHR 0x27] @ '' fail\<newline>'') fail (os_open OS (lit ''shel'') s);
     (fail, s) \<leftarrow> expect_error OS ''empty string fail\<newline>'' fail (os_open OS (lit []) s);
     verdict OS ''err_open'' fail s
   }"

fun expect_errors :: "'s os \<Rightarrow> string \<Rightarrow> (int \<Rightarrow> 's \<Rightarrow> (int \<times> 's) option) \<Rightarrow> int list \<Rightarrow> int \<Rightarrow> 's \<Rightarrow> (int \<times> 's) option" where
  "expect_errors OS msg call [] fail s = Some (fail, s)"
| "expect_errors OS msg call (i # is) fail s = do {
     (fail, s) \<leftarrow> expect_error OS msg fail (call i s);
     expect_errors OS msg call is fail s
   }"

definition err_unopened :: "'s os \<Rightarrow> u8 list \<Rightarrow> 's \<Rightarrow> (int \<times> 's) option" where
  "err_unopened OS buf s = do {
     (fail, s) \<leftarrow> expect_errors OS ''close unopened or invalid fd fail\<newline>'' (os_close OS) [0, 1, 2, 3, 4, 5, 6, 7] 0 s;
     (fail, s) \<leftarrow> expect_errors OS ''read from unopened fd fail\<newline>'' (read_32 OS) [2, 3, 4, 5, 6, 7] fail s;
     (fail, s) \<leftarrow> expect_errors OS ''write to unopened fd fail\<newline>'' (\<lambda>i. os_write OS i buf 31) [2, 3, 4, 5, 6, 7] fail s;
     verdict OS ''err_unopened'' fail s
   }"

definition err_vidmap :: "'s os \<Rightarrow> 's \<Rightarrow> (int \<times> 's) option" where
  "err_vidmap OS s = do {
     (fail, s) \<leftarrow> expect_error OS ''Null pointer fail\<newline>'' 0 (os_vidmap OS 0x0 s);
     (fail, s) \<leftarrow> expect_error OS ''Kernel pointer fail fail\<newline>'' fail (os_vidmap OS 0x400000 s);
     verdict OS ''err_vidmap'' fail s
   }"

definition err_stdin_out :: "'s os \<Rightarrow> u8 list \<Rightarrow> 's \<Rightarrow> (int \<times> 's) option" where
  "err_stdin_out OS buf s = do {
     (fail, s) \<leftarrow> expect_error OS ''write to stdin fail\<newline>'' 0 (os_write OS 0 buf 31 s);
     (fail, s) \<leftarrow> expect_error OS ''read from stdout fail\<newline>'' fail (read_32 OS 1 s);
     verdict OS ''err_stdin_out'' fail s
   }"

definition err_syscall_num :: "'s os \<Rightarrow> 's \<Rightarrow> (int \<times> 's) option" where
  "err_syscall_num OS s = do {
     (fail, s) \<leftarrow> expect_error OS ''syscall 0 fail\<newline>'' 0 (os_call OS 1073741823 s);
     (fail, s) \<leftarrow> expect_error OS ''big num syscall fail\<newline>'' fail (os_call OS (- 1073741823) s);
     (fail, s) \<leftarrow> expect_error OS ''neg num syscall fail\<newline>'' fail (os_call OS 0 s);
     verdict OS ''err_syscall_num'' fail s
   }"

text \<open>The arrays of the tests hold \<open>b\<close> at first.\<close>

definition syserr_all :: "'s os \<Rightarrow> u8 list \<Rightarrow> 's \<Rightarrow> (int \<times> 's) option" where
  "syserr_all OS b s = do {
     (f1, s) \<leftarrow> err_neg_fd OS b s;
     (f2, s) \<leftarrow> err_big_fd OS b s;
     (f3, s) \<leftarrow> err_open_lots OS s;
     (f4, s) \<leftarrow> err_open OS s;
     (f5, s) \<leftarrow> err_unopened OS b s;
     (f6, s) \<leftarrow> err_vidmap OS s;
     (f7, s) \<leftarrow> err_stdin_out OS b s;
     (f8, s) \<leftarrow> err_syscall_num OS s;
     let fail = f1 + f2 + f3 + f4 + f5 + f6 + f7 + f8;
     s \<leftarrow> (if fail \<noteq> 0 then ece391_fdputs OS 1 (lit ''\<newline>Overall Tests: FAIL\<newline>'') s
           else ece391_fdputs OS 1 (lit ''\<newline>Overall Tests: PASS\<newline>'') s);
     Some (fail, s)
   }"

definition syserr_main :: "'s os \<Rightarrow> u8 list \<Rightarrow> u8 list \<Rightarrow> 's \<Rightarrow> (int \<times> 's) option" where
  "syserr_main OS buf b s = do {
     s \<leftarrow> ece391_fdputs OS 1 (lit ''Choose from tests 1-8. 0 to run all: '') s;
     (cnt, bs, s) \<leftarrow> os_read OS 0 127 s;
     buf \<leftarrow> put_bytes buf 0 bs;
     if - 1 = cnt then do {
       s \<leftarrow> ece391_fdputs OS 1 (lit ''Can't read test #\<newline>'') s;
       Some (2, s)
     }
     else do {
       c \<leftarrow> rd buf 0;
       let select = uint c - 48;
       if select = 0 then syserr_all OS b s
       else if select = 1 then err_neg_fd OS b s
       else if select = 2 then err_big_fd OS b s
       else if select = 3 then err_open_lots OS s
       else if select = 4 then err_open OS s
       else if select = 5 then err_unopened OS b s
       else if select = 6 then err_vidmap OS s
       else if select = 7 then err_stdin_out OS b s
       else if select = 8 then err_syscall_num OS s
       else do {
         s \<leftarrow> ece391_fdputs OS 1 (lit ''Invalid test number. Choose from tests 1-8 or 0'') s;
         Some (0, s)
       }
     }
   }"

end
