(* ===== verification/User_OS.thy ===== *)
theory User_OS
  imports Programs
begin

text \<open>
  What the programs rely on, as locales over the record of system calls, and what they do on every
  system that keeps these laws: \<open>os_output\<close> for writing to the terminal, \<open>os_input\<close> for
  reading the keyboard, \<open>os_files\<close> for reading files, \<open>os_entries\<close> for reading a directory (with whole
  writes in \<open>os_directory\<close>, with writes that may be short in \<open>os_listing\<close>), \<open>os_clock\<close> for waiting on the clock. \<open>ok\<close> is the invariant of the system, \<open>shown\<close> what the terminal shows, \<open>table\<close> what the descriptors stand for.
\<close>

subsection \<open>Lines of text\<close>

fun split_lines :: "u8 list \<Rightarrow> u8 list list" where
  "split_lines [] = [[]]"
| "split_lines (c # xs) = (if c = 10 then [] # split_lines xs else (c # hd (split_lines xs)) # tl (split_lines xs))"

lemma split_lines_nonempty: "split_lines xs \<noteq> []"
  by (cases xs) auto

lemma split_lines_line: "10 \<notin> set l \<Longrightarrow> split_lines (l @ 10 # xs) = l # split_lines xs"
  by (induction l) auto

lemma split_lines_single: "10 \<notin> set l \<Longrightarrow> split_lines l = [l]"
  by (induction l) auto

lemma line_cases:
  obtains "10 \<notin> set (w :: u8 list)" | l w' where "w = l @ 10 # w'" "10 \<notin> set l"
  by (metis split_list_first)

subsection \<open>Output\<close>

text \<open>The numbers after \<open>i\<close> up to \<open>n\<close> in decimal, one to a line.\<close>

definition count_text :: "nat \<Rightarrow> nat \<Rightarrow> u8 list" where
  "count_text i n = concat (map (\<lambda>k. num_text 10 (of_nat k) @ [10]) [Suc i..<Suc n])"

lemma count_text_end: "count_text n n = []"
  by (simp add: count_text_def)

lemma count_text_step:
  "i < n \<Longrightarrow> count_text i n = num_text 10 (of_nat (Suc i)) @ [10] @ count_text (Suc i) n"
  by (simp add: count_text_def upt_conv_Cons [of "Suc i" "Suc n"] del: upt_Suc)

definition report_text :: "int \<Rightarrow> u8 list" where
  "report_text rval =
     (if rval = - 1 then bytes ''no such command\<newline>''
      else if rval = 256 then bytes ''program terminated by exception\<newline>''
      else if rval = 0 then [] else bytes ''program terminated abnormally\<newline>'')"

locale os_output =
  fixes OS :: "'s os" and ok :: "'s \<Rightarrow> bool" and shown :: "'s \<Rightarrow> 'v" and put :: "u8 \<Rightarrow> 'v \<Rightarrow> 'v"
    and table :: "'s \<Rightarrow> 't"
  assumes write_out: "ok s \<Longrightarrow> n \<le> length bs \<Longrightarrow>
      \<exists>s'. os_write OS 1 bs (int n) s = Some (int n, s') \<and> ok s' \<and>
        shown s' = fold put (take n bs) (shown s) \<and> table s' = table s"
begin

text \<open>The state after some text was printed and nothing else happened.\<close>

definition printed :: "u8 list \<Rightarrow> 's \<Rightarrow> 's \<Rightarrow> bool" where
  "printed w s s' \<longleftrightarrow> ok s' \<and> shown s' = fold put w (shown s) \<and> table s' = table s"

lemma printed_refl: "ok s \<Longrightarrow> printed [] s s"
  by (simp add: printed_def)

lemma printed_trans: "printed v s t \<Longrightarrow> printed w t u \<Longrightarrow> printed (v @ w) s u"
  by (simp add: printed_def)

lemma printed_ok: "printed w s t \<Longrightarrow> ok t"
  by (simp add: printed_def)

lemma write_printed:
  assumes "ok s" "n \<le> length bs"
  obtains t where "os_write OS 1 bs (int n) s = Some (int n, t)" "printed (take n bs) s t"
  using write_out [OF assms] by (auto simp: printed_def)

lemma fdputs_printed:
  assumes "ok s" "0 \<in> set str"
  obtains t where "ece391_fdputs OS 1 str s = Some t" "printed (cstr str) s t"
proof -
  have "length (cstr str) \<le> length str" using cstr_less_length [OF assms(2)] by simp
  from write_printed [OF assms(1) this] obtain t
    where "os_write OS 1 str (int (length (cstr str))) s = Some (int (length (cstr str)), t)"
      "printed (take (length (cstr str)) str) s t" .
  moreover have "take (length (cstr str)) str = cstr str"
    using cstr_decomp [OF assms(2)] append_eq_conv_conj [of "cstr str"] by metis
  ultimately show ?thesis using that assms(2) by (simp add: ece391_fdputs_def ece391_strlen_cstr)
qed

lemma fdputs_lit:
  assumes "ok s" "0 \<notin> set (bytes w)"
  obtains t where "ece391_fdputs OS 1 (lit w) s = Some t" "printed (bytes w) s t"
  using fdputs_printed [OF assms(1), of "lit w"] lit_string [OF assms(2)] by auto

text \<open>What the shell says about the value a program returned.\<close>

lemma shell_report_prints:
  assumes "ok s"
  obtains t where "shell_report OS rval s = Some t" "printed (report_text rval) s t"
proof -
  have nz: "0 \<notin> set (bytes ''no such command\<newline>'')" "0 \<notin> set (bytes ''program terminated by exception\<newline>'')"
      "0 \<notin> set (bytes ''program terminated abnormally\<newline>'')"
    by (simp_all add: bytes_def of_char_def)
  consider (none) "rval = - 1" | (exc) "rval = 256" | (fine) "rval = 0" | (other) "rval \<noteq> - 1" "rval \<noteq> 256" "rval \<noteq> 0"
    by blast
  then show ?thesis
  proof cases
    case none
    with fdputs_lit [OF assms nz(1)] that show ?thesis by (auto simp: shell_report_def report_text_def)
  next
    case exc
    with fdputs_lit [OF assms nz(2)] that show ?thesis by (auto simp: shell_report_def report_text_def)
  next
    case fine
    with that [of s] printed_refl [OF assms] show ?thesis by (simp add: shell_report_def report_text_def)
  next
    case other
    with fdputs_lit [OF assms nz(3)] that show ?thesis by (auto simp: shell_report_def report_text_def)
  qed
qed

text \<open>\<open>counter\<close> prints the numbers in order, one to a line.\<close>

lemma counter_prints:
  assumes "ok s" "33 \<le> length buf" "i \<le> mx"
  shows "\<exists>t. counter_loop OS i mx buf s = Some t \<and>
    printed (count_text (unat i) (unat mx)) s t"
  using assms
proof (induction "unat mx - unat i" arbitrary: i buf s)
  case 0
  then have "i = mx" by (simp add: word_le_nat_alt word_unat_eq_iff)
  then show ?case using 0 by (simp add: counter_loop.simps printed_refl count_text_end)
next
  case (Suc n)
  have lt: "i < mx" using Suc.hyps(2) by (simp add: word_less_nat_alt)
  have u: "unat (i + 1) = Suc (unat i)" using lt u32_bound [of mx] by (simp add: word_less_nat_alt unat_word_ariths)
  obtain b where b: "ece391_itoa (i + 1) buf 10 = Some (num_text 10 (i + 1) @ 0 # b)"
      and len: "length (num_text 10 (i + 1) @ 0 # b) = length buf"
    using ece391_itoa_num_text [of 10 buf "i + 1"] Suc.prems(2) by auto
  obtain t1 where t1: "ece391_fdputs OS 1 (num_text 10 (i + 1) @ 0 # b) s = Some t1"
      "printed (num_text 10 (i + 1)) s t1"
    using fdputs_printed [OF Suc.prems(1), of "num_text 10 (i + 1) @ 0 # b"] num_text_nonzero [of 10 "i + 1"]
    by (auto simp: cstr_append_zero)
  obtain t2 where t2: "ece391_fdputs OS 1 (lit ''\<newline>'') t1 = Some t2" "printed [10] t1 t2"
    using fdputs_lit [OF printed_ok [OF t1(2)], of "''\<newline>''"] by (auto simp: bytes_def of_char_def)
  obtain t where t: "counter_loop OS (i + 1) mx (num_text 10 (i + 1) @ 0 # b) t2 = Some t"
      "printed (count_text (Suc (unat i)) (unat mx)) t2 t"
    using Suc.hyps(1) [of "i + 1" t2 "num_text 10 (i + 1) @ 0 # b", unfolded u] Suc.hyps(2) Suc.prems(2) len
      printed_ok [OF t2(2)] u lt by (force simp: word_le_nat_alt word_less_nat_alt)
  have "counter_loop OS i mx buf s = Some t"
    using lt b t1(1) t2(1) t(1) by (subst counter_loop.simps) simp
  moreover have "count_text (unat i) (unat mx) = num_text 10 (of_nat (Suc (unat i))) @ [10] @ count_text (Suc (unat i)) (unat mx)"
    using lt by (intro count_text_step) (simp add: word_less_nat_alt)
  moreover have "of_nat (Suc (unat i)) = i + 1" by simp
  ultimately show ?case
    using printed_trans [OF printed_trans [OF t1(2) t2(2)] t(2)] by (simp add: add.commute [of 1 i])
qed

end

subsection \<open>Input\<close>

text \<open>\<open>line\<close> is the line that waits at the keyboard, without its newline.\<close>

locale os_input = os_output OS ok shown put table
  for OS :: "'s os" and ok :: "'s \<Rightarrow> bool" and shown :: "'s \<Rightarrow> 'v" and put :: "u8 \<Rightarrow> 'v \<Rightarrow> 'v"
    and table :: "'s \<Rightarrow> 't" +
  fixes line :: "'t \<Rightarrow> u8 list option"
  assumes read_line: "ok s \<Longrightarrow> line (table s) = Some l \<Longrightarrow> length l \<le> n \<Longrightarrow>
      \<exists>s'. os_read OS 0 (int n) s = Some (int (length l), l, s') \<and> ok s' \<and> shown s' = shown s"
begin

text \<open>A prompt is printed and a line is read into an array that is then closed with a NUL.\<close>

lemma prompt_and_read:
  assumes "ok s" "line (table s) = Some l" "length l \<le> 1023" "length buf = 1024" "0 \<notin> set (bytes w)"
  obtains s1 s2 where "ece391_fdputs OS 1 (lit w) s = Some s1"
    "os_read OS 0 (BUFSIZE - 1) s1 = Some (int (length l), l, s2)" "ok s2"
    "shown s2 = fold put (bytes w) (shown s)" "put_bytes buf 0 l = Some (l @ drop (length l) buf)"
    "wr (l @ drop (length l) buf) (int (length l)) 0 = Some (l @ 0 # drop (Suc (length l)) buf)"
proof -
  obtain s1 where s1: "ece391_fdputs OS 1 (lit w) s = Some s1" "printed (bytes w) s s1"
    by (rule fdputs_lit [OF assms(1,5)])
  have "line (table s1) = Some l" using s1(2) assms(2) by (simp add: printed_def)
  then obtain s2 where "os_read OS 0 (int 1023) s1 = Some (int (length l), l, s2)" "ok s2" "shown s2 = shown s1"
    using read_line [OF printed_ok [OF s1(2)] _ assms(3)] by blast
  moreover have "drop (length l) buf = buf ! length l # drop (Suc (length l)) buf"
    using assms(3,4) by (simp add: Cons_nth_drop_Suc)
  ultimately show ?thesis
    using that [of s1 s2] s1 assms(3,4) by (simp add: printed_def put_bytes_def BUFSIZE_def wr_nat list_update_append)
qed

text \<open>\<open>hello\<close> greets the name that was typed.\<close>

lemma hello_prints:
  assumes "ok s" "line (table s) = Some l" "length l \<le> 1023" "length buf = 1024" "0 \<notin> set l"
  shows "\<exists>t. hello_main OS buf s = Some (0, t) \<and> ok t \<and>
    shown t = fold put (bytes ''Hi, what's your name? '' @ bytes ''Hello, '' @ l) (shown s)"
proof -
  have "0 \<notin> set (bytes ''Hi, what's your name? '')" "0 \<notin> set (bytes ''Hello, '')" by (simp_all add: bytes_def of_char_def)
  note nz = this
  obtain s1 s2 where s2: "ece391_fdputs OS 1 (lit ''Hi, what's your name? '') s = Some s1"
      "os_read OS 0 (BUFSIZE - 1) s1 = Some (int (length l), l, s2)" "ok s2"
      "shown s2 = fold put (bytes ''Hi, what's your name? '') (shown s)" "put_bytes buf 0 l = Some (l @ drop (length l) buf)"
      "wr (l @ drop (length l) buf) (int (length l)) 0 = Some (l @ 0 # drop (Suc (length l)) buf)"
    by (rule prompt_and_read [OF assms(1-4) nz(1)])
  let ?b = "l @ 0 # drop (Suc (length l)) buf"
  obtain s3 where s3: "ece391_fdputs OS 1 (lit ''Hello, '') s2 = Some s3" "printed (bytes ''Hello, '') s2 s3"
    by (rule fdputs_lit [OF s2(3) nz(2)])
  have "0 \<in> set ?b" by simp
  then obtain t where t: "ece391_fdputs OS 1 ?b s3 = Some t" "printed (cstr ?b) s3 t"
    by (rule fdputs_printed [OF printed_ok [OF s3(2)]])
  have "hello_main OS buf s = Some (0, t)" using s2(1,2,5,6) s3(1) t(1) by (simp add: hello_main_def)
  then show ?thesis using s2(4) s3(2) t(2) assms(5) by (simp add: printed_def cstr_append_zero)
qed

text \<open>
  A round of the shell up to the call of \<open>execute\<close>: the prompt is printed, the line read and closed
  with a NUL.
\<close>

lemma shell_reads:
  assumes "ok s" "line (table s) = Some l" "length l \<le> 1023" "length buf = 1024" "0 \<notin> set l" "10 \<notin> set l"
  obtains t buf' where "cstr buf' = l" "0 \<in> set buf'" "length buf' = 1024"
    "ok t" "shown t = fold put (bytes ''391OS> '') (shown s)"
    "shell_step OS buf s =
       (if l = bytes ''exit'' then Some (Inl (0, t))
        else if l = [] then Some (Inr (buf', t))
        else do { (rval, t) \<leftarrow> os_execute OS buf' t; t \<leftarrow> shell_report OS rval t; Some (Inr (buf', t)) })"
proof -
  have nz: "0 \<notin> set (bytes ''391OS> '')" "0 \<notin> set (bytes ''exit'')" by (simp_all add: bytes_def of_char_def)
  obtain s1 s2 where s2: "ece391_fdputs OS 1 (lit ''391OS> '') s = Some s1"
      "os_read OS 0 (BUFSIZE - 1) s1 = Some (int (length l), l, s2)" "ok s2"
      "shown s2 = fold put (bytes ''391OS> '') (shown s)" "put_bytes buf 0 l = Some (l @ drop (length l) buf)"
      "wr (l @ drop (length l) buf) (int (length l)) 0 = Some (l @ 0 # drop (Suc (length l)) buf)"
    by (rule prompt_and_read [OF assms(1-4) nz(1)])
  let ?b = "l @ 0 # drop (Suc (length l)) buf"
  have cs: "cstr ?b = l" using assms(5) by (simp add: cstr_append_zero)
  have cnt: "(if 0 < int (length l) then do { c \<leftarrow> rd (l @ drop (length l) buf) (int (length l) - 1);
        Some (if 10 = c then int (length l) - 1 else int (length l)) } else Some (int (length l))) = Some (int (length l))"
  proof (cases "l = []")
    case False
    then have "(l @ drop (length l) buf) ! (length l - 1) = last l" by (simp add: nth_append last_conv_nth)
    moreover have "last l \<noteq> 10" using False assms(6) last_in_set by metis
    moreover have "nat (int (length l) - 1) = length l - 1" by simp
    ultimately show ?thesis using False by (simp only: rd_def) simp
  qed simp
  have z: "0 \<in> set ?b" "0 \<in> set (lit ''exit'')" by (simp_all add: lit_def)
  obtain r where r: "ece391_strcmp ?b (lit ''exit'') = Some r" using ece391_strcmp_defined [OF z] by blast
  then have r0: "r = 0 \<longleftrightarrow> l = bytes ''exit''"
    using ece391_strcmp_zero [OF z] cs lit_string [OF nz(2)] by simp
  have hd0: "rd ?b 0 = Some (hd ?b)" by (cases l) (simp_all add: rd_def)
  have hd1: "hd ?b = 0 \<longleftrightarrow> l = []" using assms(5) by (cases l) auto
  have "shell_step OS buf s =
      (if l = bytes ''exit'' then Some (Inl (0, s2)) else if l = [] then Some (Inr (?b, s2))
       else do { (rval, t) \<leftarrow> os_execute OS ?b s2; t \<leftarrow> shell_report OS rval t; Some (Inr (?b, t)) })"
    using s2(1,2,5,6) cnt r r0 hd0 hd1 by (simp add: shell_step_def eq_commute [of 0] cong: if_cong)
  then show ?thesis using that [of ?b s2] cs z(1) s2(3,4) assms(3,4) by simp
qed

text \<open>\<open>counter\<close> with one of its three choices.\<close>

lemma counter_main_prints:
  assumes "ok s" "line (table s) = Some [c]" "c \<in> {48, 49, 50}" "length buf = 1024"
  shows "\<exists>t. counter_main OS buf s = Some (0, t) \<and> ok t \<and>
    shown t = fold put (bytes ''Enter the Test Number: (0): 100, (1): 10000, (2): 100000\<newline>'' @
      count_text 0 (unat (counter_max c))) (shown s)"
proof -
  let ?w = "''Enter the Test Number: (0): 100, (1): 10000, (2): 100000\<newline>''"
  have nz: "0 \<notin> set (bytes ?w)" by (simp add: bytes_def of_char_def)
  have l: "length [c] \<le> 1023" by simp
  obtain s1 s2 where s2: "ece391_fdputs OS 1 (lit ?w) s = Some s1"
      "os_read OS 0 (BUFSIZE - 1) s1 = Some (int (length [c]), [c], s2)" "ok s2"
      "shown s2 = fold put (bytes ?w) (shown s)" "put_bytes buf 0 [c] = Some ([c] @ drop (length [c]) buf)"
      "wr ([c] @ drop (length [c]) buf) (int (length [c])) 0 = Some ([c] @ 0 # drop (Suc (length [c])) buf)"
    by (rule prompt_and_read [OF assms(1,2) l assms(4) nz])
  let ?b = "[c] @ 0 # drop (Suc (length [c])) buf"
  have "33 \<le> length ?b" using assms(4) by simp
  from counter_prints [OF s2(3) this, of 0 "counter_max c"] obtain t
    where t: "counter_loop OS 0 (counter_max c) ?b s2 = Some t" "printed (count_text 0 (unat (counter_max c))) s2 t"
    by auto
  have "ece391_strlen ?b = Some 1" "rd ?b 0 = Some c" using assms(3) by (auto simp: rd_def)
  then have "counter_main OS buf s = Some (0, t)" using s2(1,2,5,6) t(1) by (simp add: counter_main_def)
  then show ?thesis using s2(4) t(2) by (simp add: printed_def)
qed

end

subsection \<open>Files\<close>

locale os_files = os_output OS ok shown put table
  for OS :: "'s os" and ok :: "'s \<Rightarrow> bool" and shown :: "'s \<Rightarrow> 'v" and put :: "u8 \<Rightarrow> 'v \<Rightarrow> 'v"
    and table :: "'s \<Rightarrow> 't" +
  fixes rest :: "'t \<Rightarrow> int \<Rightarrow> u8 list option"
  assumes read_file: "ok s \<Longrightarrow> rest (table s) fd = Some xs \<Longrightarrow> n < 2 ^ 31 \<Longrightarrow>
      \<exists>s'. os_read OS fd (int n) s = Some (int (length (take n xs)), take n xs, s') \<and> ok s' \<and>
        shown s' = shown s \<and> rest (table s') fd = Some (drop n xs)"
begin

text \<open>\<open>cat\<close> copies the rest of the file to the terminal and ends.\<close>

lemma cat_prints:
  assumes "ok s" "rest (table s) fd = Some xs" "length buf = 1024"
  shows "\<exists>t. cat_loop OS fd buf s = Some (0, t) \<and> ok t \<and> shown t = fold put xs (shown s)"
  using assms
proof (induction "length xs" arbitrary: xs buf s rule: less_induct)
  case less
  obtain s1 where s1: "os_read OS fd 1024 s = Some (int (length (take 1024 xs)), take 1024 xs, s1)"
      "ok s1" "shown s1 = shown s" "rest (table s1) fd = Some (drop 1024 xs)"
    using read_file [OF less.prems(1,2), of 1024] by auto
  let ?buf = "take 1024 xs @ drop (length (take 1024 xs)) buf"
  have buf: "put_bytes buf 0 (take 1024 xs) = Some ?buf" "length ?buf = 1024"
    using less.prems(3) by (auto simp: put_bytes_def)
  show ?case
  proof (cases "xs = []")
    case True
    then show ?thesis using s1 buf by (subst cat_loop.simps) simp
  next
    case False
    obtain s2 where s2: "os_write OS 1 ?buf (int (length (take 1024 xs))) s1 = Some (int (length (take 1024 xs)), s2)"
        "printed (take (length (take 1024 xs)) ?buf) s1 s2"
      using write_printed [OF s1(2), of "length (take 1024 xs)" ?buf] by auto
    have "take (length ys) (ys @ zs) = ys" for ys zs :: "u8 list" by simp
    then have p: "printed (take 1024 xs) s1 s2" using s2(2) by (simp only:)
    then have "rest (table s2) fd = Some (drop 1024 xs)" using s1(4) by (simp add: printed_def)
    then obtain t where t: "cat_loop OS fd ?buf s2 = Some (0, t)" "ok t" "shown t = fold put (drop 1024 xs) (shown s2)"
      using less.hyps [of "drop 1024 xs" s2 ?buf] printed_ok [OF p] False buf(2) by auto
    have "cat_loop OS fd buf s = Some (0, t)"
      using s1(1) buf(1) s2(1) t(1) False by (subst cat_loop.simps) (simp del: length_take)
    moreover have "shown t = fold put (take 1024 xs @ drop 1024 xs) (shown s)"
      using t(3) p s1(3) by (simp add: printed_def del: append_take_drop_id)
    ultimately show ?thesis using t(2) by simp
  qed
qed

end

subsection \<open>Directories\<close>

text \<open>A read of a directory gives the next entry, and nothing at the end.\<close>

locale os_entries =
  fixes OS :: "'s os" and ok :: "'s \<Rightarrow> bool" and shown :: "'s \<Rightarrow> 'v" and table :: "'s \<Rightarrow> 't"
    and names :: "'t \<Rightarrow> int \<Rightarrow> u8 list list option"
  assumes read_entry: "ok s \<Longrightarrow> names (table s) fd = Some (w # ws) \<Longrightarrow>
      w \<noteq> [] \<and> (\<exists>bs s'. os_read OS fd 32 s = Some (int (length w), bs, s') \<and> length bs \<le> 32 \<and>
        length w \<le> length bs \<and> take (length w) bs = w \<and> ok s' \<and> shown s' = shown s \<and> names (table s') fd = Some ws)"
    and read_end: "ok s \<Longrightarrow> names (table s) fd = Some [] \<Longrightarrow>
      \<exists>s'. os_read OS fd 32 s = Some (0, [], s') \<and> ok s' \<and> shown s' = shown s"
begin

text \<open>A round of \<open>ls\<close> up to its write: the line to print is at the start of the array.\<close>

lemma ls_end:
  assumes "ok s" "names (table s) fd = Some []" "length buf = 33"
  obtains t where "ls_loop OS fd buf s = Some (0, t)" "ok t" "shown t = shown s"
  using read_end [OF assms(1,2)] that by (subst (asm) ls_loop.simps) (auto simp: put_bytes_def SBUFSIZE_def)

lemma ls_round:
  assumes "ok s" "names (table s) fd = Some (w # ws)" "length buf = 33"
  obtains b s1 where "length b = 33" "take (Suc (length w)) b = w @ [10]" "Suc (length w) \<le> length b" "ok s1"
    "shown s1 = shown s" "names (table s1) fd = Some ws"
    "ls_loop OS fd buf s = do {
       (r, t) \<leftarrow> os_write OS 1 b (int (Suc (length w))) s1;
       if - 1 = r then Some (3, t) else ls_loop OS fd b t
     }"
proof -
  obtain bs s1 where w: "w \<noteq> []" and s1: "os_read OS fd 32 s = Some (int (length w), bs, s1)" "length bs \<le> 32"
      "length w \<le> length bs" "take (length w) bs = w" "ok s1" "shown s1 = shown s" "names (table s1) fd = Some ws"
    using read_entry [OF assms(1,2)] by blast
  let ?b1 = "bs @ drop (length bs) buf"
  let ?b2 = "?b1[length w := 10]"
  have b1: "put_bytes buf 0 bs = Some ?b1" "length ?b1 = 33" using s1(2) assms(3) by (auto simp: put_bytes_def)
  have b2: "wr ?b1 (int (length w)) 10 = Some ?b2" "length ?b2 = 33" using b1(2) s1(2,3) by (auto simp: wr_nat)
  have tk: "take (Suc (length w)) ?b2 = w @ [10]"
    using take_Suc_update [of "length w" ?b1 10] b1(2) s1(2,3,4) by simp
  have "ls_loop OS fd buf s = do {
       (r, t) \<leftarrow> os_write OS 1 ?b2 (int (Suc (length w))) s1;
       if - 1 = r then Some (3, t) else ls_loop OS fd ?b2 t }"
    using w s1(1) b1(1) b2(1) by (subst ls_loop.simps) (simp add: SBUFSIZE_def add.commute)
  then show ?thesis using that [OF b2(2) tk _ s1(5,6,7)] b2(2) s1(2,3) by simp
qed

end

text \<open>With whole writes \<open>ls\<close> prints the names, one to a line.\<close>

locale os_directory = os_output OS ok shown put table + os_entries OS ok shown table names
  for OS :: "'s os" and ok :: "'s \<Rightarrow> bool" and shown :: "'s \<Rightarrow> 'v" and put :: "u8 \<Rightarrow> 'v \<Rightarrow> 'v"
    and table :: "'s \<Rightarrow> 't" and names :: "'t \<Rightarrow> int \<Rightarrow> u8 list list option"
begin

lemma ls_prints:
  assumes "ok s" "names (table s) fd = Some ws" "length buf = 33"
  shows "\<exists>t. ls_loop OS fd buf s = Some (0, t) \<and> ok t \<and>
    shown t = fold put (concat (map (\<lambda>w. w @ [10]) ws)) (shown s)"
  using assms
proof (induction ws arbitrary: buf s)
  case Nil
  from ls_end [OF Nil] show ?case by auto
next
  case (Cons w ws)
  obtain b s1 where b: "length b = 33" "take (Suc (length w)) b = w @ [10]" "Suc (length w) \<le> length b" "ok s1"
    "shown s1 = shown s" "names (table s1) fd = Some ws"
    "ls_loop OS fd buf s = do {
       (r, t) \<leftarrow> os_write OS 1 b (int (Suc (length w))) s1;
       if - 1 = r then Some (3, t) else ls_loop OS fd b t }"
    by (rule ls_round [OF Cons.prems])
  obtain s2 where s2: "os_write OS 1 b (int (Suc (length w))) s1 = Some (int (Suc (length w)), s2)" "printed (w @ [10]) s1 s2"
    using write_printed [OF b(4,3)] b(2) by auto
  have "names (table s2) fd = Some ws" using s2(2) b(6) by (simp add: printed_def)
  then obtain t where t: "ls_loop OS fd b s2 = Some (0, t)" "ok t"
      "shown t = fold put (concat (map (\<lambda>w. w @ [10]) ws)) (shown s2)"
    using Cons.IH [of s2 b] printed_ok [OF s2(2)] b(1) by auto
  then show ?case using b(5,7) s2 by (auto simp: printed_def)
qed

end

text \<open>
  A write that may fail or show only a part of the bytes, as that of Linux may: \<open>ls\<close> does not look at the
  number of bytes that were written, and stops with 3 at the first write that fails.
\<close>

locale os_listing = os_entries OS ok shown table names
  for OS :: "'s os" and ok :: "'s \<Rightarrow> bool" and shown :: "'s \<Rightarrow> 'v" and table :: "'s \<Rightarrow> 't"
    and names :: "'t \<Rightarrow> int \<Rightarrow> u8 list list option" +
  fixes put :: "u8 \<Rightarrow> 'v \<Rightarrow> 'v"
  assumes write_part: "ok s \<Longrightarrow> n \<le> length bs \<Longrightarrow>
      \<exists>r s'. os_write OS 1 bs (int n) s = Some (r, s') \<and> ok s' \<and> table s' = table s \<and>
        (r = - 1 \<and> shown s' = shown s \<or> (\<exists>k \<le> n. r = int k \<and> shown s' = fold put (take k bs) (shown s)))"
begin

lemma ls_lists:
  assumes "ok s" "names (table s) fd = Some ws" "length buf = 33"
  shows "\<exists>r ks t. ls_loop OS fd buf s = Some (r, t) \<and> ok t \<and>
    shown t = fold put (concat (map2 (\<lambda>k w. take k (w @ [10])) ks ws)) (shown s) \<and>
    (r = 0 \<and> length ks = length ws \<or> r = 3 \<and> length ks < length ws)"
  using assms
proof (induction ws arbitrary: buf s)
  case Nil
  from ls_end [OF Nil] show ?case by (metis concat.simps(1) fold_simps(1) list.map(1) list.size(3) zip.simps(1))
next
  case (Cons w ws)
  obtain b s1 where b: "length b = 33" "take (Suc (length w)) b = w @ [10]" "Suc (length w) \<le> length b" "ok s1"
    "shown s1 = shown s" "names (table s1) fd = Some ws"
    "ls_loop OS fd buf s = do {
       (r, t) \<leftarrow> os_write OS 1 b (int (Suc (length w))) s1;
       if - 1 = r then Some (3, t) else ls_loop OS fd b t }"
    by (rule ls_round [OF Cons.prems])
  obtain r s2 where s2: "os_write OS 1 b (int (Suc (length w))) s1 = Some (r, s2)" "ok s2" "table s2 = table s1"
      "r = - 1 \<and> shown s2 = shown s1 \<or> (\<exists>k \<le> Suc (length w). r = int k \<and> shown s2 = fold put (take k b) (shown s1))"
    using write_part [OF b(4,3)] by blast
  show ?case
  proof (cases "r = - 1")
    case True
    then have "ls_loop OS fd buf s = Some (3, s2)" "shown s2 = shown s" using b(5,7) s2(1,4) by auto
    then show ?thesis using s2(2) by (intro exI [of _ 3] exI [of _ "[]"] exI [of _ s2]) simp
  next
    case False
    then obtain k where k: "k \<le> Suc (length w)" "r = int k" "shown s2 = fold put (take k b) (shown s1)" using s2(4) by blast
    have tk: "take k b = take k (w @ [10])" using b(2) k(1) take_take [of k "Suc (length w)" b] by (simp add: min_absorb1)
    obtain q ks t where t: "ls_loop OS fd b s2 = Some (q, t)" "ok t"
        "shown t = fold put (concat (map2 (\<lambda>k w. take k (w @ [10])) ks ws)) (shown s2)"
        "q = 0 \<and> length ks = length ws \<or> q = 3 \<and> length ks < length ws"
      using Cons.IH [OF s2(2) _ b(1)] b(6) s2(3) by auto
    then have "ls_loop OS fd buf s = Some (q, t)"
        "shown t = fold put (concat (map2 (\<lambda>k w. take k (w @ [10])) (k # ks) (w # ws))) (shown s)"
      using b(5,7) s2(1) False k(3) tk by auto
    then show ?thesis using t(2,4) by (intro exI [of _ q] exI [of _ "k # ks"] exI [of _ t]) auto
  qed
qed

end

text \<open>Whole writes are a case of it.\<close>

sublocale os_directory < listing: os_listing OS ok shown table names put
proof (unfold_locales, goal_cases)
  case (1 s n bs)
  from write_out [OF 1] show ?case by blast
qed

subsection \<open>The clock\<close>

text \<open>
  A descriptor of the clock: a read takes one tick, a write of four bytes sets the rate. \<open>elapse\<close> counts
  the tick that a read has taken; printing takes none.
\<close>

locale os_clock = os_output OS ok shown put table
  for OS :: "'s os" and ok :: "'s \<Rightarrow> bool" and shown :: "'s \<Rightarrow> 'v" and put :: "u8 \<Rightarrow> 'v \<Rightarrow> 'v" and table :: "'s \<Rightarrow> 't" +
  fixes clock :: "'t \<Rightarrow> int \<Rightarrow> bool" and elapse :: "'t \<Rightarrow> 't"
  assumes clock_tick: "ok s \<Longrightarrow> clock (table s) fd \<Longrightarrow>
      \<exists>s'. os_read OS fd 4 s = Some (0, [], s') \<and> ok s' \<and> shown s' = shown s \<and> table s' = elapse (table s)"
    and clock_elapse: "clock (elapse T) fd = clock T fd"
    and clock_rate: "ok s \<Longrightarrow> clock (table s) fd \<Longrightarrow> length bs = 4 \<Longrightarrow>
      \<exists>s'. os_write OS fd bs 4 s = Some (4, s') \<and> ok s' \<and> shown s' = shown s \<and> table s' = table s"
begin

text \<open>The state after a text was printed and \<open>k\<close> ticks were taken.\<close>

definition ticked :: "nat \<Rightarrow> u8 list \<Rightarrow> 's \<Rightarrow> 's \<Rightarrow> bool" where
  "ticked k w s t \<longleftrightarrow> ok t \<and> shown t = fold put w (shown s) \<and> table t = (elapse ^^ k) (table s)"

lemma ticked_refl: "ok s \<Longrightarrow> ticked 0 [] s s"
  by (simp add: ticked_def)

lemma ticked_trans: "ticked j v s t \<Longrightarrow> ticked k w t u \<Longrightarrow> ticked (j + k) (v @ w) s u"
  by (simp add: ticked_def add.commute [of j] funpow_add)

lemma printed_ticked: "printed w s t \<Longrightarrow> ticked 0 w s t"
  by (simp add: printed_def ticked_def)

lemma clock_elapsed: "clock ((elapse ^^ k) T) fd = clock T fd"
  by (induction k) (simp_all add: clock_elapse)

lemma ticked_clock: "ticked k w s t \<Longrightarrow> ok t \<and> clock (table t) fd = clock (table s) fd"
  by (simp add: ticked_def clock_elapsed)

lemma read_ticked:
  assumes "ok s" "clock (table s) fd"
  obtains t where "os_read OS fd 4 s = Some (0, [], t)" "ticked 1 [] s t"
  using clock_tick [OF assms] by (auto simp: ticked_def)

end

end
