(* ===== verification/User_Kernel.thy ===== *)
theory User_Kernel
  imports User_OS System
begin

text \<open>
  The system calls of the programs are those of the kernel: \<open>kernel_os\<close> is the record of the calls
  through the gate of \<open>src/student-distrib/interrupt_wrapper.S\<close>. The laws the programs rely on are
  proved for it, and with them what the programs do on this kernel. Between two calls of a program
  nothing else runs here; that other programs do not disturb it is the subject of \<open>Isolation\<close>.
\<close>

subsection \<open>The system call gate\<close>

text \<open>The wrapper disables interrupts, checks the number, enables them for the call and at the end.\<close>

definition gate_in :: "'a kstate_scheme \<Rightarrow> 'a kstate_scheme" where "gate_in s = sti (cli s)"
definition gate_out :: "'a kstate_scheme \<Rightarrow> 'a kstate_scheme" where "gate_out s = sti (cli s)"

definition through_gate ::
  "('a kstate_scheme \<Rightarrow> (int \<times> 'a kstate_scheme) option) \<Rightarrow> 'a kstate_scheme \<Rightarrow> (int \<times> 'a kstate_scheme) option" where
  "through_gate call s = do { (r, s) \<leftarrow> call (gate_in s); Some (r, gate_out s) }"

text \<open>A trap whose number is outside the jump table; what registers a bare call leaves is not known.\<close>

definition syscall_number :: "int \<Rightarrow> 'a kstate_scheme \<Rightarrow> (int \<times> 'a kstate_scheme) option" where
  "syscall_number eax s = (if eax < 1 \<or> 10 < eax then Some (- 1, gate_out s) else None)"

text \<open>
  The record of calls. The buffer a program passes to \<open>getargs\<close> is at address \<open>ubuf\<close> and is
  read back through the page tables with the rights of the program. The arrays of the programs are values
  of their models: a read gives the bytes to the program's model and does not also store them in
  \<open>user_mem\<close>, so the contents of \<open>user_mem\<close> in the frame of a running program are meaningful only where
  the kernel stores for it (\<open>getargs\<close>, \<open>vidmap\<close>, the loaded image). \<open>irqs\<close> are the interrupts that
  arrive while a read waits, which does not return before the awaited one. \<open>execute\<close> hands the
  processor to the new program and returns when that halts: what it does depends on the program, and
  \<open>User_Shell.shell_os\<close> fills it in; a program run on \<open>kernel_os\<close> itself does not call it.
\<close>

definition kernel_os ::
  "env \<Rightarrow> layout \<Rightarrow> ('a kstate_scheme \<Rightarrow> 'a kstate_scheme option) list \<Rightarrow> u32 \<Rightarrow> 'a kstate_scheme os" where
  "kernel_os E L irqs ubuf =
     \<lparr>os_execute = (\<lambda>command s. None),
      os_read = (\<lambda>fd nbytes s. do {
        res \<leftarrow> sys_read E irqs fd False nbytes (gate_in s);
        case res of Read_waits s \<Rightarrow> None | Read_returns r bs s \<Rightarrow> Some (r, bs, gate_out s)
      }),
      os_write = (\<lambda>fd buf nbytes. through_gate (sys_write E fd (Some buf) nbytes)),
      os_open = (\<lambda>filename. through_gate (sys_open E (Some filename))),
      os_close = (\<lambda>fd. through_gate (sys_close fd)),
      os_getargs = (\<lambda>nbytes s. do {
        (r, s) \<leftarrow> getargs L ubuf nbytes (gate_in s);
        buf \<leftarrow> those (map (\<lambda>i. user_load L s (ubuf + of_nat i)) [0..<nat nbytes]);
        Some (r, buf, gate_out s)
      }),
      os_vidmap = (\<lambda>screen_start. through_gate (vidmap L screen_start)),
      os_call = syscall_number\<rparr>"

subsection \<open>A running program\<close>

definition user_ok :: "env \<Rightarrow> 'a kstate_scheme \<Rightarrow> bool" where
  "user_ok E s \<longleftrightarrow> env_ok E \<and> fd_ok s \<and> tty_ok s \<and> iflag s \<and>
     (\<exists>ino pos. fd_view s 1 = Some (Some stdout_jump_table, ino, pos))"

text \<open>The screen of its terminal.\<close>

definition user_screen :: "'a kstate_scheme \<Rightarrow> scr" where
  "user_screen s = tty_screen s (nat (exec_term_id s))"

type_synonym fd_files = "(nat \<Rightarrow> (fo_jump_table_t option \<times> u32 \<times> u32) option) \<times> mem \<times> fs"

definition user_table :: "'a kstate_scheme \<Rightarrow> fd_files" where
  "user_table s = (fd_view s, fs_mem s, fs_sections s)"

text \<open>
  The same with the input of its terminal: whether it is displayed, the key buffer, the number of
  newlines in it and the index; and the line a read would return.
\<close>

definition user_io :: "'a kstate_scheme \<Rightarrow> fd_files \<times> bool \<times> u8 list \<times> int \<times> int" where
  "user_io s = (user_table s, exec_term_id s = curr_term_id s, tty_input s (nat (exec_term_id s)))"

definition typed_line :: "fd_files \<times> bool \<times> u8 list \<times> int \<times> int \<Rightarrow> u8 list option" where
  "typed_line = (\<lambda>((v, _), here, kb, enters, _).
     if here \<and> length kb = BUFF_SIZE \<and> NEWLINE \<in> set kb \<and> 0 < enters \<and>
        (case v 0 of Some (Some stdin_jump_table, _) \<Rightarrow> True | _ \<Rightarrow> False)
     then Some (takeWhile (\<lambda>c. c \<noteq> NEWLINE) kb) else None)"

text \<open>What is left to read of a file, and the entries left of a directory.\<close>

definition file_rest :: "fd_files \<Rightarrow> int \<Rightarrow> u8 list option" where
  "file_rest = (\<lambda>(v, m, f) fd.
     case v (nat fd) of
       Some (Some file_fo_jump_table, ino, pos) \<Rightarrow>
         if 0 \<le> fd \<and> inode_ok m f ino \<and> unat pos \<le> length (contents m f ino)
         then Some (drop (unat pos) (contents m f ino)) else None
     | _ \<Rightarrow> None)"

definition dir_plain :: "mem \<Rightarrow> fs \<Rightarrow> bool" where
  "dir_plain m f \<longleftrightarrow> entry_name m f 62 = [] \<and> (\<forall>i<63. ld32 m (dentry_addr f i + 32) < 2 ^ 24)"

definition dir_names :: "mem \<Rightarrow> fs \<Rightarrow> nat \<Rightarrow> u8 list list" where
  "dir_names m f i = map (entry_name m f) (filter (\<lambda>j. entry_name m f j \<noteq> []) [i..<63])"

definition dir_rest :: "fd_files \<Rightarrow> int \<Rightarrow> u8 list list option" where
  "dir_rest = (\<lambda>(v, m, f) fd.
     case v (nat fd) of
       Some (Some dir_fo_jump_table, ino, pos) \<Rightarrow>
         if 0 \<le> fd \<and> dir_plain m f \<and> unat pos < 63 then Some (dir_names m f (unat pos)) else None
     | _ \<Rightarrow> None)"

lemma gate_id: "iflag s \<Longrightarrow> gate_in s = s" "iflag s \<Longrightarrow> gate_out s = s"
  by (simp_all add: gate_in_def gate_out_def sti_def cli_def)

lemma user_okD:
  assumes "user_ok E s"
  shows "env_ok E" "fd_ok s" "tty_ok s" "iflag s"
  using assms by (simp_all add: user_ok_def)

text \<open>
  The calls on descriptors change only the process control block of the running program, and not its
  links to other processes.
\<close>

definition pcb_links :: "pcb_t \<Rightarrow> nat option \<times> nat option \<times> nat \<times> u32 \<times> u32" where
  "pcb_links b = (parent_pcb b, child_pcb b, process_id b, parent_esp b, parent_ebp b)"

definition only_pcbs :: "'a kstate_scheme \<Rightarrow> 'a kstate_scheme \<Rightarrow> bool" where
  "only_pcbs s s' \<longleftrightarrow> (\<exists>b. s' = s\<lparr>pcbs := b\<rparr> \<and> (\<forall>p. pcb_links (b p) = pcb_links (pcbs s p)) \<and>
     (\<forall>p. p \<noteq> running s \<longrightarrow> b p = pcbs s p))"

lemma only_pcbs_refl: "only_pcbs s s"
  unfolding only_pcbs_def by (rule exI [of _ "pcbs s"]) simp

lemma only_pcbs_upd:
  "only_pcbs s t \<Longrightarrow> get_current_executing_pcb s = Some p \<Longrightarrow> (\<And>b. pcb_links (f b) = pcb_links b) \<Longrightarrow>
     only_pcbs s (upd_pcb p f t)"
  by (auto simp: only_pcbs_def upd_pcb_def running_def)

lemma fd_calls_pcbs:
  "sys_open E name s = Some (r, s') \<Longrightarrow> only_pcbs s s'"
  "sys_close fd s = Some (r, s') \<Longrightarrow> only_pcbs s s'"
  "file_read fd n s = Some (r, bs, s') \<Longrightarrow> only_pcbs s s'"
  "dir_read E fd n s = Some (r, bs, s') \<Longrightarrow> only_pcbs s s'"
  by (auto simp: sys_open_def sys_close_def file_read_def dir_read_def bind_eq_Some_conv Let_def
      split_def pcb_links_def upd_fd_def split: option.splits if_splits intro!: only_pcbs_refl only_pcbs_upd)

text \<open>
  What the calls on descriptors leave alone: the processes with their links, the control blocks of the
  others, the page tables, the memory of the programs, the disk and the choice of the terminals.
\<close>

definition kept :: "'a kstate_scheme \<Rightarrow> 'a kstate_scheme \<Rightarrow> bool" where
  "kept s s' \<longleftrightarrow> processes s' = processes s \<and> exec_term_id s' = exec_term_id s \<and>
     curr_term_id s' = curr_term_id s \<and> page_directory s' = page_directory s \<and> page_table_0 s' = page_table_0 s \<and>
     vid_page_table_0 s' = vid_page_table_0 s \<and> user_mem s' = user_mem s \<and> fs_mem s' = fs_mem s \<and> fs_sections s' = fs_sections s \<and>
     running s' = running s \<and> (\<forall>p. pcb_links (pcbs s' p) = pcb_links (pcbs s p)) \<and>
     (\<forall>p. p \<noteq> running s \<longrightarrow> pcbs s' p = pcbs s p)"

lemma kept_refl: "kept s s"
  by (simp add: kept_def)

lemma kept_trans: "kept s t \<Longrightarrow> kept t u \<Longrightarrow> kept s u"
  by (simp add: kept_def)

lemma kept_chains:
  assumes "proc_chains cs s" "processes s' = processes s" "\<forall>p. pcb_links (pcbs s' p) = pcb_links (pcbs s p)"
    and "\<forall>p. pcb_shape (pcbs s' p)"
  shows "proc_chains cs s'"
proof -
  have l: "parent_pcb (pcbs s' p) = parent_pcb (pcbs s p)" "child_pcb (pcbs s' p) = child_pcb (pcbs s p)"
      "process_id (pcbs s' p) = process_id (pcbs s p)" for p
    using assms(3) by (simp_all add: pcb_links_def)
  have "chain (pcbs s') ps = chain (pcbs s) ps" for ps by (rule chain_cong) (simp_all add: l)
  then show ?thesis using assms(1,2,4) by (simp add: proc_chains_def l)
qed

lemma only_pcbs_kept:
  assumes "fd_ok s" "only_pcbs s s'" "fd_ok s'"
  shows "kept s s'"
proof -
  obtain b where b: "s' = s\<lparr>pcbs := b\<rparr>" "\<forall>p. pcb_links (b p) = pcb_links (pcbs s p)" "\<forall>p. p \<noteq> running s \<longrightarrow> b p = pcbs s p"
    using assms(2) by (auto simp: only_pcbs_def)
  obtain cs where cs: "proc_chains cs s" "tty_ids_ok s" using assms(1) by (auto simp: fd_ok_def proc_inv_def)
  have "proc_chains cs s'"
    using kept_chains [OF cs(1), of s'] running_shape [OF assms(3)] b by simp
  then have "running s' = running s"
    using executing_pcb [OF cs] executing_pcb [of cs s'] assms(3) b(1) by (simp add: running_def fd_ok_def)
  then show ?thesis using b by (simp add: kept_def)
qed

lemma pcbs_upd_tty:
  "tty_ok (s\<lparr>pcbs := b\<rparr>) = tty_ok s" "user_screen (s\<lparr>pcbs := b\<rparr>) = user_screen s"
  "iflag (s\<lparr>pcbs := b\<rparr>) = iflag s" "fs_mem (s\<lparr>pcbs := b\<rparr>) = fs_mem s"
  "fs_sections (s\<lparr>pcbs := b\<rparr>) = fs_sections s"
  by (simp_all add: tty_ok_def tty_ids_ok_def tty_screen_def user_screen_def con_view_def)

lemma same_core_view:
  assumes "same_core s s'"
  shows "fd_view s' = fd_view s" "fd_ok s' = fd_ok s" "user_table s' = user_table s" "kept s s'"
proof -
  have "proc_inv s' = proc_inv s" "get_current_executing_pcb s' = get_current_executing_pcb s"
    "tty_ids_ok s' = tty_ids_ok s"
    using assms by (auto simp: same_core_def proc_inv_def proc_chains_def tty_ids_ok_def get_current_executing_pcb_def)
  then show "fd_view s' = fd_view s" "fd_ok s' = fd_ok s" "user_table s' = user_table s"
    using assms by (auto simp: fd_view_def running_def fd_ok_def same_core_def user_table_def fun_eq_iff)
  show "kept s s'"
    using assms by (simp add: kept_def same_core_def running_def get_current_executing_pcb_def)
qed


lemma fd_view_entry:
  assumes "fd_ok s" "fd_view s i = Some (jt, ino, pos)"
  obtains e where "i < FD_ARRAY_LEN" "rd (fd_array (pcbs s (running s))) (int i) = Some e" "fd_active e"
    "fo_jump_table_ptr e = jt" "fd_inode_index e = ino" "file_position e = pos"
proof -
  have "length (fd_array (pcbs s (running s))) = FD_ARRAY_LEN"
    using running_shape [OF assms(1), of "running s"] by (simp add: pcb_shape_def)
  then show ?thesis
    using assms(2) that [of "fd_array (pcbs s (running s)) ! i"] by (auto simp: fd_view_def Let_def rd_nat split: if_splits)
qed

lemma kernel_write_out:
  assumes "user_ok E s" "n \<le> length bs"
  shows "\<exists>s'. os_write (kernel_os E L irqs ubuf) 1 bs (int n) s = Some (int n, s') \<and> user_ok E s' \<and>
    user_screen s' = fold scr_putc (take n bs) (user_screen s) \<and> user_table s' = user_table s \<and> user_io s' = user_io s \<and> kept s s' \<and>
    same_core s s'"
proof -
  note ok = user_okD [OF assms(1)]
  obtain ino pos where v: "fd_view s 1 = Some (Some stdout_jump_table, ino, pos)" using assms(1) by (auto simp: user_ok_def)
  obtain s' where s': "terminal_write 1 (Some bs) (int n) s = Some (int n, s')" "tty_ok s'"
      "exec_term_id s' = exec_term_id s" "iflag s'"
      "tty_screen s' (nat (exec_term_id s)) = fold scr_putc (take n bs) (tty_screen s (nat (exec_term_id s)))"
      "\<forall>i<NUM_TERMINALS. tty_input s' i = tty_input s i"
    using terminal_write_ok [OF ok(3) assms(2), of 1] by blast
  note core = same_core_view [OF same_core_terminal_write [OF s'(1)]]
  have "curr_term_id s' = curr_term_id s" using same_core_terminal_write [OF s'(1)] by (simp add: same_core_def)
  moreover have "nat (exec_term_id s) < NUM_TERMINALS" using ok(3) by (auto simp: tty_ok_def tty_ids_ok_def)
  ultimately have io: "user_io s' = user_io s" using s'(3,6) core(3) by (simp add: user_io_def)
  obtain e where "rd (fd_array (pcbs s (running s))) 1 = Some e" "fd_active e" "fo_jump_table_ptr e = Some stdout_jump_table"
    using fd_view_entry [OF ok(2) v] by (metis of_nat_1)
  then have "sys_write E 1 (Some bs) (int n) s = Some (int n, s')"
    using running_pcb [OF ok(2)] s'(1) by (simp add: sys_write_def)
  then have "os_write (kernel_os E L irqs ubuf) 1 bs (int n) s = Some (int n, s')"
    using ok(4) s'(4) by (simp add: kernel_os_def through_gate_def gate_id)
  moreover have "user_ok E s'" using assms(1) s' core by (auto simp: user_ok_def)
  ultimately show ?thesis using s' core io same_core_terminal_write [OF s'(1)] by (auto simp: user_screen_def)
qed

text \<open>A state after a call on descriptors.\<close>

lemma only_pcbs_user:
  assumes "user_ok E s" "only_pcbs s s'" "fd_ok s'" "fd_view s' 1 = fd_view s 1"
  shows "user_ok E s'" "user_screen s' = user_screen s" "iflag s'" "fs_mem s' = fs_mem s" "fs_sections s' = fs_sections s"
  using assms by (auto simp: only_pcbs_def user_ok_def pcbs_upd_tty)

lemma file_rest_at:
  "v (nat fd) = Some (Some file_fo_jump_table, ino, pos) \<Longrightarrow> 0 \<le> fd \<Longrightarrow> inode_ok m f ino \<Longrightarrow>
     unat pos \<le> length (contents m f ino) \<Longrightarrow> file_rest (v, m, f) fd = Some (drop (unat pos) (contents m f ino))"
  by (simp add: file_rest_def)

lemma kernel_read_file:
  assumes "user_ok E s" "file_rest (user_table s) fd = Some xs" "n < 2 ^ 31"
  shows "\<exists>s'. os_read (kernel_os E L irqs ubuf) fd (int n) s = Some (int (length (take n xs)), take n xs, s') \<and>
    user_ok E s' \<and> user_screen s' = user_screen s \<and> file_rest (user_table s') fd = Some (drop n xs) \<and> kept s s' \<and>
    only_pcbs s s' \<and> (\<forall>j. j \<noteq> nat fd \<longrightarrow> fd_view s' j = fd_view s j)"
proof -
  note ok = user_okD [OF assms(1)]
  let ?c = "\<lambda>ino. contents (fs_mem s) (fs_sections s) ino"
  obtain ino pos where v: "fd_view s (nat fd) = Some (Some file_fo_jump_table, ino, pos)" and fd: "0 \<le> fd"
      and i: "inode_ok (fs_mem s) (fs_sections s) ino" "unat pos \<le> length (?c ino)" and xs: "xs = drop (unat pos) (?c ino)"
    using assms(2) by (auto simp: file_rest_def user_table_def split: option.splits fo_jump_table_t.splits if_splits)
  have fdn: "int (nat fd) = fd" using fd by simp
  obtain s' where s': "sys_read E irqs fd False (int n) s = Some (Read_returns (int (length (take n xs))) (take n xs) s')"
      "fd_ok s'" "fd_view s' = (fd_view s)(nat fd \<mapsto> (Some file_fo_jump_table, ino, pos + of_nat (length (take n xs))))"
    using sys_read_file [OF ok(2) v i, of "int n" E irqs] assms(3) unfolding fdn xs by auto
  have pcbs: "only_pcbs s s'"
  proof -
    obtain e where e: "nat fd < FD_ARRAY_LEN" "rd (fd_array (pcbs s (running s))) fd = Some e" "fd_active e"
        "fo_jump_table_ptr e = Some file_fo_jump_table"
      using fd_view_entry [OF ok(2) v] fdn by metis
    have "file_read fd (int n) s = Some (int (length (take n xs)), take n xs, s')"
      using s'(1) e fd running_pcb [OF ok(2)] by (auto simp: sys_read_def nat_less_iff split: if_splits)
    then show ?thesis by (rule fd_calls_pcbs)
  qed
  have "nat fd \<noteq> 1" using v assms(1) by (auto simp: user_ok_def)
  then have u: "user_ok E s'" "user_screen s' = user_screen s" "iflag s'" "fs_mem s' = fs_mem s" "fs_sections s' = fs_sections s"
    using only_pcbs_user [OF assms(1) pcbs] s' by auto
  have l: "length (take n xs) = min n (length (?c ino) - unat pos)" using xs by simp
  have adv: "unat (pos + of_nat (length (take n xs))) = unat pos + length (take n xs)"
    unfolding l using fsfile.position_advance [of pos "(fs_mem s, fs_sections s, ino)" n] i(2) by (simp only: prod.case)
  have le: "unat pos + length (take n xs) \<le> length (?c ino)" unfolding l using i(2) by simp
  have dr: "drop (unat pos + length (take n xs)) (?c ino) = drop n xs"
    unfolding xs by (cases "n \<le> length (?c ino) - unat pos") (auto simp: add.commute min_def)
  have "file_rest (user_table s') fd = Some (drop (unat (pos + of_nat (length (take n xs)))) (?c ino))"
    unfolding user_table_def u(4,5) s'(3) using le fd i(1) by (intro file_rest_at) (simp_all only: adv fun_upd_same)
  then have "file_rest (user_table s') fd = Some (drop n xs)" unfolding adv dr .
  then show ?thesis
    using s'(1,3) u ok(4) pcbs only_pcbs_kept [OF ok(2) pcbs s'(2)] by (simp add: kernel_os_def gate_id)
qed

text \<open>
  The invariant of the interpretations: the program runs, and what it had to leave alone since the
  state \<open>s0\<close> is as it was.
\<close>

definition user_in :: "env \<Rightarrow> 'a kstate_scheme \<Rightarrow> 'a kstate_scheme \<Rightarrow> bool" where
  "user_in E s0 s \<longleftrightarrow> user_ok E s \<and> kept s0 s"

lemma user_in_refl: "user_ok E s \<Longrightarrow> user_in E s s"
  by (simp add: user_in_def kept_refl)

lemma user_in_step: "user_in E s0 s \<Longrightarrow> user_ok E s' \<Longrightarrow> kept s s' \<Longrightarrow> user_in E s0 s'"
  by (auto simp: user_in_def intro: kept_trans)

lemma user_in_ok: "user_in E s0 s \<Longrightarrow> user_ok E s"
  by (simp add: user_in_def)

interpretation kout: os_output "kernel_os E L irqs ubuf" "user_ok E" user_screen scr_putc user_table for E L irqs ubuf
  by unfold_locales (use kernel_write_out in blast)

interpretation kfiles: os_files "kernel_os E L irqs ubuf" "user_in E s0" user_screen scr_putc user_table file_rest
  for E L irqs ubuf s0
proof (unfold_locales, goal_cases)
  case (1 s n bs)
  then show ?case using kernel_write_out [OF user_in_ok, of E s0 s n bs L irqs ubuf] user_in_step by blast
next
  case (2 s fd xs n)
  then show ?case using kernel_read_file [OF user_in_ok, of E s0 s fd xs n L irqs ubuf] user_in_step by blast
qed

lemma kernel_read_dir:
  assumes "user_ok E s" "fd_view s (nat fd) = Some (Some dir_fo_jump_table, ino, pos)" "0 \<le> fd"
    and "dir_read_at (fs_mem s) (fs_sections s) (uninit_dentry E) pos 32 = Some (r, bs, pos')"
  shows "\<exists>s'. os_read (kernel_os E L irqs ubuf) fd 32 s = Some (r, bs, s') \<and> user_ok E s' \<and>
    user_screen s' = user_screen s \<and> user_table s' =
      ((fd_view s)(nat fd \<mapsto> (Some dir_fo_jump_table, ino, pos')), fs_mem s, fs_sections s) \<and> kept s s'"
proof -
  note ok = user_okD [OF assms(1)]
  have fdn: "int (nat fd) = fd" using assms(3) by simp
  obtain e where e: "nat fd < FD_ARRAY_LEN" "rd (fd_array (pcbs s (running s))) fd = Some e" "fd_active e"
      "fo_jump_table_ptr e = Some dir_fo_jump_table" "fd_inode_index e = ino" "file_position e = pos"
    using fd_view_entry [OF ok(2) assms(2)] fdn by metis
  let ?u = "upd_fd (nat fd) (\<lambda>e. e\<lparr>file_position := pos'\<rparr>)"
  let ?s = "upd_pcb (running s) ?u s"
  have en: "fd_array (pcbs s (running s)) ! nat fd = e" using e(2) by (simp add: rd_Some_iff)
  have rd: "dir_read E fd 32 s = Some (r, bs, ?s)"
    using e assms(4) running_pcb [OF ok(2)] by (simp add: dir_read_def)
  have "sys_read E irqs fd False 32 s = Some (Read_returns r bs ?s)"
    using rd e assms(3) running_pcb [OF ok(2)] by (simp add: sys_read_def nat_less_iff)
  moreover have view: "fd_view ?s = (fd_view s)(nat fd \<mapsto> (Some dir_fo_jump_table, ino, pos'))"
    using fd_view_upd [OF ok(2) e(1)] e(3-5) by (simp add: fd_active_def Let_def en)
  moreover have fd: "fd_ok ?s" using fd_ok_upd [OF ok(2), of ?u "running s"] by (simp add: pcb_shape_upd_fd)
  moreover have "nat fd \<noteq> 1" using assms(1,2) by (auto simp: user_ok_def)
  ultimately show ?thesis
    using only_pcbs_user [OF assms(1) fd_calls_pcbs(4) [OF rd]] ok(4) only_pcbs_kept [OF ok(2) fd_calls_pcbs(4) [OF rd] fd]
    by (intro exI [of _ ?s]) (simp add: kernel_os_def gate_id user_table_def)
qed

lemma dir_rest_view:
  assumes "dir_rest (user_table s) fd = Some ws"
  obtains ino pos where "fd_view s (nat fd) = Some (Some dir_fo_jump_table, ino, pos)" "0 \<le> fd"
    "dir_plain (fs_mem s) (fs_sections s)" "unat pos < 63" "ws = dir_names (fs_mem s) (fs_sections s) (unat pos)"
  using assms by (auto simp: dir_rest_def user_table_def split: option.splits fo_jump_table_t.splits if_splits)

lemma dir_names_empty:
  "dir_names m f i = [] \<longleftrightarrow> find (\<lambda>j. entry_name m f j \<noteq> []) [i..<63] = None"
  by (auto simp: dir_names_def find_None_iff filter_empty_conv simp del: upt_rec_numeral)

lemma kernel_read_entry:
  assumes "user_ok E s" "dir_rest (user_table s) fd = Some (w # ws)"
  shows "w \<noteq> [] \<and> (\<exists>bs s'. os_read (kernel_os E L irqs ubuf) fd 32 s = Some (int (length w), bs, s') \<and>
    length bs \<le> 32 \<and> length w \<le> length bs \<and> take (length w) bs = w \<and> user_ok E s' \<and>
    user_screen s' = user_screen s \<and> dir_rest (user_table s') fd = Some ws \<and> kept s s')"
proof -
  let ?m = "fs_mem s" and ?f = "fs_sections s"
  obtain ino pos where v: "fd_view s (nat fd) = Some (Some dir_fo_jump_table, ino, pos)" "0 \<le> fd"
      and p: "dir_plain ?m ?f" "unat pos < 63" and ws: "w # ws = dir_names ?m ?f (unat pos)"
    using dir_rest_view [OF assms(2)] by metis
  have len32: "length (file_name (uninit_dentry E)) = 32" using user_okD(1) [OF assms(1)] by (simp add: env_ok_def)
  have "find (\<lambda>j. entry_name ?m ?f j \<noteq> []) [unat pos..<63] \<noteq> None"
    using ws dir_names_empty [of ?m ?f "unat pos"] by auto
  then obtain j where j: "find (\<lambda>j. entry_name ?m ?f j \<noteq> []) [unat pos..<63] = Some j" by blast
  note jf = find_filter_upt [OF j]
  have w: "w = entry_name ?m ?f j" "ws = dir_names ?m ?f (Suc j)" using ws jf(1) by (simp_all add: dir_names_def)
  have "j \<noteq> 62" using jf(4) p(1) by (metis dir_plain_def)
  then have u: "unat (of_nat (Suc j) :: u32) = Suc j" "Suc j < 63" using jf(3) by (simp_all only: unat_of_nat) simp_all
  let ?bs = "w @ replicate (32 - length w) 0"
  have lw: "length w \<le> 32" unfolding w by (rule length_entry_name)
  have "dir_read_at ?m ?f (uninit_dentry E) pos 32 = Some (int (length w), ?bs, of_nat (Suc j))"
    using dir_read_at_next [OF len32 p(2) _ j, of 32] p(1) jf(3) lw w(1) by (simp add: dir_plain_def Let_def)
  from kernel_read_dir [OF assms(1) v this, of L irqs ubuf] obtain s' where
    s': "os_read (kernel_os E L irqs ubuf) fd 32 s = Some (int (length w), ?bs, s')" "user_ok E s'"
      "user_screen s' = user_screen s"
      "user_table s' = ((fd_view s)(nat fd \<mapsto> (Some dir_fo_jump_table, ino, of_nat (Suc j))), ?m, ?f)" "kept s s'" by blast
  have "dir_rest (user_table s') fd = Some ws"
    unfolding s'(4) dir_rest_def prod.case fun_upd_same option.case fo_jump_table_t.case u(1) using p(1) u(2) v(2) w(2) by simp
  then show ?thesis using s' lw w(1) jf(4) by (intro conjI exI [of _ ?bs] exI [of _ s']) simp_all
qed

lemma kernel_read_end:
  assumes "user_ok E s" "dir_rest (user_table s) fd = Some []"
  shows "\<exists>s'. os_read (kernel_os E L irqs ubuf) fd 32 s = Some (0, [], s') \<and> user_ok E s' \<and> user_screen s' = user_screen s \<and> kept s s'"
proof -
  let ?m = "fs_mem s" and ?f = "fs_sections s"
  obtain ino pos where v: "fd_view s (nat fd) = Some (Some dir_fo_jump_table, ino, pos)" "0 \<le> fd"
      and p: "unat pos < 63" and ws: "[] = dir_names ?m ?f (unat pos)"
    using dir_rest_view [OF assms(2)] by metis
  have len32: "length (file_name (uninit_dentry E)) = 32" using user_okD(1) [OF assms(1)] by (simp add: env_ok_def)
  have "find (\<lambda>j. entry_name ?m ?f j \<noteq> []) [unat pos..<63] = None"
    using ws dir_names_empty [of ?m ?f "unat pos"] by auto
  from kernel_read_dir [OF assms(1) v dir_read_at_end [OF len32 p this], of L irqs ubuf] show ?thesis by blast
qed

interpretation kdir: os_directory "kernel_os E L irqs ubuf" "user_in E s0" user_screen scr_putc user_table dir_rest
  for E L irqs ubuf s0
proof (unfold_locales, goal_cases)
  case (1 s fd w ws)
  then show ?case using kernel_read_entry [OF user_in_ok, of E s0 s fd w ws L irqs ubuf] user_in_step by blast
next
  case (2 s fd)
  then show ?case using kernel_read_end [OF user_in_ok, of E s0 s fd L irqs ubuf] user_in_step by blast
qed

lemma typed_line_short: "typed_line io = Some l \<Longrightarrow> length l \<le> BUFF_SIZE"
proof -
  assume l: "typed_line io = Some l"
  obtain v m here kb enters b where "io = ((v, m), here, kb, enters, b)" by (metis prod.exhaust)
  with l have "length kb = BUFF_SIZE" "l = takeWhile (\<lambda>c. c \<noteq> NEWLINE) kb" by (auto simp: typed_line_def split: if_splits)
  then show ?thesis using length_takeWhile_le [of "\<lambda>c. c \<noteq> NEWLINE" kb] by simp
qed

lemma kernel_read_line:
  assumes "user_ok E s" "typed_line (user_io s) = Some l" "length l \<le> n"
  shows "\<exists>s'. os_read (kernel_os E L irqs ubuf) 0 (int n) s = Some (int (length l), l, s') \<and> user_ok E s' \<and>
    user_screen s' = user_screen s \<and> kept s s' \<and> same_core s s'"
proof -
  note ok = user_okD [OF assms(1)]
  have here: "exec_term_id s = curr_term_id s" and l: "NEWLINE \<in> set (key_buff s)" "length (key_buff s) = BUFF_SIZE"
      "0 < num_enters s" "l = takeWhile (\<lambda>c. c \<noteq> NEWLINE) (key_buff s)"
      and v: "\<exists>ino pos. fd_view s 0 = Some (Some stdin_jump_table, ino, pos)"
    using assms(2) ok(3)
    by (auto simp: typed_line_def user_io_def user_table_def tty_input_def tty_ok_def tty_ids_ok_def
        split: if_splits option.splits fo_jump_table_t.splits)
  obtain ys r where ys: "key_buff s = ys @ NEWLINE # r" "NEWLINE \<notin> set ys" using split_list_first [OF l(1)] by blast
  then have "takeWhile (\<lambda>c. c \<noteq> NEWLINE) (ys @ NEWLINE # r) = ys" by (subst takeWhile_append2) auto
  then have kb: "key_buff s = l @ NEWLINE # r" "NEWLINE \<notin> set l" using ys l(4) by simp_all
  let ?s = "s\<lparr>iflag := False, num_enters := num_enters s - 1,
      key_buff := tl (r @ [beyond_key_buff E]) @ drop (length r) (replicate (Suc (length l)) 0 @ r),
      buff_index := buff_index s - (int (length l) + 1)\<rparr>"
  have rd: "terminal_read (beyond_key_buff E) irqs 0 (int n) s = Some (Read_returns (int (length l)) l ?s)"
    using assms(3) by (intro terminal_read_line [OF kb l(2) _ here l(3)]) simp
  obtain e where "rd (fd_array (pcbs s (running s))) 0 = Some e" "fd_active e" "fo_jump_table_ptr e = Some stdin_jump_table"
    using v fd_view_entry [OF ok(2)] by (metis int_ops(1))
  then have "os_read (kernel_os E L irqs ubuf) 0 (int n) s = Some (int (length l), l, gate_out ?s)"
    using rd running_pcb [OF ok(2)] ok(4) by (simp add: kernel_os_def gate_id sys_read_def)
  moreover define t where "t = gate_out ?s"
  have core: "same_core s t" by (simp add: t_def gate_out_def same_core_def sti_def cli_def)
  have scr: "tty_screen t = tty_screen s" "iflag t"
    by (simp_all add: t_def gate_out_def sti_def cli_def fun_eq_iff tty_screen_def con_view_def)
  have "tty_ids_ok t = tty_ids_ok s" "exec_term_id t = exec_term_id s"
    using core by (auto simp: same_core_def tty_ids_ok_def)
  then have "user_ok E t" "user_screen t = user_screen s"
    using assms(1) scr by (simp_all add: user_ok_def user_screen_def tty_ok_def same_core_view [OF core])
  moreover have "kept s t" by (rule same_core_view [OF core])
  ultimately show ?thesis using core unfolding t_def by blast
qed

interpretation kin: os_input "kernel_os E L irqs ubuf" "user_in E s0" user_screen scr_putc user_io typed_line
  for E L irqs ubuf s0
proof (unfold_locales, goal_cases)
  case (1 s n bs)
  then show ?case using kernel_write_out [OF user_in_ok, of E s0 s n bs L irqs ubuf] user_in_step by blast
next
  case (2 s l n)
  then show ?case using kernel_read_line [OF user_in_ok, of E s0 s l n L irqs ubuf] user_in_step by blast
qed

subsection \<open>The arguments of a program\<close>

lemma store_bytes_snoc:
  "store_bytes L va (bs @ [b]) s =
     (case store_bytes L va bs s of None \<Rightarrow> None | Some s' \<Rightarrow> store_byte L (va + of_nat (length bs)) b s')"
  by (induction bs arbitrary: va s) (auto simp: algebra_simps split: option.splits)

lemma those_map_Some: "(\<And>x. x \<in> set xs \<Longrightarrow> f x = Some (g x)) \<Longrightarrow> those (map f xs) = Some (map g xs)"
  by (induction xs) auto

lemma user_va_range:
  assumes "off + 4 < 2 ^ 22"
  shows "user_va off \<noteq> 0" "\<not> user_va off < USER_START" "\<not> USER_END - 4 \<le> user_va off"
proof -
  have "unat (user_va off) = 0x8000000 + off"
    using assms by (simp add: user_va_def unat_word_ariths unat_of_nat)
  then show "user_va off \<noteq> 0" "\<not> user_va off < USER_START" "\<not> USER_END - 4 \<le> user_va off"
    using assms by (auto simp: word_less_nat_alt word_le_nat_alt)
qed

lemma getargs_stores:
  assumes "fd_ok s" "program_frame L s r" "2 \<le> r" "r < 1024" "off + 1024 \<le> 2 ^ 22"
  defines "args \<equiv> pcb_args (pcbs s (running s))"
  assumes "0 \<in> set args" "cstr args \<noteq> []"
  shows "getargs L (user_va off) 1024 s = Some (0, s\<lparr>user_mem := overlay r off (cstr args @ [0]) (user_mem s)\<rparr>)"
proof -
  let ?w = "cstr args"
  have len: "length ?w < 128"
    using cstr_less_length [OF assms(7)] running_shape [OF assms(1), of "running s"] by (simp add: args_def pcb_shape_def)
  have "take (length ?w) args = ?w"
    using cstr_decomp [OF assms(7)] append_eq_conv_conj [of ?w] by metis
  moreover have "store_bytes L (user_va off) (?w @ [0]) s = Some (s\<lparr>user_mem := overlay r off (?w @ [0]) (user_mem s)\<rparr>)"
    using len assms(5) by (intro store_bytes_overlay [OF assms(2-4)]) simp
  ultimately show ?thesis
    using running_pcb [OF assms(1)] strlen_cstr [OF assms(7)] assms(8) len user_va_range [of off] assms(5)
    unfolding getargs_def args_def [symmetric] store_bytes_snoc
    by (simp add: args_def [symmetric] Let_def split: option.splits)
qed

lemma kernel_getargs:
  assumes "user_ok E s" "program_frame L s r" "2 \<le> r" "r < 1024" "off + 1024 \<le> 2 ^ 22"
  defines "args \<equiv> pcb_args (pcbs s (running s))"
  assumes "0 \<in> set args" "cstr args \<noteq> []"
  shows "\<exists>t m. os_getargs (kernel_os E L irqs (user_va off)) 1024 s = Some (0, cstr args @ 0 # t, s\<lparr>user_mem := m\<rparr>) \<and>
    length (cstr args @ 0 # t) = 1024 \<and> (\<forall>pa. drop_bit 22 pa \<noteq> word_of_int r \<longrightarrow> m pa = user_mem s pa)"
proof -
  note ok = user_okD [OF assms(1)]
  let ?w = "cstr args @ [0]"
  let ?m = "overlay r off ?w (user_mem s)"
  let ?s = "s\<lparr>user_mem := ?m\<rparr>"
  let ?g = "\<lambda>i. the (user_load L ?s (user_va (off + i)))"
  have "program_frame L ?s r" using assms(2) by simp
  then have load: "user_load L ?s (user_va (off + i)) = Some (?g i)" if "i < 1024" for i
    using user_va_parts(1) [of "off + i"] that assms(5) by (simp add: user_load_def program_frame_def)
  have va: "user_va off + of_nat i = user_va (off + i)" for i by (simp add: user_va_def algebra_simps)
  have buf: "those (map (\<lambda>i. user_load L ?s (user_va off + of_nat i)) [0..<1024]) = Some (map ?g [0..<1024])"
    unfolding va by (rule those_map_Some) (use load in \<open>simp del: upt_rec_numeral\<close>)
  have len: "length ?w \<le> 128"
    using cstr_less_length [OF assms(7)] running_shape [OF ok(2), of "running s"] by (simp add: args_def pcb_shape_def)
  have "?g i = ?w ! i" if "i < length ?w" for i
    using user_load_overlay [OF assms(2) _ assms(4), of off i ?w "user_mem s"] that len assms(3,5) by simp
  then have "take (length ?w) (map ?g [0..<1024]) = ?w"
    using len by (intro nth_equalityI) (simp_all del: upt_rec_numeral)
  then obtain t where t: "map ?g [0..<1024] = ?w @ t" by (metis append_take_drop_id)
  have "getargs L (user_va off) 1024 s = Some (0, ?s)"
    using getargs_stores [OF ok(2) assms(2-5)] assms(7,8) by (simp add: args_def)
  then have "os_getargs (kernel_os E L irqs (user_va off)) 1024 s = Some (0, map ?g [0..<1024], ?s)"
    using buf ok(4) by (simp add: kernel_os_def gate_id del: upt_rec_numeral)
  moreover have "length (?w @ t) = 1024" unfolding t [symmetric] by simp
  moreover have "?m pa = user_mem s pa" if "drop_bit 22 pa \<noteq> word_of_int r" for pa
    by (rule overlay_other_frame [OF that])
  ultimately show ?thesis unfolding t by auto
qed

subsection \<open>Opening\<close>

lemma user_mem_upd_user:
  "user_ok E (s\<lparr>user_mem := m\<rparr>) = user_ok E s" "user_screen (s\<lparr>user_mem := m\<rparr>) = user_screen s"
  "user_table (s\<lparr>user_mem := m\<rparr>) = user_table s" "lookup_name (s\<lparr>user_mem := m\<rparr>) = lookup_name s"
  "free_fd (s\<lparr>user_mem := m\<rparr>) = free_fd s"
proof -
  have v: "fd_view (s\<lparr>user_mem := m\<rparr>) = fd_view s"
    by (simp add: fd_view_def running_def get_current_executing_pcb_def fun_eq_iff)
  show "user_ok E (s\<lparr>user_mem := m\<rparr>) = user_ok E s"
    by (simp add: user_ok_def v fd_ok_def proc_inv_def proc_chains_def tty_ids_ok_def tty_ok_def tty_screen_def con_view_def)
  show "user_screen (s\<lparr>user_mem := m\<rparr>) = user_screen s"
    by (simp add: user_screen_def tty_screen_def con_view_def)
  show "user_table (s\<lparr>user_mem := m\<rparr>) = user_table s" "lookup_name (s\<lparr>user_mem := m\<rparr>) = lookup_name s"
    "free_fd (s\<lparr>user_mem := m\<rparr>) = free_fd s"
    by (simp_all add: user_table_def v lookup_name_def fun_eq_iff free_fd_def)
qed

lemma kernel_open:
  assumes "user_ok E s" "0 \<in> set fname" "lookup_name s fname = Some j" "free_fd s = Some i"
    and "type_entry (dentry_at (fs_mem s) (fs_sections s) j (uninit_dentry E)) = Some (jt, ino)"
  obtains t where "os_open (kernel_os E L irqs ubuf) fname s = Some (int i, t)" "user_ok E t"
    "user_screen t = user_screen s"
    "user_table t = ((fd_view s)(i \<mapsto> (Some jt, ino, 0)), fs_mem s, fs_sections s)" "kept s t" "only_pcbs s t"
proof -
  note ok = user_okD [OF assms(1)]
  obtain t where t: "sys_open E (Some fname) s = Some (int i, t)" "fd_ok t" "fd_view t = (fd_view s)(i \<mapsto> (Some jt, ino, 0))"
    using sys_open_cases [OF ok(2,1) assms(2-5)] by blast
  have "i \<noteq> 1" using free_fd_range [OF assms(4)] by simp
  then have "user_ok E t" "user_screen t = user_screen s" "iflag t" "fs_mem t = fs_mem s" "fs_sections t = fs_sections s"
    using only_pcbs_user [OF assms(1) fd_calls_pcbs(1) [OF t(1)] t(2)] t(3) by auto
  moreover have "kept s t" by (rule only_pcbs_kept [OF ok(2) fd_calls_pcbs(1) [OF t(1)] t(2)])
  ultimately show ?thesis using that [of t] t ok(4) fd_calls_pcbs(1) [OF t(1)] by (simp add: kernel_os_def through_gate_def gate_id user_table_def)
qed

lemma kernel_open_missing:
  assumes "user_ok E s" "0 \<in> set fname" "lookup_name s fname = None"
  shows "os_open (kernel_os E L irqs ubuf) fname s = Some (- 1, s)"
  using sys_open_missing [OF user_okD(1) [OF assms(1)] assms(2,3)] user_okD(4) [OF assms(1)]
  by (simp add: kernel_os_def through_gate_def gate_id)

subsection \<open>Closing\<close>

lemma lookup_name_fs: "fs_mem t = fs_mem s \<Longrightarrow> fs_sections t = fs_sections s \<Longrightarrow> lookup_name t = lookup_name s"
  by (rule ext) (simp add: lookup_name_def)

text \<open>The screen and the disk stay as they are.\<close>

definition same_disk :: "'a kstate_scheme \<Rightarrow> 'a kstate_scheme \<Rightarrow> bool" where
  "same_disk s t \<longleftrightarrow> user_screen t = user_screen s \<and> fs_mem t = fs_mem s \<and> fs_sections t = fs_sections s"

lemma same_disk_trans: "same_disk s t \<Longrightarrow> same_disk t u \<Longrightarrow> same_disk s u"
  by (simp add: same_disk_def)

lemma same_disk_lookup: "same_disk s t \<Longrightarrow> lookup_name t = lookup_name s"
  by (rule lookup_name_fs) (simp_all add: same_disk_def)

lemma kernel_close:
  assumes "user_ok E s" "2 \<le> i" "fd_view s i \<noteq> None"
  obtains t where "os_close (kernel_os E L irqs ubuf) (int i) s = Some (0, t)" "user_ok E t" "same_disk s t"
    "fd_view t = (fd_view s)(i := None)" "kept s t" "only_pcbs s t"
proof -
  note ok = user_okD [OF assms(1)]
  obtain t where t: "sys_close (int i) s = Some (0, t)" "fd_ok t" "fd_view t = (fd_view s)(i := None)"
    using descriptors.close_law [of "(E, s)" i] ok assms(2,3) by auto
  have "user_ok E t" "same_disk s t" "iflag t"
    using only_pcbs_user [OF assms(1) fd_calls_pcbs(2) [OF t(1)] t(2)] t(3) assms(2) by (auto simp: same_disk_def)
  moreover have "kept s t" by (rule only_pcbs_kept [OF ok(2) fd_calls_pcbs(2) [OF t(1)] t(2)])
  ultimately show ?thesis using that t ok(4) fd_calls_pcbs(2) [OF t(1)] by (simp add: kernel_os_def through_gate_def gate_id)
qed

subsection \<open>Programs on the kernel\<close>

lemma cat_runs:
  assumes "user_ok E s" "program_frame L s r" "2 \<le> r" "r < 1024" "off + 1024 \<le> 2 ^ 22"
    and "0 \<in> set (pcb_args (pcbs s (running s)))" "lookup_name s (pcb_args (pcbs s (running s))) = Some j"
    and "free_fd s = Some i"
    and "type_entry (dentry_at (fs_mem s) (fs_sections s) j (uninit_dentry E)) = Some (file_fo_jump_table, ino)"
    and "inode_ok (fs_mem s) (fs_sections s) ino"
  shows "\<exists>s' m. cat_main (kernel_os E L irqs (user_va off)) s = Some (0, s') \<and> user_in E (s\<lparr>user_mem := m\<rparr>) s' \<and>
    (\<forall>pa. drop_bit 22 pa \<noteq> word_of_int r \<longrightarrow> m pa = user_mem s pa) \<and>
    user_screen s' = fold scr_putc (contents (fs_mem s) (fs_sections s) ino) (user_screen s)"
proof -
  let ?args = "pcb_args (pcbs s (running s))" and ?os = "kernel_os E L irqs (user_va off)"
  have "cstr ?args \<noteq> []" using assms(7) by (auto simp: lookup_name_def)
  then obtain t m where g: "os_getargs ?os 1024 s = Some (0, cstr ?args @ 0 # t, s\<lparr>user_mem := m\<rparr>)"
      "length (cstr ?args @ 0 # t) = 1024" "\<forall>pa. drop_bit 22 pa \<noteq> word_of_int r \<longrightarrow> m pa = user_mem s pa"
    using kernel_getargs [OF assms(1-6)] by blast
  let ?buf = "cstr ?args @ 0 # t" and ?s = "s\<lparr>user_mem := m\<rparr>"
  have "cstr ?buf = cstr ?args" using cstr_no_zero by (rule cstr_append_zero)
  then have look: "lookup_name ?s ?buf = Some j" using assms(7) lookup_name_cstr by (metis user_mem_upd_user(4))
  have ok: "user_ok E ?s" "free_fd ?s = Some i" using assms(1,8) by (simp_all add: user_mem_upd_user)
  obtain u where u: "os_open ?os ?buf ?s = Some (int i, u)" "user_ok E u" "user_screen u = user_screen ?s"
      "user_table u = ((fd_view ?s)(i \<mapsto> (Some file_fo_jump_table, ino, 0)), fs_mem ?s, fs_sections ?s)" "kept ?s u"
    by (rule kernel_open [OF ok(1) _ look ok(2)]) (use assms(9) in simp_all)
  have tab: "file_rest (user_table u) (int i) = Some (contents (fs_mem s) (fs_sections s) ino)"
    using assms(10) unfolding u(4) by (simp add: file_rest_at)
  have "user_in E ?s u" using u(2,5) by (simp add: user_in_def)
  from kfiles.cat_prints [OF this tab g(2)] obtain v where "cat_loop ?os (int i) ?buf u = Some (0, v)" "user_in E ?s v"
      "user_screen v = fold scr_putc (contents (fs_mem s) (fs_sections s) ino) (user_screen u)"
    by blast
  then show ?thesis using g(1,3) u by (intro exI [of _ v] exI [of _ m]) (simp add: cat_main_def user_mem_upd_user)
qed

text \<open>
  C8: \<open>cat\<close> started with the name of a file: it fetches the name with \<open>getargs\<close>, opens the file,
  copies it to the terminal 1024 bytes at a time, ends with status 0, and the screen of its terminal
  shows the contents of the file, all of it and nothing else.
\<close>

theorem cat_prints_file:
  assumes "user_ok E s" "program_frame L s r" "2 \<le> r" "r < 1024" "off + 1024 \<le> 2 ^ 22"
    and "0 \<in> set (pcb_args (pcbs s (running s)))" "lookup_name s (pcb_args (pcbs s (running s))) = Some j"
    and "free_fd s = Some i"
    and "type_entry (dentry_at (fs_mem s) (fs_sections s) j (uninit_dentry E)) = Some (file_fo_jump_table, ino)"
    and "inode_ok (fs_mem s) (fs_sections s) ino"
  shows "\<exists>s'. cat_main (kernel_os E L irqs (user_va off)) s = Some (0, s') \<and> user_ok E s' \<and>
    user_screen s' = fold scr_putc (contents (fs_mem s) (fs_sections s) ino) (user_screen s)"
  using cat_runs [OF assms] by (blast dest: user_in_ok)

text \<open>
  C16: On a directory whose last entry (the 63rd) is not in use and whose type fields are below 2^24,
  \<open>ls\<close> prints the name of every entry in use, in order and one to a line, and ends with status 0. The
  condition is needed: with the 63rd entry in use \<open>dir_read\<close> returns a length that was never set
  (\<open>fs.c\<close>, line 232).
\<close>

theorem ls_lists_directory:
  assumes "user_ok E s" "lookup_name s (lit ''.'') = Some j" "free_fd s = Some i"
    and "type_entry (dentry_at (fs_mem s) (fs_sections s) j (uninit_dentry E)) = Some (dir_fo_jump_table, ino)"
    and "dir_plain (fs_mem s) (fs_sections s)" "length buf = 33"
  shows "\<exists>s'. ls_main (kernel_os E L irqs ubuf) buf s = Some (0, s') \<and> user_ok E s' \<and>
    user_screen s' = fold scr_putc (concat (map (\<lambda>w. w @ [10]) (dir_names (fs_mem s) (fs_sections s) 0))) (user_screen s)"
proof -
  have "0 \<in> set (lit ''.'')" by (simp add: lit_def)
  then obtain u where u: "os_open (kernel_os E L irqs ubuf) (lit ''.'') s = Some (int i, u)" "user_ok E u"
      "user_screen u = user_screen s"
      "user_table u = ((fd_view s)(i \<mapsto> (Some dir_fo_jump_table, ino, 0)), fs_mem s, fs_sections s)"
    using kernel_open [OF assms(1) _ assms(2-4)] by metis
  have "dir_rest (user_table u) (int i) = Some (dir_names (fs_mem s) (fs_sections s) 0)"
    using assms(5) unfolding u(4) by (simp add: dir_rest_def)
  from kdir.ls_prints [OF user_in_refl [OF u(2)] this assms(6), of L irqs ubuf] show ?thesis
    using u(1,3) by (auto simp: ls_main_def user_in_def)
qed

text \<open>
  \<open>counter\<close> started when one of its choices was typed: it prints its question and then the numbers
  1 to 100, 10000 or 100000 in decimal, in order and one to a line, and returns 0.
\<close>

lemma counter_counts:
  assumes "user_ok E s" "typed_line (user_io s) = Some [c]" "c \<in> {48, 49, 50}" "length buf = 1024"
  shows "\<exists>s'. counter_main (kernel_os E L irqs ubuf) buf s = Some (0, s') \<and> user_ok E s' \<and>
    user_screen s' = fold scr_putc (bytes ''Enter the Test Number: (0): 100, (1): 10000, (2): 100000\<newline>'' @
      concat (map (\<lambda>k. num_text 10 (of_nat k) @ [10]) [1..<Suc (if c = 48 then 100 else if c = 49 then 10000 else 100000)]))
      (user_screen s)"
proof -
  have "unat (counter_max c) = (if c = 48 then 100 else if c = 49 then 10000 else 100000)"
    using assms(3) by (auto simp: counter_max_def)
  then show ?thesis
    using kin.counter_main_prints [OF user_in_refl [OF assms(1)] assms(2-4), of L irqs ubuf] user_in_ok
    by (simp only: count_text_def One_nat_def) blast
qed

text \<open>
  \<open>hello\<close> asks for a name and greets the line that was typed, as it was typed.
\<close>

lemma hello_greets:
  assumes "user_ok E s" "typed_line (user_io s) = Some l" "0 \<notin> set l" "length buf = 1024"
  shows "\<exists>s'. hello_main (kernel_os E L irqs ubuf) buf s = Some (0, s') \<and> user_ok E s' \<and>
    user_screen s' = fold scr_putc (bytes ''Hi, what's your name? '' @ bytes ''Hello, '' @ l) (user_screen s)"
proof -
  have "length l \<le> 1023" using typed_line_short [OF assms(2)] by simp
  from kin.hello_prints [OF user_in_refl [OF assms(1)] assms(2) this assms(4,3), of L irqs ubuf] show ?thesis
    using user_in_ok by blast
qed

end
