(* ===== verification/User_Tests.thy ===== *)
theory User_Tests
  imports User_Kernel
begin

text \<open>
  The system call tests of \<open>src/syscalls/ece391syserr.c\<close> run on the kernel: each test passes, and
  what they print is the text the program is meant to print.
\<close>

subsection \<open>Calls that fail\<close>

abbreviation user_prints :: "env \<Rightarrow> u8 list \<Rightarrow> 'a kstate_scheme \<Rightarrow> 'a kstate_scheme \<Rightarrow> bool" where
  "user_prints E \<equiv> os_output.printed (user_ok E) user_screen scr_putc user_table"

lemma kernel_bad_fd:
  assumes "user_ok E s" "fd < 0 \<or> fd_view s (nat fd) = None"
  shows "os_read (kernel_os E L irqs ubuf) fd n s = Some (- 1, [], s)"
    "os_write (kernel_os E L irqs ubuf) fd bs n s = Some (- 1, s)"
    "os_close (kernel_os E L irqs ubuf) fd s = Some (- 1, s)"
  using bad_fd_calls [OF user_okD(2) [OF assms(1)] assms(2)] user_okD(4) [OF assms(1)]
  by (simp_all add: kernel_os_def through_gate_def gate_id)

lemma fd_view_beyond: "fd_ok s \<Longrightarrow> FD_ARRAY_LEN \<le> i \<Longrightarrow> fd_view s i = None"
  using running_shape [of s "running s"] by (simp add: fd_view_def pcb_shape_def Let_def)

lemma kernel_close_std: "user_ok E s \<Longrightarrow> fd < 2 \<Longrightarrow> os_close (kernel_os E L irqs ubuf) fd s = Some (- 1, s)"
  by (simp add: kernel_os_def through_gate_def gate_id user_okD sys_close_def)

lemma kernel_vidmap_refused:
  "user_ok E s \<Longrightarrow> a < USER_START \<Longrightarrow> os_vidmap (kernel_os E L irqs ubuf) a s = Some (- 1, s)"
  by (simp add: kernel_os_def through_gate_def gate_id user_okD vidmap_def not_le [symmetric])

lemma kernel_bad_number:
  "user_ok E s \<Longrightarrow> n < 1 \<or> 10 < n \<Longrightarrow> os_call (kernel_os E L irqs ubuf) n s = Some (- 1, s)"
  by (auto simp: kernel_os_def syscall_number_def gate_id user_okD)

lemma kernel_std_wrong_way:
  assumes "user_ok E s"
  shows "fd_view s 0 = Some (Some stdin_jump_table, ino, pos) \<Longrightarrow> 0 \<le> n \<Longrightarrow>
      os_write (kernel_os E L irqs ubuf) 0 bs n s = Some (- 1, s)"
    "0 \<le> n \<Longrightarrow> os_read (kernel_os E L irqs ubuf) 1 n s = Some (- 1, [], s)"
proof -
  note ok = user_okD [OF assms]
  assume n: "0 \<le> n"
  obtain ino' pos' where v1: "fd_view s 1 = Some (Some stdout_jump_table, ino', pos')" using assms by (auto simp: user_ok_def)
  obtain e where "rd (fd_array (pcbs s (running s))) 1 = Some e" "fd_active e" "fo_jump_table_ptr e = Some stdout_jump_table"
    using fd_view_entry [OF ok(2) v1] by (metis of_nat_1)
  then show "os_read (kernel_os E L irqs ubuf) 1 n s = Some (- 1, [], s)"
    using running_pcb [OF ok(2)] ok(4) n by (simp add: kernel_os_def gate_id sys_read_def read_no_op_def)
  assume v0: "fd_view s 0 = Some (Some stdin_jump_table, ino, pos)"
  obtain e where "rd (fd_array (pcbs s (running s))) 0 = Some e" "fd_active e" "fo_jump_table_ptr e = Some stdin_jump_table"
    using fd_view_entry [OF ok(2) v0] by (metis int_ops(1))
  then show "os_write (kernel_os E L irqs ubuf) 0 bs n s = Some (- 1, s)"
    using running_pcb [OF ok(2)] ok(4) n
    by (simp add: kernel_os_def gate_id through_gate_def sys_write_def write_no_op_def)
qed

subsection \<open>Opening all descriptors\<close>

text \<open>A program with the two standard descriptors open and the directory \<open>"."\<close> on the disk.\<close>

definition test_ready :: "env \<Rightarrow> 'a kstate_scheme \<Rightarrow> bool" where
  "test_ready E s \<longleftrightarrow> user_ok E s \<and> (\<forall>i\<in>{2..<8}. fd_view s i = None) \<and>
     (\<exists>ino pos. fd_view s 0 = Some (Some stdin_jump_table, ino, pos)) \<and>
     (\<exists>j ino. lookup_name s (lit ''.'') = Some j \<and>
        type_entry (dentry_at (fs_mem s) (fs_sections s) j (uninit_dentry E)) = Some (dir_fo_jump_table, ino)) \<and>
     lookup_name s (lit ''helloo'') = None \<and> lookup_name s (lit ''shel'') = None"

lemma test_ready_cong:
  assumes "test_ready E s" "user_ok E t" "user_table t = user_table s"
  shows "test_ready E t"
proof -
  have "fd_view t = fd_view s" "fs_mem t = fs_mem s" "fs_sections t = fs_sections s" "lookup_name t = lookup_name s"
    using assms(3) lookup_name_fs [of t s] by (simp_all add: user_table_def)
  then show ?thesis using assms(1,2) by (simp add: test_ready_def)
qed

lemma test_ready_prints: "test_ready E s \<Longrightarrow> user_prints E w s t \<Longrightarrow> test_ready E t"
  using test_ready_cong by (auto simp: kout.printed_def)

lemma free_fd_first:
  assumes "2 \<le> n" "n < 8" "fd_view s n = None" "\<And>i. 2 \<le> i \<Longrightarrow> i < n \<Longrightarrow> fd_view s i \<noteq> None"
  shows "free_fd s = Some n"
proof -
  obtain k where k: "n = 2 + k" using assms(1) le_Suc_ex by blast
  have "fd_view s (2 + i) \<noteq> None" if "i < k" for i using assms(4) [of "2 + i"] that k by simp
  then show ?thesis
    unfolding free_fd_def find_Some_iff using assms(2,3) k by (intro exI [of _ k]) (simp del: upt_rec_numeral)
qed

lemma kernel_open_full:
  assumes "user_ok E s" "0 \<in> set fname" "\<And>i. 2 \<le> i \<Longrightarrow> i < 8 \<Longrightarrow> fd_view s i \<noteq> None"
  shows "os_open (kernel_os E L irqs ubuf) fname s = Some (- 1, s)"
proof -
  have "free_fd s = None" using free_fd_range [of s] assms(3) by (metis option.exhaust)
  from sys_open_full [OF user_okD(2,1) [OF assms(1)] assms(2) this]
  show ?thesis using user_okD(4) [OF assms(1)] by (simp add: kernel_os_def through_gate_def gate_id)
qed

lemma open_lots_fills:
  assumes "user_ok E s" "lookup_name s (lit ''.'') = Some j"
    and "type_entry (dentry_at (fs_mem s) (fs_sections s) j (uninit_dentry E)) = Some (jt, ino)"
    and "2 \<le> n" "n \<le> 8" "\<And>i. 2 \<le> i \<Longrightarrow> i < 8 \<Longrightarrow> fd_view s i = None \<longleftrightarrow> n \<le> i"
  shows "\<exists>t. open_lots (kernel_os E L irqs ubuf) (Suc (8 - n)) cnt s = Some (Suc cnt, t) \<and> user_ok E t \<and>
    same_disk s t \<and> (\<forall>i. fd_view t i = (if n \<le> i \<and> i < 8 then Some (Some jt, ino, 0) else fd_view s i))"
  using assms
proof (induction "8 - n" arbitrary: n s)
  case 0
  then have "os_open (kernel_os E L irqs ubuf) (lit ''.'') s = Some (- 1, s)"
    by (intro kernel_open_full) (auto simp: lit_def)
  then show ?case using 0 by (auto simp: same_disk_def)
next
  case (Suc k)
  have n8: "n < 8" "Suc (8 - Suc n) = 8 - n" using Suc.hyps(2) by simp_all
  have "free_fd s = Some n" using Suc.prems(4,6) n8 by (intro free_fd_first) auto
  then obtain u where u: "os_open (kernel_os E L irqs ubuf) (lit ''.'') s = Some (int n, u)" "user_ok E u"
      "user_screen u = user_screen s" "user_table u = ((fd_view s)(n \<mapsto> (Some jt, ino, 0)), fs_mem s, fs_sections s)"
    using kernel_open [OF Suc.prems(1) _ Suc.prems(2) _ Suc.prems(3), of n L irqs ubuf] by (auto simp: lit_def)
  then have v: "fd_view u = (fd_view s)(n \<mapsto> (Some jt, ino, 0))" "same_disk s u" by (simp_all add: user_table_def same_disk_def)
  have look: "lookup_name u (lit ''.'') = Some j"
      "type_entry (dentry_at (fs_mem u) (fs_sections u) j (uninit_dentry E)) = Some (jt, ino)"
    using Suc.prems(2,3) v(2) by (simp_all add: same_disk_lookup [OF v(2)] same_disk_def)
  have free: "fd_view u i = None \<longleftrightarrow> Suc n \<le> i" if "2 \<le> i" "i < 8" for i
    using Suc.prems(6) [OF that] v(1) by auto
  have "2 \<le> Suc n" "Suc n \<le> 8" "k = 8 - Suc n" using Suc.hyps(2) Suc.prems(4) by simp_all
  from Suc.hyps(1) [OF this(3) u(2) look this(1,2) free] obtain t where
    t: "open_lots (kernel_os E L irqs ubuf) (Suc (8 - Suc n)) cnt u = Some (Suc cnt, t)" "user_ok E t"
      "same_disk u t" "\<forall>i. fd_view t i = (if Suc n \<le> i \<and> i < 8 then Some (Some jt, ino, 0) else fd_view u i)"
    by blast
  have "open_lots (kernel_os E L irqs ubuf) (Suc (8 - n)) cnt s = Some (Suc cnt, t)"
    using u(1) t(1) unfolding n8(2) by simp
  then show ?case using t v n8 same_disk_trans [OF v(2) t(3)] by auto
qed

lemma close_fds_closes:
  assumes "user_ok E s" "distinct is" "\<And>i. i \<in> set is \<Longrightarrow> 2 \<le> i \<and> fd_view s (nat i) \<noteq> None"
  shows "\<exists>t. close_fds (kernel_os E L irqs ubuf) is s = Some t \<and> user_ok E t \<and> same_disk s t \<and>
    (\<forall>i. fd_view t i = (if int i \<in> set is then None else fd_view s i))"
  using assms
proof (induction "is" arbitrary: s)
  case Nil
  then show ?case by (simp add: same_disk_def)
next
  case (Cons i "is")
  have i: "2 \<le> i" "fd_view s (nat i) \<noteq> None" using Cons.prems(3) [of i] by simp_all
  then have "int (nat i) = i" "2 \<le> nat i" by simp_all
  then obtain u where u: "os_close (kernel_os E L irqs ubuf) i s = Some (0, u)" "user_ok E u" "same_disk s u"
      "fd_view u = (fd_view s)(nat i := None)"
    using kernel_close [OF Cons.prems(1) _ i(2), of L irqs ubuf] by auto
  have "fd_view u (nat k) \<noteq> None" if "k \<in> set is" for k
  proof -
    have "2 \<le> k" "k \<noteq> i" using that Cons.prems(2,3) by auto
    then have "nat k \<noteq> nat i" using i(1) by (simp add: eq_nat_nat_iff)
    then show ?thesis using Cons.prems(3) [of k] that u(4) by simp
  qed
  then obtain t where t: "close_fds (kernel_os E L irqs ubuf) is u = Some t" "user_ok E t" "same_disk u t"
      "\<forall>k. fd_view t k = (if int k \<in> set is then None else fd_view u k)"
    using Cons.IH [OF u(2)] Cons.prems(2,3) by auto
  then show ?case using u i same_disk_trans [OF u(3) t(3)] by (auto simp: nat_int_comparison(1))
qed

subsection \<open>The tests\<close>

lemma expect_error_failed: "expect_error OS msg fail (Some (- 1, t)) = Some (fail, t)"
  by (simp add: expect_error_def)

lemma expect_errors_failed:
  "(\<And>i. i \<in> set is \<Longrightarrow> call i s = Some (- 1, s)) \<Longrightarrow> expect_errors OS msg call is fail s = Some (fail, s)"
  by (induction "is") (simp_all add: expect_error_failed)

context os_output
begin

lemma verdict_pass:
  assumes "ok s" "0 \<notin> set (bytes (test_name @ '': PASS\<newline>''))"
  shows "\<exists>t. verdict OS test_name 0 s = Some (0, t) \<and> printed (bytes (test_name @ '': PASS\<newline>'')) s t"
proof -
  obtain t where "ece391_fdputs OS 1 (lit (test_name @ '': PASS\<newline>'')) s = Some t"
      "printed (bytes (test_name @ '': PASS\<newline>'')) s t"
    by (rule fdputs_lit [OF assms])
  then show ?thesis by (simp add: verdict_def)
qed

end

lemma bytes_append: "bytes (v @ w) = bytes v @ bytes w"
  by (simp add: bytes_def)

text \<open>The bytes of a literal text, none of them NUL.\<close>

lemmas lit_simps = bytes_def of_char_def

lemma err_fd_passes:
  assumes "user_ok E s" "fd < 0 \<or> fd_view s (nat fd) = None" "0 \<notin> set (bytes (test_name @ '': PASS\<newline>''))"
  shows "\<exists>t. err_fd (kernel_os E L irqs ubuf) b fd test_name s = Some (0, t) \<and>
    user_prints E (bytes (test_name @ '': PASS\<newline>'')) s t"
  using kout.verdict_pass [OF assms(1,3), of L irqs ubuf] kernel_bad_fd [OF assms(1,2)]
  by (simp add: err_fd_def read_32_def expect_error_failed)

lemma err_neg_fd_passes:
  assumes "test_ready E s"
  shows "\<exists>t. err_neg_fd (kernel_os E L irqs ubuf) b s = Some (0, t) \<and> user_prints E (bytes ''err_neg_fd: PASS\<newline>'') s t"
  using err_fd_passes [of E s NEG_FD "''err_neg_fd''" L irqs ubuf b] assms
  by (simp add: err_neg_fd_def NEG_FD_def test_ready_def lit_simps)

lemma err_big_fd_passes:
  assumes "test_ready E s"
  shows "\<exists>t. err_big_fd (kernel_os E L irqs ubuf) b s = Some (0, t) \<and> user_prints E (bytes ''err_big_fd: PASS\<newline>'') s t"
proof -
  have ok: "user_ok E s" using assms by (simp add: test_ready_def)
  have "fd_view s (nat BIG_FD) = None" by (rule fd_view_beyond) (simp_all add: user_okD [OF ok] BIG_FD_def)
  then show ?thesis
    using err_fd_passes [OF ok, of BIG_FD "''err_big_fd''" L irqs ubuf b] by (simp add: err_big_fd_def lit_simps)
qed

lemma err_open_passes:
  assumes "test_ready E s"
  shows "\<exists>t. err_open (kernel_os E L irqs ubuf) s = Some (0, t) \<and> user_prints E (bytes ''err_open: PASS\<newline>'') s t"
proof -
  have ok: "user_ok E s" using assms by (simp add: test_ready_def)
  have "lookup_name s (lit []) = None" by (simp add: lookup_name_def lit_def bytes_def cstr_simps)
  then have "os_open (kernel_os E L irqs ubuf) (lit w) s = Some (- 1, s)" if "w = ''helloo'' \<or> w = ''shel'' \<or> w = []" for w
    using that assms by (intro kernel_open_missing [OF ok]) (auto simp: test_ready_def lit_def)
  then show ?thesis
    using kout.verdict_pass [OF ok, of "''err_open''" L irqs ubuf]
    by (simp add: err_open_def expect_error_failed lit_simps)
qed

lemma err_unopened_passes:
  assumes "test_ready E s"
  shows "\<exists>t. err_unopened (kernel_os E L irqs ubuf) b s = Some (0, t) \<and> user_prints E (bytes ''err_unopened: PASS\<newline>'') s t"
proof -
  let ?os = "kernel_os E L irqs ubuf"
  have ok: "user_ok E s" using assms by (simp add: test_ready_def)
  have un: "fd_view s (nat i) = None" if "i \<in> {2, 3, 4, 5, 6, 7}" for i using that assms by (auto simp: test_ready_def)
  have c: "os_close ?os i s = Some (- 1, s)" if "i \<in> set [0, 1, 2, 3, 4, 5, 6, 7]" for i
    using kernel_close_std [OF ok, of i L irqs ubuf] kernel_bad_fd(3) [OF ok, of i L irqs ubuf] un [of i] that by (cases "i < 2") auto
  have r: "read_32 ?os i s = Some (- 1, s)" and w: "os_write ?os i b 31 s = Some (- 1, s)" if "i \<in> set [2, 3, 4, 5, 6, 7]" for i
    using kernel_bad_fd(1,2) [OF ok, of i L irqs ubuf] un [of i] that by (simp_all add: read_32_def)
  have "expect_errors ?os m (os_close ?os) [0, 1, 2, 3, 4, 5, 6, 7] f s = Some (f, s)"
    "expect_errors ?os m (read_32 ?os) [2, 3, 4, 5, 6, 7] f s = Some (f, s)"
    "expect_errors ?os m (\<lambda>i. os_write ?os i b 31) [2, 3, 4, 5, 6, 7] f s = Some (f, s)" for m f
    by (rule expect_errors_failed, erule c r w)+
  then show ?thesis
    using kout.verdict_pass [OF ok, of "''err_unopened''" L irqs ubuf]
    by (simp add: err_unopened_def lit_simps del: expect_errors.simps)
qed

lemma err_vidmap_passes:
  assumes "test_ready E s"
  shows "\<exists>t. err_vidmap (kernel_os E L irqs ubuf) s = Some (0, t) \<and> user_prints E (bytes ''err_vidmap: PASS\<newline>'') s t"
proof -
  have ok: "user_ok E s" using assms by (simp add: test_ready_def)
  then show ?thesis
    using kout.verdict_pass [OF ok, of "''err_vidmap''" L irqs ubuf]
    by (simp add: err_vidmap_def kernel_vidmap_refused expect_error_failed lit_simps)
qed

lemma err_stdin_out_passes:
  assumes "test_ready E s"
  shows "\<exists>t. err_stdin_out (kernel_os E L irqs ubuf) b s = Some (0, t) \<and> user_prints E (bytes ''err_stdin_out: PASS\<newline>'') s t"
proof -
  have ok: "user_ok E s" using assms by (simp add: test_ready_def)
  moreover have "\<exists>ino pos. fd_view s 0 = Some (Some stdin_jump_table, ino, pos)" using assms by (simp add: test_ready_def)
  ultimately show ?thesis
    using kout.verdict_pass [OF ok, of "''err_stdin_out''" L irqs ubuf]
    by (auto simp: err_stdin_out_def kernel_std_wrong_way read_32_def expect_error_failed lit_simps)
qed

lemma err_syscall_num_passes:
  assumes "test_ready E s"
  shows "\<exists>t. err_syscall_num (kernel_os E L irqs ubuf) s = Some (0, t) \<and> user_prints E (bytes ''err_syscall_num: PASS\<newline>'') s t"
proof -
  have ok: "user_ok E s" using assms by (simp add: test_ready_def)
  then show ?thesis
    using kout.verdict_pass [OF ok, of "''err_syscall_num''" L irqs ubuf]
    by (simp add: err_syscall_num_def kernel_bad_number expect_error_failed lit_simps)
qed

lemma err_open_lots_passes:
  assumes "test_ready E s"
  shows "\<exists>t. err_open_lots (kernel_os E L irqs ubuf) s = Some (0, t) \<and> user_prints E (bytes ''err_open_lots: PASS\<newline>'') s t"
proof -
  let ?os = "kernel_os E L irqs ubuf"
  have ok: "user_ok E s" and un: "\<And>i. 2 \<le> i \<Longrightarrow> i < 8 \<Longrightarrow> fd_view s i = None \<longleftrightarrow> 2 \<le> i" using assms by (auto simp: test_ready_def)
  obtain j ino where j: "lookup_name s (lit ''.'') = Some j"
      "type_entry (dentry_at (fs_mem s) (fs_sections s) j (uninit_dentry E)) = Some (dir_fo_jump_table, ino)"
    using assms by (auto simp: test_ready_def)
  obtain u where u: "open_lots ?os (Suc (8 - 2)) 0 s = Some (Suc 0, u)" "user_ok E u" "same_disk s u"
      "\<forall>i. fd_view u i = (if 2 \<le> i \<and> i < 8 then Some (Some dir_fo_jump_table, ino, 0) else fd_view s i)"
    using open_lots_fills [OF ok j order_refl _ un, of L irqs ubuf 0] by (auto simp del: open_lots.simps)
  have "\<exists>v. close_fds ?os [2, 3, 4, 5, 6, 7] u = Some v \<and> user_ok E v \<and> same_disk u v \<and>
      (\<forall>i. fd_view v i = (if int i \<in> set [2, 3, 4, 5, 6, 7] then None else fd_view u i))"
    by (rule close_fds_closes [OF u(2)]) (use u(4) in auto)
  then obtain v where v: "close_fds ?os [2, 3, 4, 5, 6, 7] u = Some v" "user_ok E v" "same_disk u v"
      "\<forall>i. fd_view v i = (if int i \<in> set [2, 3, 4, 5, 6, 7] then None else fd_view u i)" by blast
  have "fd_view v i = fd_view s i" for i
    using u(4) v(4) un [of i] by (cases "2 \<le> i \<and> i < 8") (auto simp: numeral_eq_Suc less_Suc_eq)
  then have tab: "user_table v = user_table s" "user_screen v = user_screen s"
    using same_disk_trans [OF u(3) v(3)] by (auto simp: user_table_def same_disk_def fun_eq_iff)
  obtain t where t: "ece391_fdputs ?os 1 (lit ''err_open_lots: PASS\<newline>'') v = Some t" "user_prints E (bytes ''err_open_lots: PASS\<newline>'') v t"
    using kout.fdputs_lit [OF v(2), of "''err_open_lots: PASS\<newline>''" L irqs ubuf] by (auto simp: lit_simps)
  then have "user_prints E (bytes ''err_open_lots: PASS\<newline>'') s t" using tab by (simp add: kout.printed_def)
  moreover have "open_lots ?os 7 0 s = Some (1, u)" using u(1) by simp
  ultimately show ?thesis using v(1) t(1) by (simp add: err_open_lots_def del: open_lots.simps close_fds.simps)
qed

text \<open>
  C14: The system call tests pass on this kernel: run on a program with the standard descriptors open and
  a disk that has the directory \<open>"."\<close> and none of the misspelt names, the eight tests of
  \<open>syserr\<close> find every wrong call refused with -1, all six free descriptors given out and taken back, and
  the program prints the eight PASS lines and the overall verdict and returns 0.
\<close>

theorem syserr_passes:
  assumes "test_ready E s"
  shows "\<exists>s'. syserr_all (kernel_os E L irqs ubuf) b s = Some (0, s') \<and> test_ready E s' \<and>
    user_screen s' = fold scr_putc (bytes (
      ''err_neg_fd: PASS\<newline>'' @ ''err_big_fd: PASS\<newline>'' @ ''err_open_lots: PASS\<newline>'' @ ''err_open: PASS\<newline>'' @
      ''err_unopened: PASS\<newline>'' @ ''err_vidmap: PASS\<newline>'' @ ''err_stdin_out: PASS\<newline>'' @
      ''err_syscall_num: PASS\<newline>'' @ ''\<newline>Overall Tests: PASS\<newline>'')) (user_screen s)"
proof -
  let ?os = "kernel_os E L irqs ubuf"
  obtain s1 where s1: "err_neg_fd ?os b s = Some (0, s1)" "user_prints E (bytes ''err_neg_fd: PASS\<newline>'') s s1"
    using err_neg_fd_passes [OF assms] by blast
  note r1 = test_ready_prints [OF assms s1(2)]
  obtain s2 where s2: "err_big_fd ?os b s1 = Some (0, s2)" "user_prints E (bytes ''err_big_fd: PASS\<newline>'') s1 s2"
    using err_big_fd_passes [OF r1] by blast
  note r2 = test_ready_prints [OF r1 s2(2)]
  obtain s3 where s3: "err_open_lots ?os s2 = Some (0, s3)" "user_prints E (bytes ''err_open_lots: PASS\<newline>'') s2 s3"
    using err_open_lots_passes [OF r2] by blast
  note r3 = test_ready_prints [OF r2 s3(2)]
  obtain s4 where s4: "err_open ?os s3 = Some (0, s4)" "user_prints E (bytes ''err_open: PASS\<newline>'') s3 s4"
    using err_open_passes [OF r3] by blast
  note r4 = test_ready_prints [OF r3 s4(2)]
  obtain s5 where s5: "err_unopened ?os b s4 = Some (0, s5)" "user_prints E (bytes ''err_unopened: PASS\<newline>'') s4 s5"
    using err_unopened_passes [OF r4] by blast
  note r5 = test_ready_prints [OF r4 s5(2)]
  obtain s6 where s6: "err_vidmap ?os s5 = Some (0, s6)" "user_prints E (bytes ''err_vidmap: PASS\<newline>'') s5 s6"
    using err_vidmap_passes [OF r5] by blast
  note r6 = test_ready_prints [OF r5 s6(2)]
  obtain s7 where s7: "err_stdin_out ?os b s6 = Some (0, s7)" "user_prints E (bytes ''err_stdin_out: PASS\<newline>'') s6 s7"
    using err_stdin_out_passes [OF r6] by blast
  note r7 = test_ready_prints [OF r6 s7(2)]
  obtain s8 where s8: "err_syscall_num ?os s7 = Some (0, s8)" "user_prints E (bytes ''err_syscall_num: PASS\<newline>'') s7 s8"
    using err_syscall_num_passes [OF r7] by blast
  note r8 = test_ready_prints [OF r7 s8(2)]
  have ok8: "user_ok E s8" using r8 by (simp add: test_ready_def)
  have nz: "0 \<notin> set (bytes ''\<newline>Overall Tests: PASS\<newline>'')" by (simp add: lit_simps)
  obtain s9 where s9: "ece391_fdputs ?os 1 (lit ''\<newline>Overall Tests: PASS\<newline>'') s8 = Some s9"
      "user_prints E (bytes ''\<newline>Overall Tests: PASS\<newline>'') s8 s9"
    by (rule kout.fdputs_lit [OF ok8 nz])
  have "syserr_all ?os b s = Some (0, s9)"
    using s1(1) s2(1) s3(1) s4(1) s5(1) s6(1) s7(1) s8(1) s9(1) by (simp add: syserr_all_def)
  moreover have "user_screen s9 = fold scr_putc (bytes ''\<newline>Overall Tests: PASS\<newline>'') (user_screen s8)"
    using s9(2) by (simp only: kout.printed_def)
  moreover note shown = s1(2) s2(2) s3(2) s4(2) s5(2) s6(2) s7(2) s8(2)
  ultimately show ?thesis
    using test_ready_prints [OF r8 s9(2)] unfolding kout.printed_def bytes_append by (intro exI [of _ s9]) simp
qed

end
