(* ===== verification/User_Grep.thy ===== *)
theory User_Grep
  imports User_Kernel "HOL-Library.Sublist"
begin

text \<open>
  \<open>grep\<close> of \<open>src/syscalls/ece391grep.c\<close>: its file search reads a file in pieces of up to 1024
  bytes, keeps an unfinished line at the front of its array and fills up behind it. The search prints
  exactly the lines that contain the pattern, wherever the pieces end.
\<close>

subsection \<open>Lines\<close>

text \<open>Text is its lines, those already complete and the last one.\<close>

lemma split_lines_append:
  "split_lines (w @ xs) = butlast (split_lines w) @ split_lines (last (split_lines w) @ xs)"
proof (induction "length w" arbitrary: w rule: less_induct)
  case less
  show ?case
  proof (cases rule: line_cases [of w])
    case 1
    then show ?thesis by (simp add: split_lines_single)
  next
    case (2 l w')
    then show ?thesis using less [of w'] split_lines_nonempty [of w'] by (simp add: split_lines_line)
  qed
qed

lemma last_line: "10 \<notin> set (last (split_lines w)) \<and> set (last (split_lines w)) \<subseteq> set w"
proof (induction "length w" arbitrary: w rule: less_induct)
  case less
  show ?case
  proof (cases rule: line_cases [of w])
    case 1
    then show ?thesis by (simp add: split_lines_single)
  next
    case (2 l w')
    then show ?thesis using less [of w'] split_lines_nonempty [of w'] by (auto simp: split_lines_line)
  qed
qed

text \<open>What is printed for a line, and for a text.\<close>

definition report :: "u8 list \<Rightarrow> u8 list \<Rightarrow> u8 list \<Rightarrow> u8 list" where
  "report P f l = (if sublist P l then f @ [58] @ l @ [10] else [])"

definition grep_text :: "u8 list \<Rightarrow> u8 list \<Rightarrow> u8 list \<Rightarrow> u8 list" where
  "grep_text P f xs = concat (map (report P f) (split_lines xs))"

lemma grep_text_append:
  "grep_text P f (w @ xs) =
     concat (map (report P f) (butlast (split_lines w))) @ grep_text P f (last (split_lines w) @ xs)"
  by (simp add: grep_text_def split_lines_append [of w xs])

lemma grep_text_line: "10 \<notin> set l \<Longrightarrow> grep_text P f l = report P f l"
  by (simp add: grep_text_def split_lines_single)

subsection \<open>One line\<close>

text \<open>A pattern as the search takes it: a C string, not empty, with a first character below 128.\<close>

definition pattern_ok :: "u8 list \<Rightarrow> u8 list \<Rightarrow> bool" where
  "pattern_ok P pat \<longleftrightarrow> P \<noteq> [] \<and> 0 \<notin> set P \<and> hd P < 128 \<and> (\<exists>t. pat = P @ 0 # t)"

lemma sint_ascii: "(p :: u8) < 128 \<Longrightarrow> sint p = uint p"
proof -
  assume "p < 128"
  then have "uint p < 128" by (simp add: word_less_def)
  then have "signed_take_bit 7 (uint p) = uint p"
    by (intro signed_take_bit_int_eq_self) (auto intro: order_trans [OF _ uint_ge_0])
  then show ?thesis by (simp add: sint_uint)
qed

lemma take_prefix: "take (length P) l = P \<longleftrightarrow> prefix P l"
  by (auto simp: prefix_def) (metis append_take_drop_id)

lemma sublist_drop_step: "P \<noteq> [] \<Longrightarrow> k < length l \<Longrightarrow> sublist P (drop k l) \<longleftrightarrow> prefix P (drop k l) \<or> sublist P (drop (Suc k) l)"
  by (simp add: Cons_nth_drop_Suc [symmetric] sublist_Cons_right)

context os_output
begin

lemma report_line:
  assumes "ok s" "0 \<in> set fname" "data = pre @ l @ 0 # post" "0 \<notin> set l"
  shows "\<exists>t. (do {
      s \<leftarrow> ece391_fdputs OS 1 fname s;
      s \<leftarrow> ece391_fdputs OS 1 (lit '':'') s;
      s \<leftarrow> ece391_fdputs OS 1 (drop (length pre) data) s;
      ece391_fdputs OS 1 (lit ''\<newline>'') s
    }) = Some t \<and> printed (cstr fname @ [58] @ l @ [10]) s t"
proof -
  obtain a where a: "ece391_fdputs OS 1 fname s = Some a" "printed (cstr fname) s a"
    by (rule fdputs_printed [OF assms(1,2)])
  obtain b where b: "ece391_fdputs OS 1 (lit '':'') a = Some b" "printed [58] a b"
    using fdputs_lit [OF printed_ok [OF a(2)], of "'':''"] by (auto simp: bytes_def of_char_def)
  have "0 \<in> set (l @ 0 # post)" by simp
  then obtain c where c: "ece391_fdputs OS 1 (l @ 0 # post) b = Some c" "printed (cstr (l @ 0 # post)) b c"
    by (rule fdputs_printed [OF printed_ok [OF b(2)]])
  obtain d where d: "ece391_fdputs OS 1 (lit ''\<newline>'') c = Some d" "printed [10] c d"
    using fdputs_lit [OF printed_ok [OF c(2)], of "''\<newline>''"] by (auto simp: bytes_def of_char_def)
  have "printed (cstr fname @ [58] @ l @ [10]) s d"
    using printed_trans [OF printed_trans [OF printed_trans [OF a(2) b(2)] c(2)] d(2)] assms(4)
    by (simp add: cstr_append_zero)
  then show ?thesis using a(1) b(1) c(1) d(1) assms(3) by simp
qed

lemma search_line_prints:
  assumes "pattern_ok P pat" "ok s" "0 \<in> set fname" "data = pre @ l @ 0 # post" "0 \<notin> set l" "k \<le> length l"
  shows "\<exists>t. search_line OS pat (length P) fname data (int (length pre)) (int (length pre + length l))
      (int (length pre + k)) s = Some t \<and>
    printed (if sublist P (drop k l) then cstr fname @ [58] @ l @ [10] else []) s t"
  using assms(6)
proof (induction "length l - k" arbitrary: k)
  case 0
  then have "\<not> sublist P (drop k l)" using assms(1) by (simp add: pattern_ok_def)
  then show ?case using 0 printed_refl [OF assms(2)] by (simp add: search_line.simps)
next
  case (Suc n)
  then have k: "k < length l" by simp
  obtain t0 where pat: "pat = P @ 0 # t0" and P: "P \<noteq> []" "0 \<notin> set P" "hd P < 128" using assms(1) by (auto simp: pattern_ok_def)
  have "rd pat 0 = Some (hd P)" using pat P(1) by (simp add: rd_def hd_conv_nth nth_append)
  moreover have "rd data (int (length pre + k)) = Some (l ! k)" unfolding rd_nat using k assms(4) by (simp add: nth_append)
  ultimately have rd: "rd pat 0 = Some (hd P)" "rd data (int (length pre + k)) = Some (l ! k)" .
  have dr: "drop (length pre + k) data = drop k l @ 0 # post" using assms(4) k by simp
  have cs: "cstr (drop k l @ 0 # post) = drop k l"
    using assms(5) in_set_dropD [of 0 k l] by (intro cstr_append_zero) blast
  obtain r where r: "ece391_strncmp (drop k l @ 0 # post) pat (length P) = Some r" "r = 0 \<longleftrightarrow> prefix P (drop k l)"
    using ece391_strncmp_prefix [of "drop k l @ 0 # post" P "0 # t0"] P(2) cs pat by (auto simp: take_prefix)
  have first: "prefix P (drop k l) \<Longrightarrow> hd P = l ! k"
    using P(1) k by (cases P) (auto simp: Cons_nth_drop_Suc [symmetric])
  have hit: "(if sint (hd P) = uint (l ! k) then do { r \<leftarrow> ece391_strncmp (drop k l @ 0 # post) pat (length P); Some (0 = r) } else Some False)
      = Some (prefix P (drop k l))"
    using r first sint_ascii [OF P(3)] by (auto simp: uint_u8_inject)
  have lt: "int (length pre + k) < int (length pre + length l)" and nx: "int (length pre + k) + 1 = int (length pre + Suc k)"
    using k by simp_all
  have step: "search_line OS pat (length P) fname data (int (length pre)) (int (length pre + length l)) (int (length pre + k)) s =
      (if prefix P (drop k l) then do {
         s \<leftarrow> ece391_fdputs OS 1 fname s;
         s \<leftarrow> ece391_fdputs OS 1 (lit '':'') s;
         s \<leftarrow> ece391_fdputs OS 1 (drop (length pre) data) s;
         ece391_fdputs OS 1 (lit ''\<newline>'') s
       }
       else search_line OS pat (length P) fname data (int (length pre)) (int (length pre + length l)) (int (length pre + Suc k)) s)"
    by (subst search_line.simps) (simp only: if_P [OF lt] rd nat_int dr hit nx Option.bind.simps)
  show ?case
  proof (cases "prefix P (drop k l)")
    case True
    then have "sublist P (drop k l)" by (rule prefix_imp_sublist)
    then show ?thesis unfolding step using report_line [OF assms(2-5)] True by simp
  next
    case False
    have "sublist P (drop k l) \<longleftrightarrow> sublist P (drop (Suc k) l)"
      using sublist_drop_step [OF P(1) k] False by simp
    then show ?thesis unfolding step using Suc.hyps(1) [of "Suc k"] Suc.hyps(2) k False by simp
  qed
qed

lemma search_whole_line:
  assumes "pattern_ok P pat" "ok s" "0 \<in> set fname" "0 \<notin> set l"
  shows "\<exists>t. search_line OS pat (length P) fname (pre @ l @ 0 # post) (int (length pre)) (int (length pre + length l))
      (int (length pre)) s = Some t \<and> printed (report P (cstr fname) l) s t"
  using search_line_prints [OF assms(1-3) refl assms(4), of 0 pre post] by (simp add: report_def)

end

subsection \<open>One buffer\<close>

lemma scan_line_found:
  assumes "data = pre @ l @ c # post" "10 \<notin> set l" "c = 10" "length pre + length l < n"
  shows "scan_line data (int n) (int (length pre)) = Some (int (length pre + length l))"
  using assms
proof (induction l arbitrary: pre)
  case Nil
  then show ?case by (subst scan_line.simps) (simp add: rd_nat)
next
  case (Cons a l)
  have "scan_line data (int n) (int (length (pre @ [a]))) = Some (int (length (pre @ [a]) + length l))"
    using Cons.prems by (intro Cons.IH) simp_all
  then show ?case using Cons.prems by (subst scan_line.simps) (simp add: rd_nat add.commute)
qed

lemma scan_line_end:
  assumes "data = pre @ l @ post" "10 \<notin> set l"
  shows "scan_line data (int (length pre + length l)) (int (length pre)) = Some (int (length pre + length l))"
  using assms
proof (induction l arbitrary: pre)
  case Nil
  then show ?case by (subst scan_line.simps) simp
next
  case (Cons a l)
  have "scan_line data (int (length (pre @ [a]) + length l)) (int (length (pre @ [a]))) = Some (int (length (pre @ [a]) + length l))"
    using Cons.prems by (intro Cons.IH) simp_all
  then show ?case using Cons.prems by (subst scan_line.simps) (simp add: rd_nat add.commute)
qed

text \<open>The array, and its last byte, which no read fills.\<close>

definition buffer_ok :: "u8 list \<Rightarrow> bool" where
  "buffer_ok data \<longleftrightarrow> length data = 1025 \<and> data ! 1024 \<noteq> 10"

text \<open>
  What the loop over the lines of a buffer leaves: the array and the number of bytes kept, where either
  the unfinished line is kept and the complete ones are done, or all is done and nothing is kept.
\<close>

definition lines_done :: "u8 list \<Rightarrow> int \<Rightarrow> nat \<Rightarrow> nat \<Rightarrow> u8 list \<Rightarrow> nat \<Rightarrow> (u8 list list \<Rightarrow> bool) \<Rightarrow> bool" where
  "lines_done w cnt n ls data k out \<longleftrightarrow> buffer_ok data \<and>
     (let L = split_lines w in
        k = length (last L) \<and> take k data = last L \<and> out (butlast L) \<and> (last L = [] \<or> cnt \<noteq> 0) \<or>
        k = 0 \<and> out L \<and> (last L = [] \<or> cnt = 0 \<or> n < 1024 \<or> ls = 0 \<and> L = [w]))"

context os_output
begin

text \<open>A line that ends in the buffer is searched.\<close>

lemma grep_lines_newline:
  assumes "pattern_ok P pat" "0 \<in> set fname" "ok s" "buffer_ok data" "data = pre @ l @ 10 # post" "10 \<notin> set l" "0 \<notin> set l"
    and "length pre + length l < n"
  defines "d \<equiv> pre @ l @ 0 # post" and "i \<equiv> length pre + length l"
  shows "buffer_ok d \<and> (\<exists>t. printed (report P (cstr fname) l) s t \<and>
    grep_lines OS pat (length P) fname cnt data (int n) (int (length pre)) s =
      (if n \<le> Suc i then Some (d, int 0, t)
       else grep_lines OS pat (length P) fname cnt d (int n) (int (Suc i)) t))"
proof -
  have scan: "scan_line data (int n) (int (length pre)) = Some (int i)"
    unfolding i_def by (rule scan_line_found [OF assms(5)]) (use assms in auto)
  have rw: "rd data (int i) = Some 10" "wr data (int i) 0 = Some d"
    unfolding rd_nat wr_nat i_def d_def using assms(5) by (simp_all add: nth_append list_update_append)
  obtain t where t: "search_line OS pat (length P) fname d (int (length pre)) (int i) (int (length pre)) s = Some t"
      "printed (report P (cstr fname) l) s t"
    using search_whole_line [OF assms(1,3,2,7)] unfolding d_def i_def by blast
  have "buffer_ok d"
    using assms(4,5) unfolding buffer_ok_def d_def by (auto simp: nth_append nth_Cons split: if_splits nat.splits)
  moreover have "grep_lines OS pat (length P) fname cnt data (int n) (int (length pre)) s =
      (if n \<le> Suc i then Some (d, int 0, t) else grep_lines OS pat (length P) fname cnt d (int n) (int (Suc i)) t)"
    using scan rw t(1) by (subst grep_lines.simps) (simp add: add.commute)
  ultimately show ?thesis using t(2) by blast
qed

text \<open>A line that does not end in the buffer is kept, or it is searched.\<close>

lemma kept_buffer_ok:
  assumes "buffer_ok d" "length w < 1024"
  shows "buffer_ok (w @ 0 # drop (Suc (length w)) d)"
proof -
  obtain j where j: "1024 = length w + Suc j" using less_imp_add_positive [OF assms(2)] by (metis Suc_pred)
  have "(w @ 0 # drop (Suc (length w)) d) ! 1024 = drop (Suc (length w)) d ! j" unfolding j nth_append_length_plus by simp
  also have "\<dots> = d ! 1024" unfolding j by (subst nth_drop) (use assms(1) j in \<open>auto simp: buffer_ok_def\<close>)
  finally show ?thesis using assms by (simp add: buffer_ok_def)
qed

lemma grep_lines_unfinished:
  assumes "pattern_ok P pat" "0 \<in> set fname" "ok s" "buffer_ok data" "data = pre @ w @ post" "0 \<notin> set w" "10 \<notin> set w"
    and "n = length pre + length w" "n \<le> 1024"
  shows "\<exists>data' k t. grep_lines OS pat (length P) fname cnt data (int n) (int (length pre)) s = Some (data', int k, t) \<and>
    lines_done w cnt n (length pre) data' k (\<lambda>ls. printed (concat (map (report P (cstr fname)) ls)) s t)"
proof -
  let ?R = "report P (cstr fname)"
  obtain c post' where post: "post = c # post'" using assms(4,5,8,9) by (cases post) (auto simp: buffer_ok_def)
  let ?d = "pre @ w @ 0 # post'"
  have scan: "scan_line data (int n) (int (length pre)) = Some (int n)"
    unfolding assms(8) by (rule scan_line_end [OF assms(5,7)])
  have rw: "data ! n = c" "rd data (int n) = Some c" "wr data (int n) 0 = Some ?d"
    unfolding rd_nat wr_nat using assms(5,8) post by (simp_all add: nth_append list_update_append)
  have inv: "buffer_ok ?d"
    using assms(4,5) post unfolding buffer_ok_def by (auto simp: nth_append nth_Cons split: if_splits nat.splits)
  show ?thesis
  proof (cases "10 \<noteq> c \<and> 0 \<noteq> cnt \<and> pre \<noteq> []")
    case True
    let ?d' = "w @ 0 # drop (Suc (length w)) ?d"
    have cp: "ece391_strcpy ?d 0 (length pre) = Some ?d'"
      using ece391_strcpy_down [of 0 "length pre" w ?d] assms(6) by (simp add: nth_append)
    have "grep_lines OS pat (length P) fname cnt data (int n) (int (length pre)) s = Some (?d', int (length w), s)"
      using scan rw cp True assms(8) by (subst grep_lines.simps) simp
    moreover have "buffer_ok ?d'" using kept_buffer_ok [OF inv, of w] True assms(8,9) by (cases pre) auto
    then have "lines_done w cnt n (length pre) ?d' (length w) (\<lambda>ls. printed (concat (map ?R ls)) s s)"
      using True printed_refl [OF assms(3)] by (simp add: lines_done_def split_lines_single [OF assms(7)])
    ultimately show ?thesis by blast
  next
    case False
    obtain t where t: "search_line OS pat (length P) fname ?d (int (length pre)) (int n) (int (length pre)) s = Some t"
        "printed (?R w) s t"
      using search_whole_line [OF assms(1,3,2,6)] unfolding assms(8) by blast
    have "grep_lines OS pat (length P) fname cnt data (int n) (int (length pre)) s = Some (?d, int 0, t)"
      using scan rw t(1) False by (subst grep_lines.simps) auto
    moreover have "cnt = 0 \<or> n < 1024 \<or> pre = []" using False rw(1) assms(4,9) by (cases "n = 1024") (auto simp: buffer_ok_def)
    then have "lines_done w cnt n (length pre) ?d 0 (\<lambda>ls. printed (concat (map ?R ls)) s t)"
      using inv t(2) by (auto simp: lines_done_def split_lines_single [OF assms(7)])
    ultimately show ?thesis by blast
  qed
qed

lemma grep_lines_spec:
  assumes "pattern_ok P pat" "0 \<in> set fname" "ok s" "buffer_ok data" "data = pre @ w @ post" "0 \<notin> set w"
    and "n = length pre + length w" "n \<le> 1024"
  shows "\<exists>data' k t. grep_lines OS pat (length P) fname cnt data (int n) (int (length pre)) s = Some (data', int k, t) \<and>
    lines_done w cnt n (length pre) data' k (\<lambda>ls. printed (concat (map (report P (cstr fname)) ls)) s t)"
  using assms(3-8)
proof (induction "length w" arbitrary: w pre data post s rule: less_induct)
  case less
  let ?R = "report P (cstr fname)"
  show ?case
  proof (cases rule: line_cases [of w])
    case 1
    show ?thesis by (rule grep_lines_unfinished [OF assms(1,2) less.prems(1-4) 1 less.prems(5,6)])
  next
    case (2 l w')
    let ?i = "length pre + length l" and ?d = "pre @ l @ 0 # w' @ post"
    have "data = pre @ l @ 10 # w' @ post" "0 \<notin> set l" "?i < n" using less.prems(3-5) 2(1) by auto
    from grep_lines_newline [OF assms(1,2) less.prems(1,2) this(1) 2(2) this(2,3), of cnt] obtain t
      where inv: "buffer_ok ?d" and t: "printed (?R l) s t"
        "grep_lines OS pat (length P) fname cnt data (int n) (int (length pre)) s =
          (if n \<le> Suc ?i then Some (?d, int 0, t) else grep_lines OS pat (length P) fname cnt ?d (int n) (int (Suc ?i)) t)"
      by blast
    have L: "split_lines w = l # split_lines w'" using 2 by (simp add: split_lines_line)
    show ?thesis
    proof (cases "w' = []")
      case True
      then have "lines_done w cnt n (length pre) ?d 0 (\<lambda>ls. printed (concat (map ?R ls)) s t)"
        using inv t(1) L by (simp add: lines_done_def)
      then show ?thesis using t(2) less.prems(5) 2(1) True by (intro exI [of _ ?d] exI [of _ 0] exI [of _ t]) simp
    next
      case False
      have "\<exists>data' k u. grep_lines OS pat (length P) fname cnt ?d (int n) (int (length (pre @ l @ [0]))) t = Some (data', int k, u) \<and>
          lines_done w' cnt n (length (pre @ l @ [0])) data' k (\<lambda>ls. printed (concat (map ?R ls)) t u)"
        by (rule less.hyps) (use less.prems(4-6) 2 inv printed_ok [OF t(1)] in auto)
      then obtain d' k u where u: "grep_lines OS pat (length P) fname cnt ?d (int n) (int (Suc ?i)) t = Some (d', int k, u)"
          "lines_done w' cnt n (Suc ?i) d' k (\<lambda>ls. printed (concat (map ?R ls)) t u)"
        by auto
      have "lines_done w cnt n (length pre) d' k (\<lambda>ls. printed (concat (map ?R ls)) s u)"
        using u(2) L split_lines_nonempty [of w'] printed_trans [OF t(1)] by (auto simp: lines_done_def Let_def)
      then show ?thesis using t(2) u(1) less.prems(5) 2(1) False by (intro exI [of _ d'] exI [of _ k] exI [of _ u]) simp
    qed
  qed
qed

end

subsection \<open>One file\<close>

lemma first_line_append: "10 \<notin> set f \<Longrightarrow> hd (split_lines (f @ xs)) = f @ hd (split_lines xs)"
  by (induction f) auto

lemma report_empty: "P \<noteq> [] \<Longrightarrow> report P f [] = []"
  by (simp add: report_def)

lemma split_lines_last: "split_lines w = butlast (split_lines w) @ [last (split_lines w)]"
  using split_lines_nonempty by simp

text \<open>Where the next read continues.\<close>

lemma lines_done_next:
  assumes "lines_done w cnt (length w) 0 data k out" "cnt \<noteq> 0" "length w < 1024 \<Longrightarrow> xs = []" "length w \<le> 1024"
    and "\<And>l. l \<in> set (split_lines (w @ xs)) \<Longrightarrow> length l < 1024" "P \<noteq> []"
  shows "\<exists>f ls. k = length f \<and> take k data = f \<and> 10 \<notin> set f \<and> set f \<subseteq> set w \<and> out ls \<and>
    concat (map (report P fn) ls) @ grep_text P fn (f @ xs) = grep_text P fn (w @ xs) \<and>
    (\<forall>l\<in>set (split_lines (f @ xs)). length l < 1024)"
proof -
  let ?L = "split_lines w"
  note tail = grep_text_append [of P fn w xs] split_lines_append [of w xs]
  consider "k = length (last ?L)" "take k data = last ?L" "out (butlast ?L)"
    | "k = 0" "out ?L" "last ?L = []" | "k = 0" "out ?L" "length w < 1024" | "?L = [w]" "length w = 1024"
    using assms(1,2,4) unfolding lines_done_def Let_def by linarith
  then show ?thesis
  proof cases
    case 1
    then show ?thesis using last_line [of w] tail assms(5) by (intro exI [of _ "last ?L"] exI [of _ "butlast ?L"]) auto
  next
    case 2
    then have "concat (map (report P fn) ?L) = concat (map (report P fn) (butlast ?L))"
      using report_empty [OF assms(6)] by (subst split_lines_last) simp
    then show ?thesis using 2 tail assms(5) by (intro exI [of _ "[]"] exI [of _ ?L]) auto
  next
    case 3
    then show ?thesis
      using assms(3) report_empty [OF assms(6)] by (intro exI [of _ "[]"] exI [of _ ?L]) (simp add: grep_text_def)
  next
    case 4
    then have "10 \<notin> set w" using last_line [of w] by simp
    then have "1024 \<le> length (hd (split_lines (w @ xs)))" using 4(2) by (simp add: first_line_append)
    then show ?thesis using assms(5) [OF hd_in_set [OF split_lines_nonempty]] by simp
  qed
qed

context os_files
begin

text \<open>One read: the buffer, the bytes kept and the state it leaves.\<close>

lemma grep_reads_step:
  assumes "pattern_ok P pat" "0 \<in> set fname" "ok s" "buffer_ok data" "take (length f) data = f" "length f < 1024"
    and "0 \<notin> set (f @ xs)" "rest (table s) fd = Some xs"
  defines "n \<equiv> 1024 - length f"
  defines "w \<equiv> f @ take n xs" and "cnt \<equiv> int (length (take n xs))"
  shows "\<exists>d k s1 t. lines_done w cnt (length w) 0 d k (\<lambda>ls. printed (concat (map (report P (cstr fname)) ls)) s1 t) \<and>
    shown s1 = shown s \<and> ok t \<and> rest (table t) fd = Some (drop n xs) \<and>
    grep_reads OS pat (length P) fname fd data (int (length f)) s =
      (if cnt = 0 then Some (False, t) else grep_reads OS pat (length P) fname fd d (int k) t)"
proof -
  obtain s1 where s1: "os_read OS fd (int n) s = Some (cnt, take n xs, s1)" "ok s1" "shown s1 = shown s"
      "rest (table s1) fd = Some (drop n xs)"
    using read_file [OF assms(3,8), of n] unfolding cnt_def n_def by (auto simp: less_imp_diff_less)
  let ?d = "w @ drop (length w) data"
  have len: "length data = 1025" and wl: "length w \<le> 1024" using assms(4,6) by (auto simp: buffer_ok_def w_def n_def)
  have pb: "put_bytes data (length f) (take n xs) = Some ?d" using assms(5) wl len by (simp add: put_bytes_def w_def)
  have "buffer_ok ?d" using assms(4) wl by (auto simp: buffer_ok_def nth_append)
  moreover have "0 \<notin> set w" using assms(7) by (auto simp: w_def dest: in_set_takeD)
  ultimately obtain d k t where t: "grep_lines OS pat (length P) fname cnt ?d (int (length w)) (int 0) s1 = Some (d, int k, t)"
      "lines_done w cnt (length w) 0 d k (\<lambda>ls. printed (concat (map (report P (cstr fname)) ls)) s1 t)"
    using grep_lines_spec [OF assms(1,2) s1(2), of ?d "[]" w "drop (length w) data" "length w" cnt] wl by auto
  have "\<exists>ls. printed ls s1 t" using t(2) by (auto simp: lines_done_def Let_def)
  then have "ok t" "rest (table t) fd = Some (drop n xs)" using s1(4) by (auto simp: printed_def)
  moreover have "BUFSIZE - int (length f) = int n" "int (length f) + cnt = int (length w)" "- 1 \<noteq> cnt"
    using assms(6) by (simp_all add: BUFSIZE_def n_def w_def cnt_def of_nat_diff)
  then have "grep_reads OS pat (length P) fname fd data (int (length f)) s =
      (if cnt = 0 then Some (False, t) else grep_reads OS pat (length P) fname fd d (int k) t)"
    using s1(1) pb t(1) by (subst grep_reads.simps) simp
  ultimately show ?thesis using t(2) s1(3) by blast
qed

lemma grep_reads_prints:
  assumes "pattern_ok P pat" "0 \<in> set fname"
    and "ok s" "buffer_ok data" "take (length f) data = f" "10 \<notin> set f" "0 \<notin> set (f @ xs)"
    and "rest (table s) fd = Some xs" "\<And>l. l \<in> set (split_lines (f @ xs)) \<Longrightarrow> length l < 1024"
  shows "\<exists>t. grep_reads OS pat (length P) fname fd data (int (length f)) s = Some (False, t) \<and> ok t \<and>
    shown t = fold put (grep_text P (cstr fname) (f @ xs)) (shown s) \<and> rest (table t) fd = Some []"
  using assms(3-9)
proof (induction "length xs" arbitrary: f xs data s rule: less_induct)
  case less
  let ?R = "report P (cstr fname)" and ?G = "grep_text P (cstr fname)"
  have P: "P \<noteq> []" using assms(1) by (simp add: pattern_ok_def)
  have "hd (split_lines (f @ xs)) \<in> set (split_lines (f @ xs))" using split_lines_nonempty by (rule hd_in_set)
  then have f: "length f < 1024" using less.prems(7) first_line_append [OF less.prems(4), of xs] by fastforce
  define n w xs' where d: "n = 1024 - length f" "w = f @ take n xs" "xs' = drop n xs"
  have w: "w @ xs' = f @ xs" "length w \<le> 1024" "length w < 1024 \<Longrightarrow> xs' = []" using f by (auto simp: d)
  obtain da k s1 t where st: "lines_done w (int (length (take n xs))) (length w) 0 da k (\<lambda>ls. printed (concat (map ?R ls)) s1 t)"
      "shown s1 = shown s" "ok t" "rest (table t) fd = Some xs'"
      "grep_reads OS pat (length P) fname fd data (int (length f)) s =
        (if int (length (take n xs)) = 0 then Some (False, t) else grep_reads OS pat (length P) fname fd da (int k) t)"
    using grep_reads_step [OF assms(1,2) less.prems(1-3) f less.prems(5,6)] unfolding d by blast
  show ?case
  proof (cases "xs = []")
    case True
    then have L: "split_lines w = [f]" using split_lines_single [OF less.prems(4)] by (simp add: d)
    have "printed (?R f) s1 t" using st(1) L True report_empty [OF P] by (auto simp: lines_done_def)
    then show ?thesis using True st grep_text_line [OF less.prems(4)] by (auto simp: printed_def d)
  next
    case False
    then have cnt: "int (length (take n xs)) \<noteq> 0" "length xs' < length xs" using f by (cases xs; auto simp: d)+
    have lines: "\<And>l. l \<in> set (split_lines (w @ xs')) \<Longrightarrow> length l < 1024" using less.prems(7) w(1) by simp
    obtain f' ls where f': "k = length f'" "take k da = f'" "10 \<notin> set f'" "set f' \<subseteq> set w"
        "printed (concat (map ?R ls)) s1 t" "concat (map ?R ls) @ ?G (f' @ xs') = ?G (f @ xs)"
        "\<forall>l\<in>set (split_lines (f' @ xs')). length l < 1024"
      using lines_done_next [OF st(1) cnt(1) w(3,2) lines P, of "cstr fname"] unfolding w(1) by blast
    have "buffer_ok da" using st(1) by (simp add: lines_done_def)
    moreover have "0 \<notin> set (f' @ xs')" using f'(4) less.prems(5) unfolding w(1) [symmetric] by auto
    ultimately obtain u where "grep_reads OS pat (length P) fname fd da (int (length f')) t = Some (False, u)" "ok u"
        "shown u = fold put (?G (f' @ xs')) (shown t)" "rest (table u) fd = Some []"
      using less.hyps [OF cnt(2) st(3) _ _ f'(3) _ st(4)] f'(1,2,7) by auto
    moreover have "shown t = fold put (concat (map ?R ls)) (shown s)" using f'(5) st(2) by (simp add: printed_def)
    moreover have "grep_reads OS pat (length P) fname fd data (int (length f)) s =
        grep_reads OS pat (length P) fname fd da (int (length f')) t"
      unfolding st(5) if_not_P [OF cnt(1)] f'(1) ..
    ultimately show ?thesis unfolding f'(6) [symmetric] by simp
  qed
qed

end

subsection \<open>On the kernel\<close>

text \<open>
  C9: The file search of \<open>grep\<close> on this kernel: it opens the file, reads it through in pieces,
  closes its descriptor and returns 0; the screen shows, for every line of the file that contains the pattern and in their
  order, the file name, a colon and the line, whether or not a line crosses a piece. The file is text
  with lines of less than 1024 bytes; the pattern is not empty and starts with an ASCII character (the
  code compares it as signed); the last byte of the array, which the code inspects before it is ever
  written, is not a newline.
\<close>

theorem grep_finds_lines:
  assumes "user_ok E s" "pattern_ok P pat" "0 \<in> set fname" "lookup_name s fname = Some j" "free_fd s = Some i"
    and "type_entry (dentry_at (fs_mem s) (fs_sections s) j (uninit_dentry E)) = Some (file_fo_jump_table, ino)"
    and "inode_ok (fs_mem s) (fs_sections s) ino"
  defines "body \<equiv> contents (fs_mem s) (fs_sections s) ino"
  assumes "0 \<notin> set body" "\<And>l. l \<in> set (split_lines body) \<Longrightarrow> length l < 1024"
    and "length data = 1025" "data ! 1024 \<noteq> 10"
  shows "\<exists>s'. do_one_file (kernel_os E L irqs ubuf) data pat fname s = Some (0, s') \<and> user_ok E s' \<and>
    user_screen s' = fold scr_putc
      (concat (map (\<lambda>l. if sublist P l then cstr fname @ [58] @ l @ [10] else []) (split_lines body))) (user_screen s) \<and>
    fd_view s' i = None"
proof -
  let ?os = "kernel_os E L irqs ubuf"
  obtain u where u: "os_open ?os fname s = Some (int i, u)" "user_ok E u" "user_screen u = user_screen s"
      "user_table u = ((fd_view s)(i \<mapsto> (Some file_fo_jump_table, ino, 0)), fs_mem s, fs_sections s)"
    using kernel_open [OF assms(1,3-6)] by blast
  have "file_rest (user_table u) (int i) = Some body"
    unfolding u(4) body_def using assms(7) by (simp add: file_rest_at)
  then obtain v where v: "grep_reads ?os pat (length P) fname (int i) data 0 u = Some (False, v)" "user_ok E v"
      "user_screen v = fold scr_putc (grep_text P (cstr fname) body) (user_screen u)"
      "file_rest (user_table v) (int i) = Some []"
    using kfiles.grep_reads_prints [OF assms(2,3) user_in_refl [OF u(2)], of data "[]" body "int i" L irqs ubuf] assms(9-12)
    by (auto simp: buffer_ok_def user_in_def)
  have "fd_view v i \<noteq> None" using v(4) by (cases "fd_view v i") (auto simp: file_rest_def user_table_def split: option.splits)
  moreover have "2 \<le> i" using free_fd_range [OF assms(5)] by simp
  ultimately obtain t where t: "os_close ?os (int i) v = Some (0, t)" "user_ok E t" "same_disk v t"
      "fd_view t = (fd_view v)(i := None)"
    using kernel_close [OF v(2)] by blast
  have "ece391_strlen pat = Some (length P)"
    using assms(2) by (auto simp: pattern_ok_def ece391_strlen_cstr cstr_append_zero)
  then have "do_one_file ?os data pat fname s = Some (0, t)"
    using u(1) v(1) t(1) by (simp add: do_one_file_def)
  moreover have "report P (cstr fname) = (\<lambda>l. if sublist P l then cstr fname @ [58] @ l @ [10] else [])"
    by (rule ext) (simp add: report_def)
  ultimately show ?thesis using t v(3) u(3) by (auto simp: same_disk_def grep_text_def)
qed

end
