(* ===== verification/User_Shell.thy ===== *)
theory User_Shell
  imports User_Kernel
begin

text \<open>
  The shell of \<open>src/syscalls/ece391shell.c\<close> on the kernel, with \<open>execute\<close> as the program sees it:
  the kernel loads the program and enters it, the program runs, its start code calls \<open>halt\<close> with the
  value of \<open>main\<close> (\<open>src/syscalls/ece391syscall.S\<close>), and the kernel returns from the parent's
  \<open>execute\<close>. What the machine code of a program does is a parameter, tied to the source by
  \<open>implements\<close>: whenever the bytes of the file are in the program's page and its \<open>main\<close> returns,
  running from the entry point returns the same value and leaves the same kernel state, except that
  memory inside the program's own frame, where its stack and its arrays are, may hold anything.
\<close>

subsection \<open>Execute as a call\<close>

definition image_loaded :: "layout \<Rightarrow> u8 list \<Rightarrow> 'a kstate_scheme \<Rightarrow> bool" where
  "image_loaded L img s \<longleftrightarrow>
     (\<forall>i < length img. user_load L s (PROGRAM_LOAD_VIRT_ADDRESS + of_nat i) = Some (img ! i))"

definition implements :: "layout \<Rightarrow> (u32 \<Rightarrow> 'a kstate_scheme \<Rightarrow> (int \<times> 'a kstate_scheme) option) \<Rightarrow> u8 list \<Rightarrow>
    ('a kstate_scheme \<Rightarrow> (int \<times> 'a kstate_scheme) option) \<Rightarrow> bool" where
  "implements L prog img main \<longleftrightarrow> (\<forall>s r s'. image_loaded L img s \<longrightarrow> main s = Some (r, s') \<longrightarrow>
     (\<exists>m. prog (entry_word img) s = Some (r, s'\<lparr>user_mem := m\<rparr>) \<and>
       (\<forall>pa. drop_bit 22 pa \<noteq> word_of_int (int (running s) + 2) \<longrightarrow> m pa = user_mem s' pa)))"

text \<open>
  The start code of a program passes the value of \<open>main\<close> to \<open>halt\<close>, which takes its low byte. The
  call returns where the kernel restores the stack and base pointer saved at this \<open>execute\<close>.
\<close>

definition run_execute :: "(u32 \<Rightarrow> 'a kstate_scheme \<Rightarrow> (int \<times> 'a kstate_scheme) option) \<Rightarrow> env \<Rightarrow> layout \<Rightarrow>
    u8 list \<Rightarrow> 'a kstate_scheme \<Rightarrow> (int \<times> 'a kstate_scheme) option" where
  "run_execute prog E L command s = do {
     res \<leftarrow> execute E L (Some command) (gate_in s);
     case res of
       Ret r s \<Rightarrow> Some (r, gate_out s)
     | Return_to_parent esp ebp status s \<Rightarrow> None
     | Iret entry_point s \<Rightarrow> do {
         (r, s) \<leftarrow> prog entry_point s;
         res \<leftarrow> halt L (word_of_int r) (gate_in s);
         case res of
           Return_to_parent esp ebp status s \<Rightarrow>
             if esp = reg_esp E \<and> ebp = reg_ebp E then Some (sint status, gate_out s) else None
         | _ \<Rightarrow> None
       }
   }"

definition shell_os :: "(u32 \<Rightarrow> 'a kstate_scheme \<Rightarrow> (int \<times> 'a kstate_scheme) option) \<Rightarrow> env \<Rightarrow> layout \<Rightarrow>
    ('a kstate_scheme \<Rightarrow> 'a kstate_scheme option) list \<Rightarrow> u32 \<Rightarrow> 'a kstate_scheme os" where
  "shell_os prog E L irqs ubuf = (kernel_os E L irqs ubuf)\<lparr>os_execute := run_execute prog E L\<rparr>"

text \<open>A program that was just started.\<close>

lemma started_user:
  assumes "user_ok E s" "started E L new e ino argtext cs s t" "argtext = a" "length a < 128"
  shows "user_ok E t" "user_screen t = user_screen s" "free_fd t = Some 2"
    "0 \<in> set (pcb_args (pcbs t new))" "running t = new"
proof -
  note ok = user_okD [OF assms(1)]
  have st: "proc_chains (cs(e := cs e @ [new])) t" "tty_ids_ok t" "running t = new" "iflag t" "same_tty s t"
      "fd_array (pcbs t new) = std_fds (fd_array (pcbs s new))" "cstr (pcb_args (pcbs t new)) = a"
    using assms(2,3) unfolding started_def by blast+
  show "running t = new" by (rule st)
  note tt = same_tty_view [OF st(5)]
  have "length (fd_array (pcbs s new)) = FD_ARRAY_LEN" using running_shape [OF ok(2)] by (simp add: pcb_shape_def)
  note fds = std_fds_entries [OF this]
  have v: "fd_view t i = (if i < FD_ARRAY_LEN \<and> fd_active (std_fds (fd_array (pcbs s new)) ! i)
      then Some (fo_jump_table_ptr (std_fds (fd_array (pcbs s new)) ! i), fd_inode_index (std_fds (fd_array (pcbs s new)) ! i),
        file_position (std_fds (fd_array (pcbs s new)) ! i)) else None)" for i
    unfolding fd_view_def st(3,6) Let_def fds(1) ..
  have fd: "fd_ok t" using st(1,2) by (auto simp: fd_ok_def proc_inv_def)
  have "fd_view t 1 = Some (Some stdout_jump_table, fd_inode_index (std_fds (fd_array (pcbs s new)) ! 1),
      file_position (std_fds (fd_array (pcbs s new)) ! 1))"
    unfolding v using fds(4,5) by simp
  then show "user_ok E t" using ok fd st(4) tt(5) by (simp add: user_ok_def)
  show "user_screen t = user_screen s" by (simp add: user_screen_def tt)
  have "fd_view t 2 = None" unfolding v using fds(6) [of 2] by simp
  moreover have "[2..<FD_ARRAY_LEN] = 2 # [3..<FD_ARRAY_LEN]" by (simp add: upt_conv_Cons)
  ultimately show "free_fd t = Some 2" by (simp add: free_fd_def del: upt_rec_numeral)
  show "0 \<in> set (pcb_args (pcbs t new))"
  proof (rule ccontr)
    assume "0 \<notin> set (pcb_args (pcbs t new))"
    then have "cstr (pcb_args (pcbs t new)) = pcb_args (pcbs t new)" by (rule cstr_id)
    then show False using st(7) assms(4) running_shape [OF fd, of new] by (simp add: pcb_shape_def)
  qed
qed

lemma chain_last_child: "chain P ps \<Longrightarrow> child_pcb (P (last ps)) = None"
  by (induction P ps rule: chain.induct) auto

lemma sti_cli: "sti (cli s) = s\<lparr>iflag := True\<rparr>"
  by (simp add: sti_def cli_def)

lemma iflag_upd_user:
  "fd_ok (s\<lparr>iflag := b\<rparr>) = fd_ok s" "tty_ok (s\<lparr>iflag := b\<rparr>) = tty_ok s" "running (s\<lparr>iflag := b\<rparr>) = running s"
  "user_screen (s\<lparr>iflag := b\<rparr>) = user_screen s" "fd_view (s\<lparr>iflag := b\<rparr>) = fd_view s"
proof -
  show r: "running (s\<lparr>iflag := b\<rparr>) = running s" by (simp add: running_def get_current_executing_pcb_def)
  show "fd_view (s\<lparr>iflag := b\<rparr>) = fd_view s" by (rule ext) (simp add: fd_view_def r)
  show "fd_ok (s\<lparr>iflag := b\<rparr>) = fd_ok s"
    by (simp add: fd_ok_def proc_inv_def proc_chains_def tty_ids_ok_def)
  show "tty_ok (s\<lparr>iflag := b\<rparr>) = tty_ok s"
    by (simp add: tty_ok_def tty_ids_ok_def tty_screen_def con_view_def)
  show "user_screen (s\<lparr>iflag := b\<rparr>) = user_screen s"
    by (simp add: user_screen_def tty_screen_def con_view_def)
qed

text \<open>
  The program has run: what it had to leave alone is as it was, and memory changed only in its frame.
\<close>

definition ran :: "env \<Rightarrow> nat \<Rightarrow> 'a kstate_scheme \<Rightarrow> 'a kstate_scheme \<Rightarrow> bool" where
  "ran E p t u \<longleftrightarrow> (\<exists>m. user_in E (t\<lparr>user_mem := m\<rparr>) u \<and>
     (\<forall>pa. drop_bit 22 pa \<noteq> word_of_int (int p + 2) \<longrightarrow> m pa = user_mem t pa))"

lemma running_user_mem: "running (s\<lparr>user_mem := m\<rparr>) = running s"
  by (simp add: running_def get_current_executing_pcb_def)

lemma ranD:
  assumes "ran E p t u"
  shows "user_ok E u" "kept t (u\<lparr>user_mem := user_mem t\<rparr>)"
    "drop_bit 22 pa \<noteq> word_of_int (int p + 2) \<Longrightarrow> user_mem u pa = user_mem t pa"
proof -
  obtain m where m: "user_ok E u" "kept (t\<lparr>user_mem := m\<rparr>) u"
      "\<forall>pa. drop_bit 22 pa \<noteq> word_of_int (int p + 2) \<longrightarrow> m pa = user_mem t pa"
    using assms by (auto simp: ran_def user_in_def)
  show "user_ok E u" by (rule m)
  show "kept t (u\<lparr>user_mem := user_mem t\<rparr>)" using m(2) by (simp add: kept_def running_user_mem)
  show "user_mem u pa = user_mem t pa" if "drop_bit 22 pa \<noteq> word_of_int (int p + 2)" using m(2,3) that by (simp add: kept_def)
qed

lemma ran_scribbles:
  assumes "ran E p t u" "\<forall>pa. drop_bit 22 pa \<noteq> word_of_int (int p + 2) \<longrightarrow> m pa = user_mem u pa"
  shows "ran E p t (u\<lparr>user_mem := m\<rparr>)"
  unfolding ran_def
proof (intro exI [of _ m] conjI allI impI)
  show "user_in E (t\<lparr>user_mem := m\<rparr>) (u\<lparr>user_mem := m\<rparr>)"
    using ranD(1,2) [OF assms(1)]
    by (simp add: user_in_def user_mem_upd_user kept_def running_user_mem)
  show "m pa = user_mem t pa" if "drop_bit 22 pa \<noteq> word_of_int (int p + 2)" for pa
    using assms(2) ranD(3) [OF assms(1) that] that by simp
qed

text \<open>
  The program ends and its parent goes on: the child's output is on the screen, the rest is as before,
  also the memory outside the frame of the child.
\<close>

lemma program_ends:
  assumes "user_ok E s" "proc_chains cs s" "started E L new (nat (exec_term_id s)) ino argtext cs s t" "ran E new t u"
    and "alloc_pid s = Some new"
  shows "\<exists>v. halt L status u = Some (Return_to_parent (reg_esp E) (reg_ebp E) (exit_status status) v) \<and>
    user_ok E (gate_out v) \<and> user_screen (gate_out v) = user_screen u \<and> running (gate_out v) = running s \<and>
    pcbs (gate_out v) (running s) = pcbs s (running s) \<and> processes (gate_out v) = processes s \<and>
    program_frame L (gate_out v) (int (running s) + 2) \<and> fs_mem (gate_out v) = fs_mem s \<and>
    fs_sections (gate_out v) = fs_sections s \<and> exec_term_id (gate_out v) = exec_term_id s \<and>
    (\<forall>pa. drop_bit 22 pa \<noteq> word_of_int (int new + 2) \<longrightarrow> user_mem (gate_out v) pa = user_mem s pa)"
proof -
  note ok = user_okD [OF assms(1)] and oku = user_okD [OF ranD(1) [OF assms(4)]]
  let ?e = "nat (exec_term_id s)" and ?q = "running s"
  have ids: "tty_ids_ok s" "?e < 3" using ok(2) by (auto simp: fd_ok_def tty_ids_ok_def)
  let ?cs = "cs(?e := cs ?e @ [new])"
  have st: "proc_chains ?cs t" "running t = new" "length (page_directory t) = 1024" "fs_mem t = fs_mem s"
      "fs_sections t = fs_sections s" "exec_term_id t = exec_term_id s" "parent_esp (pcbs t new) = reg_esp E"
      "parent_ebp (pcbs t new) = reg_ebp E"
      "\<forall>p. p \<noteq> new \<longrightarrow> pcbs t p = (if p = last (cs ?e) then (pcbs s p)\<lparr>child_pcb := Some new\<rparr> else pcbs s p)"
    using assms(3) unfolding started_def by blast+
  have "kept t (u\<lparr>user_mem := user_mem t\<rparr>)" by (rule ranD [OF assms(4)])
  then have k: "processes u = processes t" "exec_term_id u = exec_term_id t" "page_directory u = page_directory t"
      "fs_mem u = fs_mem t" "fs_sections u = fs_sections t" "\<forall>p. pcb_links (pcbs u p) = pcb_links (pcbs t p)"
      "\<forall>p. p \<noteq> running t \<longrightarrow> pcbs u p = pcbs t p"
    by (simp_all add: kept_def)
  have chu: "proc_chains ?cs u" "tty_ids_ok u" "length (page_directory u) = 1024" "exec_term_id u = exec_term_id s"
    using kept_chains [OF st(1), of u] k running_shape [OF oku(2)] oku(2) st(3,6) by (simp_all add: fd_ok_def)
  have links: "parent_esp (pcbs u new) = reg_esp E" "parent_ebp (pcbs u new) = reg_ebp E"
    using k(6) st(7,8) by (simp_all add: pcb_links_def)
  have ch: "chain (pcbs s) (cs ?e)" using assms(2) ids(2) by (simp add: proc_chains_def)
  then have cs_e: "cs ?e = butlast (cs ?e) @ [last (cs ?e)]" using chain_nonempty by simp
  have q: "?q = last (cs ?e)" using executing_pcb [OF assms(2) ids(1)] by (simp add: running_def)
  have "?cs (nat (exec_term_id u)) = butlast (cs ?e) @ [?q, new]" using cs_e q chu(4) by simp
  from halt_child [OF chu(1-3) this, of L status] obtain v where
    v: "halt L status u = Some (Return_to_parent (reg_esp E) (reg_ebp E) (exit_status status) v)"
      "proc_chains (?cs(nat (exec_term_id u) := butlast (cs ?e) @ [?q])) v" "tty_ids_ok v"
      "exec_term_id v = exec_term_id u" "running v = ?q" "program_frame L v (int ?q + 2)"
      "processes v = (processes u)[new := False]" "same_tty u v" "fs_mem v = fs_mem u" "fs_sections v = fs_sections u"
      "\<forall>p. p \<noteq> new \<longrightarrow> pcbs v p = (if p = ?q then (pcbs u p)\<lparr>child_pcb := None\<rparr> else pcbs u p)"
      "user_mem v = user_mem u"
    unfolding links by blast
  have new: "new \<notin> set (members cs)" "3 \<le> new" "new < 7" using alloc_pid_free [OF assms(2,5)] by auto
  have qn: "?q \<noteq> new"
    using executing_member(1) [OF assms(2) ids(2)] chain_in_members [OF ids(2), of cs] new(1) q by auto
  have "pcbs v ?q = (pcbs s ?q)\<lparr>child_pcb := None\<rparr>"
    using v(11) k(7) st(2,9) qn q by simp
  moreover have "child_pcb (pcbs s ?q) = None" unfolding q using chain_last_child [OF ch] .
  ultimately have pq: "pcbs v ?q = pcbs s ?q" by simp
  have fd: "fd_ok v" using v(2,3) by (auto simp: fd_ok_def proc_inv_def)
  have "fd_view v 1 = fd_view s 1" unfolding fd_view_def v(5) pq ..
  moreover note same_tty_view [OF v(8)]
  ultimately have user: "user_ok E (gate_out v)" "user_screen (gate_out v) = user_screen u"
    using assms(1) oku(3) fd by (simp_all add: user_ok_def gate_out_def sti_cli iflag_upd_user) (simp add: user_screen_def)
  have free: "\<not> processes s ! new"
    using find_in_set [OF assms(5) [unfolded alloc_pid_def]] by (simp del: upt_rec_numeral)
  have "processes u = (processes s)[new := True]" using k(1) assms(3) by (simp add: started_def)
  then have "processes v = processes s" using v(7) free by (metis list_update_id list_update_overwrite)
  moreover have "program_frame L (gate_out v) (int ?q + 2)"
    using v(6) translate_cong [of "gate_out v" v L] by (simp add: program_frame_def gate_out_def sti_cli)
  moreover have "user_mem (gate_out v) pa = user_mem s pa" if "drop_bit 22 pa \<noteq> word_of_int (int new + 2)" for pa
    using ranD(3) [OF assms(4) that] v(12) that assms(3) by (simp add: started_def gate_out_def sti_cli)
  ultimately show ?thesis
    using v user pq k st chu(4) by (intro exI [of _ v]) (simp add: gate_out_def sti_cli iflag_upd_user)
qed

text \<open>
  \<open>execute\<close> as a call: when the program, started in its page with its arguments, returns \<open>r\<close> after
  it printed \<open>out\<close>, the call returns the exit status of \<open>r\<close> to a caller that finds its process as it
  left it.
\<close>

lemma run_execute_returns:
  assumes "user_ok E s" "proc_chains cs s" "length (page_directory s) = 1024" "0 \<in> set command" "length (cstr command) < 128"
    and "program_file E s (first_word command) = Some d" "alloc_pid s = Some new"
  defines "img \<equiv> contents (fs_mem s) (fs_sections s) (inode_index d)"
  assumes "28 \<le> length img" "length img \<le> 0x3B8000" "implements L prog img main"
    and "\<And>t. started E L new (nat (exec_term_id s)) (inode_index d) (other_words command) cs s t \<Longrightarrow>
      \<exists>u. main t = Some (r, u) \<and> ran E new t u \<and> user_screen u = fold scr_putc out (user_screen s)"
  shows "\<exists>s'. run_execute prog E L command s = Some (sint (exit_status (word_of_int r)), s') \<and>
    user_ok E s' \<and> user_screen s' = fold scr_putc out (user_screen s) \<and> running s' = running s \<and>
    pcbs s' (running s) = pcbs s (running s) \<and> processes s' = processes s \<and>
    program_frame L s' (int (running s) + 2) \<and> fs_mem s' = fs_mem s \<and> fs_sections s' = fs_sections s \<and>
    exec_term_id s' = exec_term_id s \<and>
    (\<forall>pa. drop_bit 22 pa \<noteq> word_of_int (int new + 2) \<longrightarrow> user_mem s' pa = user_mem s pa)"
proof -
  note ok = user_okD [OF assms(1)]
  have ids: "tty_ids_ok s" using ok(2) by (simp add: fd_ok_def)
  obtain t where t: "execute E L (Some command) s = Some (Iret (entry_word img) t)"
      "started E L new (nat (exec_term_id s)) (inode_index d) (other_words command) cs s t"
    using execute_ok [OF ok(1) assms(2) ids assms(3-7)] assms(9,10) unfolding img_def by blast
  have img: "image_loaded L img t" "running t = new" using t(2) by (simp_all add: image_loaded_def started_def img_def)
  obtain u0 where u0: "main t = Some (r, u0)" "ran E new t u0" "user_screen u0 = fold scr_putc out (user_screen s)"
    using assms(12) [OF t(2)] by blast
  obtain m where run: "prog (entry_word img) t = Some (r, u0\<lparr>user_mem := m\<rparr>)"
      and m: "\<forall>pa. drop_bit 22 pa \<noteq> word_of_int (int new + 2) \<longrightarrow> m pa = user_mem u0 pa"
    using assms(11) img u0(1) unfolding implements_def by metis
  define u where "u = u0\<lparr>user_mem := m\<rparr>"
  have u: "ran E new t u" "user_screen u = fold scr_putc out (user_screen s)"
    using ran_scribbles [OF u0(2) m] u0(3) by (simp_all add: u_def user_mem_upd_user)
  from program_ends [OF assms(1,2) t(2) u(1) assms(7), of "word_of_int r"] obtain v where
    v: "halt L (word_of_int r) u = Some (Return_to_parent (reg_esp E) (reg_ebp E) (exit_status (word_of_int r)) v)"
      "user_ok E (gate_out v)" "user_screen (gate_out v) = user_screen u" "running (gate_out v) = running s"
      "pcbs (gate_out v) (running s) = pcbs s (running s)" "processes (gate_out v) = processes s"
      "program_frame L (gate_out v) (int (running s) + 2)" "fs_mem (gate_out v) = fs_mem s"
      "fs_sections (gate_out v) = fs_sections s" "exec_term_id (gate_out v) = exec_term_id s"
      "\<forall>pa. drop_bit 22 pa \<noteq> word_of_int (int new + 2) \<longrightarrow> user_mem (gate_out v) pa = user_mem s pa" by blast
  have "gate_in s = s" "gate_in u = u" using gate_id(1) [OF ok(4)] gate_id(1) [OF user_okD(4) [OF ranD(1) [OF u(1)]]] .
  then have "run_execute prog E L command s = Some (sint (exit_status (word_of_int r)), gate_out v)"
    using t(1) run v(1) by (simp add: run_execute_def u_def [symmetric])
  then show ?thesis using v u(2) by (intro exI [of _ "gate_out v"]) simp
qed

lemma run_execute_unknown:
  assumes "user_ok E s" "0 \<in> set command" "length (cstr command) < 128" "program_file E s (first_word command) = None"
  shows "run_execute prog E L command s = Some (- 1, s)"
proof -
  note ok = user_okD [OF assms(1)]
  have "execute E L (Some command) s = Some (Ret (- 1) s)"
    using assms(4) by (rule_tac execute_parsed [OF ok(1) assms(2,3), of L s]) simp
  then show ?thesis by (simp add: run_execute_def gate_id ok(4))
qed

subsection \<open>The shell\<close>

interpretation sout: os_output "shell_os prog E L irqs ubuf" "user_ok E" user_screen scr_putc user_table for prog E L irqs ubuf
  by unfold_locales (simp add: shell_os_def kout.write_out)

text \<open>
  The terminal calls change only the terminal: control blocks, processes, page tables and memory stay.
\<close>

definition user_on :: "env \<Rightarrow> 'a kstate_scheme \<Rightarrow> 'a kstate_scheme \<Rightarrow> bool" where
  "user_on E s0 s \<longleftrightarrow> user_ok E s \<and> same_core s0 s"

lemma user_on_refl: "user_ok E s \<Longrightarrow> user_on E s s"
  by (simp add: user_on_def same_core_refl)

lemma user_on_in: "user_on E s t \<Longrightarrow> user_in E s t"
  using same_core_view(4) [of s t] by (simp add: user_on_def user_in_def)

interpretation sin: os_input "shell_os prog E L irqs ubuf" "user_on E s0" user_screen scr_putc user_io typed_line
  for prog E L irqs ubuf s0
proof (unfold_locales, goal_cases)
  case (1 s n bs)
  then have s: "user_ok E s" "same_core s0 s" by (simp_all add: user_on_def)
  from kernel_write_out [OF s(1) 1(2), of L irqs ubuf] same_core_trans [OF s(2)] show ?case
    unfolding user_on_def shell_os_def by (simp del: fold_append) blast
next
  case (2 s l n)
  then have s: "user_ok E s" "same_core s0 s" by (simp_all add: user_on_def)
  from kernel_read_line [OF s(1) 2(2,3), of L irqs ubuf] same_core_trans [OF s(2)] show ?case
    unfolding user_on_def shell_os_def by simp blast
qed

lemma typed_line_plain:
  assumes "typed_line io = Some l"
  shows "length l < 128" "10 \<notin> set l"
proof -
  obtain v m here kb enters b where io: "io = ((v, m), here, kb, enters, b)" by (metis prod.exhaust)
  with assms have l: "length kb = BUFF_SIZE" "NEWLINE \<in> set kb" "l = takeWhile (\<lambda>c. c \<noteq> NEWLINE) kb"
    by (auto simp: typed_line_def split: if_splits)
  then show "10 \<notin> set l" using set_takeWhileD by fastforce
  have "l \<noteq> kb" using l(2) \<open>10 \<notin> set l\<close> by auto
  then show "length l < 128" using l length_takeWhile_le [of "\<lambda>c. c \<noteq> NEWLINE" kb] takeWhile_eq_take [of "\<lambda>c. c \<noteq> NEWLINE" kb]
    by (metis le_neq_implies_less order_refl take_all)
qed

text \<open>A round of the shell up to \<open>execute\<close>, on the kernel.\<close>

lemma shell_round:
  assumes "user_ok E s" "typed_line (user_io s) = Some l" "0 \<notin> set l" "length buf = 1024"
  obtains t buf' where "cstr buf' = l" "0 \<in> set buf'" "length buf' = 1024" "user_on E s t"
    "user_screen t = fold scr_putc (bytes ''391OS> '') (user_screen s)"
    "shell_step (shell_os prog E L irqs ubuf) buf s =
       (if l = bytes ''exit'' then Some (Inl (0, t))
        else if l = [] then Some (Inr (buf', t))
        else do { (rval, t) \<leftarrow> run_execute prog E L buf' t;
                  t \<leftarrow> shell_report (shell_os prog E L irqs ubuf) rval t; Some (Inr (buf', t)) })"
proof -
  note l = typed_line_plain [OF assms(2)]
  have len: "length l \<le> 1023" using l(1) by simp
  have ex: "os_execute (shell_os prog E L irqs ubuf) = run_execute prog E L" by (simp add: shell_os_def)
  show ?thesis
    by (rule sin.shell_reads [OF user_on_refl [OF assms(1)] assms(2) len assms(4,3) l(2), of prog L irqs ubuf, unfolded ex])
      (rule that)
qed

lemma words_exit: "words (bytes ''exit'') = [bytes ''exit'']"
  by (rule words_single) (simp_all add: bytes_def of_char_def)

lemma words_within: "w \<in> set (words s) \<Longrightarrow> set w \<subseteq> set s \<and> length w \<le> length s"
proof (induction s rule: words.induct)
  case (1 s)
  let ?t = "dropWhile (\<lambda>c. c = SPACE) s"
  have t: "set ?t \<subseteq> set s" "length ?t \<le> length s" by (auto dest: set_dropWhileD intro: length_dropWhile_le)
  show ?case
  proof (cases "?t = []")
    case True
    then show ?thesis using "1.prems" by (subst (asm) words.simps) simp
  next
    case False
    let ?u = "dropWhile (\<lambda>c. c \<noteq> SPACE) ?t"
    have u: "set ?u \<subseteq> set ?t" "length ?u \<le> length ?t" by (auto dest: set_dropWhileD intro: length_dropWhile_le)
    have "w = takeWhile (\<lambda>c. c \<noteq> SPACE) ?t \<or> w \<in> set (words ?u)"
      using "1.prems" [unfolded words.simps [of s] Let_def if_not_P [OF False]] by (simp only: list.set insert_iff)
    then show ?thesis
    proof
      assume "w = takeWhile (\<lambda>c. c \<noteq> SPACE) ?t"
      then have "set w \<subseteq> set ?t" "length w \<le> length ?t"
        by (auto dest: set_takeWhileD intro: length_takeWhile_le)
      then show ?thesis using t by auto
    next
      assume "w \<in> set (words ?u)"
      then have "set w \<subseteq> set ?u" "length w \<le> length ?u" using "1.IH" [OF refl] False by auto
      then show ?thesis using t u by auto
    qed
  qed
qed

text \<open>What the read of a line leaves for \<open>execute\<close>.\<close>

lemma kept_execute:
  assumes "proc_chains cs s" "user_in E s t"
  shows "proc_chains cs t" "program_file E t name = program_file E s name" "alloc_pid t = alloc_pid s"
    "length (page_directory t) = length (page_directory s)" "fs_mem t = fs_mem s" "fs_sections t = fs_sections s"
    "exec_term_id t = exec_term_id s" "running t = running s" "processes t = processes s" "lookup_name t = lookup_name s"
proof -
  have k: "kept s t" "fd_ok t" using assms(2) user_okD(2) [OF user_in_ok] by (auto simp: user_in_def)
  then show fs: "fs_mem t = fs_mem s" "fs_sections t = fs_sections s" "exec_term_id t = exec_term_id s"
      "running t = running s" "processes t = processes s" "length (page_directory t) = length (page_directory s)"
    by (simp_all add: kept_def)
  show "proc_chains cs t" using kept_chains [OF assms(1), of t] k running_shape [OF k(2)] by (simp add: kept_def)
  show "program_file E t name = program_file E s name" by (rule program_file_cong [OF fs(1,2)])
  show "alloc_pid t = alloc_pid s" by (simp add: alloc_pid_def fs)
  show "lookup_name t = lookup_name s" by (rule lookup_name_fs [OF fs(1,2)])
qed

text \<open>
  C7: The shell from the typed line to the next prompt, for a machine code of \<open>cat\<close> that does what its
  source does up to the memory of its own frame (\<open>implements\<close>) and no interrupt but those of a waiting
  read. With the line \<open>cat\<close> and the name of a file typed, a round of the shell prints its prompt and reads
  the line, the kernel finds the program, loads it into a free process and enters it, \<open>cat\<close> fetches its
  argument and copies the file to the terminal, its \<open>halt\<close> gives the processor back, and the shell is
  ready for the next round: the screen shows the prompt and the contents of the file, the process slot is
  free again, the page of the shell is mapped, its control block is as it was, and no memory outside the frame of the started program has changed.
\<close>

theorem shell_runs_cat:
  assumes "user_ok E s" "length (page_directory s) = 1024" "length buf = 1024" "off + 1024 \<le> 2 ^ 22"
    and "typed_line (user_io s) = Some l" "0 \<notin> set l" "words l = [bytes ''cat'', fname]"
    and "program_file E s (bytes ''cat'') = Some d" "alloc_pid s = Some new"
  defines "img \<equiv> contents (fs_mem s) (fs_sections s) (inode_index d)"
  assumes "28 \<le> length img" "length img \<le> 0x3B8000"
    and "implements L prog img (cat_main (kernel_os E L irqs' (user_va off)))"
    and "lookup_name s fname = Some j"
    and "type_entry (dentry_at (fs_mem s) (fs_sections s) j (uninit_dentry E)) = Some (file_fo_jump_table, ino)"
    and "inode_ok (fs_mem s) (fs_sections s) ino"
  shows "\<exists>buf' s'. shell_step (shell_os prog E L irqs ubuf) buf s = Some (Inr (buf', s')) \<and>
    length buf' = 1024 \<and> user_ok E s' \<and>
    user_screen s' = fold scr_putc (bytes ''391OS> '' @ contents (fs_mem s) (fs_sections s) ino) (user_screen s) \<and>
    running s' = running s \<and> processes s' = processes s \<and> program_frame L s' (int (running s) + 2) \<and>
    pcbs s' (running s) = pcbs s (running s) \<and>
    (\<forall>pa. drop_bit 22 pa \<noteq> word_of_int (int new + 2) \<longrightarrow> user_mem s' pa = user_mem s pa)"
proof -
  let ?out = "contents (fs_mem s) (fs_sections s) ino"
  obtain t buf' where b: "cstr buf' = l" "0 \<in> set buf'" "length buf' = 1024" and on: "user_on E s t" and t: "user_in E s t"
      "user_screen t = fold scr_putc (bytes ''391OS> '') (user_screen s)"
    and step: "shell_step (shell_os prog E L irqs ubuf) buf s =
       (if l = bytes ''exit'' then Some (Inl (0, t))
        else if l = [] then Some (Inr (buf', t))
        else do { (rval, t) \<leftarrow> run_execute prog E L buf' t;
                  t \<leftarrow> shell_report (shell_os prog E L irqs ubuf) rval t; Some (Inr (buf', t)) })"
    by (rule shell_round [OF assms(1,5,6,3)]) (use user_on_in in blast)
  obtain cs where cs: "proc_chains cs s" using user_okD(2) [OF assms(1)] by (auto simp: fd_ok_def proc_inv_def)
  note kt = kept_execute [OF cs t(1)]
  have w: "first_word buf' = bytes ''cat''" "other_words buf' = fname" "length (cstr buf') < 128"
    using assms(7) b(1) typed_line_plain(1) [OF assms(5)] by (simp_all add: first_word_def other_words_def)
  have ne: "l \<noteq> bytes ''exit''" "l \<noteq> []" using assms(7) words_exit by (auto simp: words_Nil)
  have fn: "0 \<notin> set fname" "length fname < 128"
    using words_within [of fname l] assms(6,7) typed_line_plain(1) [OF assms(5)] by auto
  have cat: "\<exists>u'. cat_main (kernel_os E L irqs' (user_va off)) u = Some (0, u') \<and> ran E new u u' \<and>
      user_screen u' = fold scr_putc ?out (user_screen t)"
    if st: "started E L new (nat (exec_term_id t)) (inode_index d) (other_words buf') cs t u" for u
  proof -
    note u = started_user [OF user_in_ok [OF t(1)] st w(2) fn(2)]
    have st': "program_frame L u (int new + 2)" "cstr (pcb_args (pcbs u new)) = fname" "fs_mem u = fs_mem t"
        "fs_sections u = fs_sections t" using st w(2) unfolding started_def by blast+
    have new: "3 \<le> new" "new < 7" using alloc_pid_free [OF cs assms(9)] by auto
    have fs: "fs_mem u = fs_mem s" "fs_sections u = fs_sections s" using st' kt by simp_all
    have "lookup_name u (pcb_args (pcbs u (running u))) = lookup_name s fname"
      using lookup_name_cstr [of "pcb_args (pcbs u new)" fname u] st'(2) lookup_name_fs [OF fs] u(5) cstr_id [OF fn(1)]
      by simp
    then show ?thesis
      using cat_runs [OF u(1) st'(1), of off j 2 ino irqs'] new assms(4,14-16) u fs unfolding ran_def by force
  qed
  have "\<exists>s'. run_execute prog E L buf' t = Some (sint (exit_status (word_of_int 0)), s') \<and>
      user_ok E s' \<and> user_screen s' = fold scr_putc ?out (user_screen t) \<and> running s' = running t \<and>
      pcbs s' (running t) = pcbs t (running t) \<and> processes s' = processes t \<and>
      program_frame L s' (int (running t) + 2) \<and> fs_mem s' = fs_mem t \<and> fs_sections s' = fs_sections t \<and>
      exec_term_id s' = exec_term_id t \<and>
      (\<forall>pa. drop_bit 22 pa \<noteq> word_of_int (int new + 2) \<longrightarrow> user_mem s' pa = user_mem t pa)"
    using assms(2,8,9,11-13) kt w
    by (intro run_execute_returns [OF user_in_ok [OF t(1)] kt(1) _ b(2) _ _ _ _ _ _ cat]) (simp_all add: img_def)
  then obtain s' where s': "run_execute prog E L buf' t = Some (0, s')" "user_ok E s'"
      "user_screen s' = fold scr_putc ?out (user_screen t)" "running s' = running s" "processes s' = processes s"
      "program_frame L s' (int (running s) + 2)" "pcbs s' (running s) = pcbs t (running s)"
      "\<forall>pa. drop_bit 22 pa \<noteq> word_of_int (int new + 2) \<longrightarrow> user_mem s' pa = user_mem t pa"
    using kt by (auto simp: exit_status_def)
  have same: "pcbs t = pcbs s" "user_mem t = user_mem s" using on by (simp_all add: user_on_def same_core_def)
  have "shell_step (shell_os prog E L irqs ubuf) buf s = Some (Inr (buf', s'))"
    using step ne s'(1) by (simp add: shell_report_def)
  then show ?thesis using b(3) s' t(2) same by (intro exI [of _ buf'] exI [of _ s']) simp
qed

text \<open>
  C15: The other rounds of the shell. A line \<open>exit\<close> ends it with status 0; an empty line changes
  nothing; a line whose first word names no executable is answered with the message that there is no such
  command. In each case the screen shows the prompt and the answer and nothing else; the processes, the
  page tables and the control blocks of the other programs are as they were.
\<close>

theorem shell_answers:
  assumes "user_ok E s" "typed_line (user_io s) = Some l" "0 \<notin> set l" "length buf = 1024"
    and "l = bytes ''exit'' \<or> l = [] \<or> program_file E s (first_word (l @ [0])) = None"
  shows "\<exists>buf' s'. shell_step (shell_os prog E L irqs ubuf) buf s =
      Some (if l = bytes ''exit'' then Inl (0, s') else Inr (buf', s')) \<and> length buf' = 1024 \<and> user_ok E s' \<and>
    user_screen s' = fold scr_putc (bytes ''391OS> '' @
      (if l = bytes ''exit'' \<or> l = [] then [] else bytes ''no such command\<newline>'')) (user_screen s) \<and>
    running s' = running s \<and> processes s' = processes s \<and> page_directory s' = page_directory s \<and>
    (\<forall>p. p \<noteq> running s \<longrightarrow> pcbs s' p = pcbs s p)"
proof -
  obtain t buf' where b: "cstr buf' = l" "0 \<in> set buf'" "length buf' = 1024" and on: "user_on E s t" and t: "user_in E s t"
      "user_screen t = fold scr_putc (bytes ''391OS> '') (user_screen s)"
    and step: "shell_step (shell_os prog E L irqs ubuf) buf s =
       (if l = bytes ''exit'' then Some (Inl (0, t))
        else if l = [] then Some (Inr (buf', t))
        else do { (rval, t) \<leftarrow> run_execute prog E L buf' t;
                  t \<leftarrow> shell_report (shell_os prog E L irqs ubuf) rval t; Some (Inr (buf', t)) })"
    by (rule shell_round [OF assms(1-4)]) (use user_on_in in blast)
  show ?thesis
  proof (cases "l = bytes ''exit'' \<or> l = []")
    case True
    then show ?thesis using step t b(3) by (intro exI [of _ buf'] exI [of _ t]) (auto simp: user_in_def kept_def)
  next
    case False
    have w: "first_word buf' = first_word (l @ [0])" using b(1) assms(3) by (simp add: first_word_def cstr_append_zero)
    obtain cs where cs: "proc_chains cs s" using user_okD(2) [OF assms(1)] by (auto simp: fd_ok_def proc_inv_def)
    have "program_file E t (first_word buf') = None"
      using assms(5) False kept_execute(2) [OF cs t(1), of "first_word buf'"] w by simp
    then have ex: "run_execute prog E L buf' t = Some (- 1, t)"
      using run_execute_unknown [OF user_in_ok [OF t(1)] b(2)] b(1) typed_line_plain(1) [OF assms(2)] by simp
    obtain u where u: "shell_report (shell_os prog E L irqs ubuf) (- 1) t = Some u"
        "sin.printed E s (report_text (- 1)) t u"
      by (rule sin.shell_report_prints [OF on])
    moreover from u(2) have "user_in E s u" using user_on_in by (auto simp: sin.printed_def)
    ultimately show ?thesis
      using step False ex t b(3) by (intro exI [of _ buf'] exI [of _ u]) (simp add: sin.printed_def report_text_def user_in_def kept_def)
  qed
qed

end
