(* ===== verification/User_Sample.thy ===== *)
theory User_Sample
  imports Sample User_Tests User_Grep User_Shell
begin

text \<open>
  The machine of \<open>Sample\<close> with a disk that holds the directory \<open>"."\<close> and a text file, a program
  whose page is mapped, an argument and a typed line; and the properties of the user programs applied
  to it.
\<close>

unbundle bit_operations_syntax

subsection \<open>The disk\<close>

definition user_disk :: mem where
  "user_disk = (\<lambda>_. 0)
     (0 := 2, 4 := 1, 8 := 1,
      64 := 46, 96 := 1,
      128 := 110, 129 := 111, 130 := 116, 131 := 101, 132 := 115, 160 := 2,
      4096 := 8,
      8192 := 99, 8193 := 97, 8194 := 116, 8195 := 10, 8196 := 100, 8197 := 111, 8198 := 103, 8199 := 10)"

definition user_fs :: fs where
  "user_fs = init_fs user_disk 0"

lemma user_fs_eq: "user_fs = \<lparr>boot_block = 0, dentries = 64, inodes = 4096, data_blocks = 8192\<rparr>"
  by (simp add: user_fs_def init_fs_def ld32_def user_disk_def)

lemma user_inode:
  "inode_length user_disk user_fs 0 = 8" "num_inodes user_disk user_fs = 1"
  "num_data_blocks user_disk user_fs = 1" "data_index user_disk user_fs 0 0 = 0"
  by (simp_all add: user_fs_eq inode_length_def num_inodes_def num_data_blocks_def data_index_def
      ld32_def user_disk_def)

lemma user_inode_ok: "inode_ok user_disk user_fs 0"
  by (simp add: inode_ok_def blocks_valid_def user_inode)

lemma user_contents: "contents user_disk user_fs 0 = bytes ''cat\<newline>dog\<newline>''"
proof -
  have "[0..<8] = [0, 1, 2, 3, 4, 5, 6, 7 :: nat]" by (simp add: upt_rec)
  then show ?thesis
    by (simp add: contents_def user_inode file_byte_def block_byte_def user_fs_eq user_inode [unfolded user_fs_eq]
        bytes_def of_char_def del: upt_rec_numeral)
      (simp add: user_disk_def)
qed

lemma user_entry_0: "entry_name user_disk user_fs 0 = bytes ''.''"
proof -
  have "mem_bytes user_disk 64 64 = bytes ''.'' @ 0 # mem_bytes user_disk 66 62"
    using mem_bytes_Suc [of user_disk 64 63] mem_bytes_Suc [of user_disk 65 62]
    by (simp add: user_disk_def bytes_def of_char_def)
  then show ?thesis by (simp add: entry_name_def dentry_addr_def user_fs_eq cstr_simps bytes_def of_char_def)
qed

lemma user_entry_1: "entry_name user_disk user_fs 1 = bytes ''notes''"
proof -
  have "mem_bytes user_disk 128 64 = bytes ''notes'' @ 0 # mem_bytes user_disk 134 58"
    using mem_bytes_Suc [of user_disk 128 63] mem_bytes_Suc [of user_disk 129 62]
      mem_bytes_Suc [of user_disk 130 61] mem_bytes_Suc [of user_disk 131 60]
      mem_bytes_Suc [of user_disk 132 59] mem_bytes_Suc [of user_disk 133 58]
    by (simp add: user_disk_def bytes_def of_char_def)
  then show ?thesis by (simp add: entry_name_def dentry_addr_def user_fs_eq cstr_simps bytes_def of_char_def)
qed

lemma user_gap: "161 \<le> a \<Longrightarrow> a < 4096 \<Longrightarrow> user_disk a = 0"
  unfolding user_disk_def by (auto simp: fun_upd_def)

lemma user_gap_at:
  assumes "k + 64 * i < 4096" "161 \<le> k + 64 * i"
  shows "user_disk (of_nat k + of_nat i * 64) = 0"
proof (rule user_gap)
  have "of_nat k + of_nat i * 64 = (of_nat (k + 64 * i) :: u32)" by (simp add: mult.commute)
  moreover have "unat (of_nat (k + 64 * i) :: u32) = k + 64 * i"
    using assms(1) by (simp only: unat_of_nat) simp
  ultimately have "unat (of_nat k + of_nat i * 64 :: u32) = k + 64 * i" by (simp only:)
  then show "161 \<le> (of_nat k + of_nat i * 64 :: u32)" "of_nat k + of_nat i * 64 < (4096 :: u32)"
    using assms by (simp_all add: word_le_nat_alt word_less_nat_alt)
qed

lemma user_entry_empty: "2 \<le> i \<Longrightarrow> i < 63 \<Longrightarrow> entry_name user_disk user_fs i = []"
  using user_gap_at [of 64 i] mem_bytes_Suc [of user_disk "64 + of_nat i * 64" 63]
  by (simp add: entry_name_def dentry_addr_def user_fs_eq cstr_simps)

lemma user_dir_upt: "[0..<63] = 0 # 1 # [2..<63 :: nat]"
  by (simp add: upt_conv_Cons [of 0] upt_conv_Cons [of "Suc 0"] numeral_2_eq_2 del: upt_rec_numeral)

lemma user_types:
  "ld32 user_disk (dentry_addr user_fs 0 + 32) = 1" "ld32 user_disk (dentry_addr user_fs 1 + 32) = 2"
  "ld32 user_disk (dentry_addr user_fs 1 + 36) = 0"
  "2 \<le> i \<Longrightarrow> i < 63 \<Longrightarrow> ld32 user_disk (dentry_addr user_fs i + 32) = 0"
proof -
  show "ld32 user_disk (dentry_addr user_fs 0 + 32) = 1" "ld32 user_disk (dentry_addr user_fs 1 + 32) = 2"
    "ld32 user_disk (dentry_addr user_fs 1 + 36) = 0"
    by (simp_all add: ld32_def dentry_addr_def user_fs_eq user_disk_def)
  assume "2 \<le> i" "i < 63"
  then show "ld32 user_disk (dentry_addr user_fs i + 32) = 0"
    using user_gap_at [of 96 i] user_gap_at [of 97 i] user_gap_at [of 98 i] user_gap_at [of 99 i]
    by (simp add: ld32_def dentry_addr_def user_fs_eq algebra_simps)
qed

lemma user_dir_plain: "dir_plain user_disk user_fs"
proof -
  have "ld32 user_disk (dentry_addr user_fs i + 32) < 2 ^ 24" if "i < 63" for i
  proof (cases "i < 2")
    case True
    then have "i = 0 \<or> i = 1" by auto
    then show ?thesis using user_types(1,2) by auto
  next
    case False
    then show ?thesis using user_types(4) [of i] that by simp
  qed
  then show ?thesis using user_entry_empty [of 62] by (simp add: dir_plain_def)
qed

lemma user_dir_names: "dir_names user_disk user_fs 0 = [bytes ''.'', bytes ''notes'']"
proof -
  have "filter (\<lambda>i. entry_name user_disk user_fs i \<noteq> []) [2..<63] = []"
    using user_entry_empty by (auto simp: filter_empty_conv simp del: upt_rec_numeral)
  then show ?thesis
    unfolding dir_names_def user_dir_upt using user_entry_0 user_entry_1
    by (simp add: bytes_def of_char_def del: upt_rec_numeral)
qed

subsection \<open>The state\<close>

definition user_pcb :: "nat \<Rightarrow> pcb_t" where
  "user_pcb = sample_pcb(0 := (sample_pcb 0)\<lparr>pcb_args := bytes ''notes'' @ replicate 123 0\<rparr>)"

definition user_base :: kstate where
  "user_base = sample\<lparr>fs_mem := user_disk, fs_sections := user_fs, pcbs := user_pcb,
     key_buff := 48 # NEWLINE # replicate 126 0, num_enters := 1, buff_index := 2\<rparr>"

definition user_sample :: kstate where
  "user_sample = snd (the (create_user_4mb_page 2 USER_PD_INDEX user_base))"

lemma user_sample_page: "create_user_4mb_page 2 USER_PD_INDEX user_base = Some (0, user_sample)"
  and user_sample_eq: "\<exists>pd. user_sample = user_base\<lparr>page_directory := pd\<rparr>"
proof -
  have "length (page_directory user_base) = 1024" by (simp add: user_base_def sample_sel)
  from create_user_4mb_page_eq [OF this, of 2 32] obtain pd where
    "create_user_4mb_page 2 32 user_base = Some (0, user_base\<lparr>page_directory := pd\<rparr>)" by auto
  then show "create_user_4mb_page 2 USER_PD_INDEX user_base = Some (0, user_sample)"
    "\<exists>pd. user_sample = user_base\<lparr>page_directory := pd\<rparr>" by (auto simp: user_sample_def)
qed

lemma user_sample_frame: "program_frame sample_layout user_sample 2"
  using create_user_4mb_page_frame(1) [OF _ _ _ user_sample_page] by (simp add: user_base_def sample_sel)

lemma user_sample_sel:
  "fs_mem user_sample = user_disk" "fs_sections user_sample = user_fs" "pcbs user_sample = user_pcb"
  "exec_term_id user_sample = 0" "curr_term_id user_sample = 0" "iflag user_sample"
  "key_buff user_sample = 48 # NEWLINE # replicate 126 0" "num_enters user_sample = 1" "buff_index user_sample = 2"
  "processes user_sample = processes sample" "terms user_sample = terms sample" "con_view user_sample = con_view sample"
proof -
  obtain pd where e: "user_sample = user_base\<lparr>page_directory := pd\<rparr>" using user_sample_eq by blast
  show "fs_mem user_sample = user_disk" "fs_sections user_sample = user_fs" "pcbs user_sample = user_pcb"
    "exec_term_id user_sample = 0" "curr_term_id user_sample = 0" "iflag user_sample"
    "key_buff user_sample = 48 # NEWLINE # replicate 126 0" "num_enters user_sample = 1" "buff_index user_sample = 2"
    "processes user_sample = processes sample" "terms user_sample = terms sample" "con_view user_sample = con_view sample"
    unfolding e user_base_def by (simp_all add: sample_sel con_view_def)
qed

lemma user_pcb_shape: "pcb_shape (user_pcb p)"
  using sample_pcb_shape [of p] sample_pcb_shape [of 0] by (simp add: user_pcb_def pcb_shape_def bytes_def)

lemma user_proc_chains: "proc_chains sample_chains user_sample"
  using sample_proc_chains user_pcb_shape unfolding proc_chains_def user_sample_sel by (auto simp: sample_sel user_pcb_def sample_chains_def sample_pcb_def)

lemma user_tty_ids: "tty_ids_ok user_sample"
  using sample_tty_ids unfolding tty_ids_ok_def user_sample_sel by (simp add: sample_sel)

lemma user_sample_running: "running user_sample = 0"
  using executing_pcb [OF user_proc_chains user_tty_ids] by (simp add: running_def user_sample_sel sample_chains_def)

lemma user_sample_view: "fd_view user_sample = fd_view sample"
  by (simp add: fun_eq_iff fd_view_def user_sample_running sample_running user_sample_sel sample_sel user_pcb_def)

lemma user_sample_ok: "user_ok sample_env user_sample"
proof -
  have "\<exists>ino pos. fd_view sample 1 = Some (Some stdout_jump_table, ino, pos)"
    using std_fds_entries [of "replicate FD_ARRAY_LEN sample_fd"]
    by (simp add: fd_view_def sample_running sample_sel sample_pcb_def Let_def)
  moreover have "tty_ok user_sample"
    using sample_tty_ok user_tty_ids unfolding tty_ok_def tty_screen_def user_sample_sel by (simp add: sample_sel)
  moreover have "fd_ok user_sample" using user_proc_chains user_tty_ids by (auto simp: fd_ok_def proc_inv_def)
  ultimately show ?thesis by (simp add: user_ok_def sample_env_ok user_sample_view user_sample_sel)
qed

lemma user_sample_stdin: "\<exists>ino pos. fd_view user_sample 0 = Some (Some stdin_jump_table, ino, pos)"
  using std_fds_entries [of "replicate FD_ARRAY_LEN sample_fd"] length_0_conv [of "std_fds (replicate FD_ARRAY_LEN sample_fd)"]
  by (auto simp: user_sample_view fd_view_def sample_running sample_sel sample_pcb_def Let_def)

lemma user_sample_free: "free_fd user_sample = Some 2"
  using sample_free_fd by (simp add: free_fd_def user_sample_view)

lemma user_lookup:
  "lookup_name user_sample (lit ''.'') = Some 0" "cstr fname = bytes ''notes'' \<Longrightarrow> lookup_name user_sample fname = Some 1"
  using user_entry_0 user_entry_1 unfolding lookup_name_def user_sample_sel user_dir_upt
  by (simp_all add: cstr_simps lit_def bytes_def of_char_def del: upt_rec_numeral)

lemma user_lookup_none:
  assumes "take 32 (cstr fname) \<notin> {bytes ''.'', bytes ''notes'', []}"
  shows "lookup_name user_sample fname = None"
proof -
  have "entry_name user_disk user_fs j \<noteq> take 32 (cstr fname)" if "j < 63" for j
    using that assms user_entry_empty [of j] user_entry_0 user_entry_1 by (cases "j < 2") (auto simp: less_2_cases_iff)
  then show ?thesis unfolding lookup_name_def user_sample_sel by (auto simp: find_None_iff simp del: upt_rec_numeral)
qed

lemma user_types_open:
  "type_entry (dentry_at user_disk user_fs 0 d) = Some (dir_fo_jump_table, 0)"
  "type_entry (dentry_at user_disk user_fs 1 d) = Some (file_fo_jump_table, 0)"
  using user_types(1-3) by (simp_all add: type_entry_def dentry_at_def)

subsection \<open>The properties on it\<close>

theorem cat_prints_file_witness:
  "\<exists>s'. cat_main (kernel_os sample_env sample_layout [] (user_va 0x1000)) user_sample = Some (0, s') \<and>
     user_screen s' = fold scr_putc (bytes ''cat\<newline>dog\<newline>'') (user_screen user_sample)"
proof -
  have a: "pcb_args (pcbs user_sample (running user_sample)) = bytes ''notes'' @ 0 # replicate 122 0"
    by (simp add: user_sample_running user_sample_sel user_pcb_def numeral_eq_Suc)
  then have "cstr (pcb_args (pcbs user_sample (running user_sample))) = bytes ''notes''"
    by (simp add: bytes_def of_char_def cstr_simps)
  from cat_prints_file [OF user_sample_ok user_sample_frame _ _ _ _ user_lookup(2) [OF this] user_sample_free, of "0x1000" 0 "[]"]
  show ?thesis using a user_types_open(2) by (auto simp: user_sample_sel user_inode_ok user_contents)
qed

theorem ls_lists_directory_witness:
  "\<exists>s'. ls_main (kernel_os sample_env sample_layout [] 0) (replicate 33 0) user_sample = Some (0, s') \<and>
     user_screen s' = fold scr_putc (bytes ''.\<newline>notes\<newline>'') (user_screen user_sample)"
  using ls_lists_directory [OF user_sample_ok user_lookup(1) user_sample_free, of 0 "replicate 33 0" sample_layout "[]" 0]
  by (auto simp: user_sample_sel user_types_open user_dir_plain user_dir_names bytes_def of_char_def)

lemma user_typed: "typed_line (user_io user_sample) = Some [48]"
  using user_sample_stdin
  by (auto simp: typed_line_def user_io_def user_table_def tty_input_def user_sample_sel)

theorem syserr_passes_witness:
  "test_ready sample_env user_sample \<and>
   (\<exists>s'. syserr_all (kernel_os sample_env sample_layout [] 0) (replicate 32 0) user_sample = Some (0, s') \<and> test_ready sample_env s')"
proof -
  have "test_ready sample_env user_sample"
    unfolding test_ready_def user_sample_sel
    using user_sample_ok user_sample_view sample_fd_view user_sample_stdin user_lookup(1) user_types_open(1)
      user_lookup_none [of "lit ''helloo''"] user_lookup_none [of "lit ''shel''"]
    by (simp add: lit_def bytes_def of_char_def cstr_simps)
  then show ?thesis using syserr_passes [of sample_env user_sample sample_layout "[]" 0 "replicate 32 0"] by blast
qed

theorem grep_finds_lines_witness:
  "\<exists>s'. do_one_file (kernel_os sample_env sample_layout [] 0) (replicate 1025 0) (lit ''og'') (lit ''notes'') user_sample = Some (0, s') \<and>
     user_screen s' = fold scr_putc (bytes ''notes:dog\<newline>'') (user_screen user_sample)"
proof -
  have n: "cstr (lit ''notes'') = bytes ''notes''" "0 \<in> set (lit ''notes'')" by (simp_all add: lit_def bytes_def of_char_def cstr_simps)
  have p: "pattern_ok (bytes ''og'') (lit ''og'')" by (simp add: pattern_ok_def lit_def bytes_def of_char_def)
  have l: "split_lines (bytes ''cat\<newline>dog\<newline>'') = [bytes ''cat'', bytes ''dog'', []]" by (simp add: bytes_def of_char_def)
  have sub: "sublist (bytes ''og'') (bytes ''dog'')" "\<not> sublist (bytes ''og'') (bytes ''cat'')" "\<not> sublist (bytes ''og'') []"
    by (simp_all add: bytes_def of_char_def sublist_Cons_right)
  have z: "0 \<notin> set (contents (fs_mem user_sample) (fs_sections user_sample) 0)"
    by (simp add: user_sample_sel user_contents bytes_def of_char_def)
  have "\<exists>s'. do_one_file (kernel_os sample_env sample_layout [] 0) (replicate 1025 0) (lit ''og'') (lit ''notes'') user_sample = Some (0, s') \<and>
      user_ok sample_env s' \<and> user_screen s' = fold scr_putc (concat (map (\<lambda>l. if sublist (bytes ''og'') l then cstr (lit ''notes'') @ [58] @ l @ [10] else [])
        (split_lines (contents (fs_mem user_sample) (fs_sections user_sample) 0)))) (user_screen user_sample) \<and>
      fd_view s' 2 = None"
    by (rule grep_finds_lines [OF user_sample_ok p n(2) user_lookup(2) [OF n(1)] user_sample_free _ _ z])
      (use user_types_open(2) in \<open>auto simp: user_sample_sel user_inode_ok user_contents l bytes_def\<close>)
  then show ?thesis by (auto simp: user_sample_sel user_contents l sub n(1)) (auto simp: bytes_def of_char_def)
qed

subsection \<open>A machine with a program on its disk\<close>

text \<open>
  The only file is the program \<open>cat\<close>, with the bytes of \<open>sample_file\<close>; the command typed asks it to
  print itself.
\<close>

definition cat_disk :: mem where
  "cat_disk = sample_mem(64 := 99, 65 := 97, 66 := 116, 67 := 0, 68 := 0)"

definition shell_sample :: kstate where
  "shell_sample = user_sample\<lparr>fs_mem := cat_disk, key_buff := bytes ''cat cat'' @ NEWLINE # replicate 120 0,
     num_enters := 1, buff_index := 8\<rparr>"

lemma shell_sample_sel:
  "fs_mem shell_sample = cat_disk" "fs_sections shell_sample = user_fs" "pcbs shell_sample = user_pcb"
  "exec_term_id shell_sample = 0" "curr_term_id shell_sample = 0" "iflag shell_sample"
  "key_buff shell_sample = bytes ''cat cat'' @ NEWLINE # replicate 120 0" "num_enters shell_sample = 1"
  "processes shell_sample = [True, False, False, False, False, False, False]"
  "length (page_directory shell_sample) = 1024"
proof -
  obtain pd where "user_sample = user_base\<lparr>page_directory := pd\<rparr>" using user_sample_eq by blast
  moreover have "length (page_directory user_sample) = 1024"
  proof -
    have l: "length (page_directory user_base) = 1024" by (simp add: user_base_def sample_sel)
    from create_user_4mb_page_eq [OF l, of 2 32] user_sample_page obtain x
      where e: "user_sample = user_base\<lparr>page_directory := (page_directory user_base)[32 := x]\<rparr>" by auto
    show ?thesis unfolding e using l by simp
  qed
  ultimately show "fs_mem shell_sample = cat_disk" "fs_sections shell_sample = user_fs" "pcbs shell_sample = user_pcb"
    "exec_term_id shell_sample = 0" "curr_term_id shell_sample = 0" "iflag shell_sample"
    "key_buff shell_sample = bytes ''cat cat'' @ NEWLINE # replicate 120 0" "num_enters shell_sample = 1"
    "processes shell_sample = [True, False, False, False, False, False, False]"
    "length (page_directory shell_sample) = 1024"
    by (simp_all add: shell_sample_def user_sample_sel sample_sel)
qed

lemma shell_sample_view: "running shell_sample = 0" "fd_view shell_sample = fd_view user_sample"
proof -
  show "running shell_sample = 0"
    using user_sample_running by (simp add: shell_sample_def running_def get_current_executing_pcb_def)
  then show "fd_view shell_sample = fd_view user_sample"
    by (simp add: fun_eq_iff fd_view_def user_sample_running shell_sample_sel user_sample_sel)
qed

lemma shell_sample_ok: "user_ok sample_env shell_sample"
proof -
  have "fd_ok shell_sample = fd_ok user_sample" "tty_ok shell_sample = tty_ok user_sample"
    by (simp_all add: shell_sample_def fd_ok_def proc_inv_def proc_chains_def tty_ids_ok_def tty_ok_def tty_screen_def con_view_def)
  then show ?thesis using user_sample_ok by (simp add: user_ok_def shell_sample_view shell_sample_sel)
qed

lemma shell_typed: "typed_line (user_io shell_sample) = Some (bytes ''cat cat'')"
proof -
  have "length (bytes ''cat cat'' @ NEWLINE # replicate 120 0) = BUFF_SIZE" by simp
  moreover have "takeWhile (\<lambda>c. c \<noteq> NEWLINE) (bytes ''cat cat'' @ NEWLINE # replicate 120 0) = bytes ''cat cat''"
    by (simp add: bytes_def of_char_def)
  moreover have "NEWLINE \<in> set (bytes ''cat cat'' @ NEWLINE # replicate 120 0)" by simp
  ultimately show ?thesis
    using user_sample_stdin
    by (auto simp: typed_line_def user_io_def user_table_def tty_input_def shell_sample_sel shell_sample_view
        simp del: append_Cons)
qed

lemma cat_inode:
  "inode_length cat_disk user_fs 0 = 28" "num_inodes cat_disk user_fs = 1"
  "num_data_blocks cat_disk user_fs = 1" "data_index cat_disk user_fs 0 0 = 0"
  by (simp_all add: user_fs_eq inode_length_def num_inodes_def num_data_blocks_def data_index_def
      ld32_def cat_disk_def sample_mem_def)

lemma cat_inode_ok: "inode_ok cat_disk user_fs 0"
  by (simp add: inode_ok_def blocks_valid_def cat_inode)

lemma cat_contents: "contents cat_disk user_fs 0 = sample_file"
proof -
  have fs: "sample_fs = user_fs" "data_blocks user_fs = 8192" by (simp_all add: user_fs_eq sample_fs_eq)
  have "cat_disk (8192 + of_nat i) = sample_mem (8192 + of_nat i)" if "i < 28" for i
  proof -
    have "unat (8192 + of_nat i :: u32) = 8192 + i" using that by (simp add: unat_word_ariths unat_of_nat)
    then have "(8192 + of_nat i :: u32) \<noteq> x" if "unat x < 100" for x using that by auto
    from this [of 64] this [of 65] this [of 66] this [of 67] this [of 68]
    have "(8192 + of_nat i :: u32) \<notin> {64, 65, 66, 67, 68}" by simp
    then show ?thesis by (simp add: cat_disk_def)
  qed
  then have "file_byte cat_disk user_fs 0 i = file_byte sample_mem user_fs 0 i" if "i < 28" for i
    using that cat_inode(4) sample_inode(4) by (simp add: file_byte_def block_byte_def fs)
  then show ?thesis
    unfolding sample_contents [symmetric] contents_def fs(1) using cat_inode(1) sample_inode(1) by (simp add: fs(1))
qed

lemma cat_entry_0: "entry_name cat_disk user_fs 0 = bytes ''cat''"
proof -
  have "mem_bytes cat_disk 64 64 = bytes ''cat'' @ 0 # mem_bytes cat_disk 68 60"
    using mem_bytes_Suc [of cat_disk 64 63] mem_bytes_Suc [of cat_disk 65 62]
      mem_bytes_Suc [of cat_disk 66 61] mem_bytes_Suc [of cat_disk 67 60]
    by (simp add: cat_disk_def bytes_def of_char_def)
  then show ?thesis by (simp add: entry_name_def dentry_addr_def user_fs_eq cstr_simps bytes_def of_char_def)
qed

lemma cat_lookup: "lookup_name shell_sample (bytes ''cat'') = Some 0"
  unfolding lookup_name_def shell_sample_sel user_dir_upt
  using cat_entry_0 by (simp add: cstr_simps bytes_def of_char_def del: upt_rec_numeral)

definition cat_dentry :: dentry_t where
  "cat_dentry = dentry_at cat_disk user_fs 0 (uninit_dentry sample_env)"

lemma cat_dentry_sel: "inode_index cat_dentry = 0" "type_entry cat_dentry = Some (file_fo_jump_table, 0)"
  by (simp_all add: cat_dentry_def dentry_at_def type_entry_def ld32_def dentry_addr_def user_fs_eq cat_disk_def sample_mem_def)

lemma cat_program: "program_file sample_env shell_sample (bytes ''cat'') = Some cat_dentry"
  using cat_lookup cat_inode_ok cat_contents cat_dentry_sel(1)
  by (simp add: program_file_def is_elf_def shell_sample_sel cat_dentry_def [symmetric] sample_file_def elf_magic_def)

lemma cat_words: "words (bytes ''cat cat'') = [bytes ''cat'', bytes ''cat'']"
  by (simp add: bytes_def of_char_def words.simps)

text \<open>A program that does what \<open>cat\<close> does and leaves the whole of its frame overwritten.\<close>

definition sample_cat :: "u32 \<Rightarrow> kstate \<Rightarrow> (int \<times> kstate) option" where
  "sample_cat e s = do {
     (r, s') \<leftarrow> cat_main (kernel_os sample_env sample_layout [] (user_va 0x1000)) s;
     Some (r, s'\<lparr>user_mem := (\<lambda>pa. if drop_bit 22 pa = word_of_int (int (running s) + 2) then 7 else user_mem s' pa)\<rparr>)
   }"

theorem shell_runs_cat_witness:
  "\<exists>buf' s'. shell_step (shell_os sample_cat sample_env sample_layout [] 0) (replicate 1024 0) shell_sample =
       Some (Inr (buf', s')) \<and>
     user_screen s' = fold scr_putc (bytes ''391OS> '' @ sample_file) (user_screen shell_sample) \<and> running s' = 0"
proof -
  have impl: "implements sample_layout sample_cat img (cat_main (kernel_os sample_env sample_layout [] (user_va 0x1000)))" for img
    by (auto simp: implements_def sample_cat_def)
  have nz: "0 \<notin> set (bytes ''cat cat'')" by (simp add: bytes_def of_char_def)
  have al: "alloc_pid shell_sample = Some 3"
    by (simp add: alloc_pid_def shell_sample_sel upt_conv_Cons)
  have ty: "type_entry (dentry_at (fs_mem shell_sample) (fs_sections shell_sample) 0 (uninit_dentry sample_env)) =
      Some (file_fo_jump_table, 0)"
    using cat_dentry_sel(2) by (simp add: shell_sample_sel cat_dentry_def)
  have len: "28 \<le> length (contents (fs_mem shell_sample) (fs_sections shell_sample) (inode_index cat_dentry))"
      "length (contents (fs_mem shell_sample) (fs_sections shell_sample) (inode_index cat_dentry)) \<le> 0x3B8000"
    by (simp_all add: shell_sample_sel cat_dentry_sel cat_contents length_sample_file)
  have b: "length (replicate 1024 (0 :: u8)) = 1024" "0x1000 + 1024 \<le> (2 :: nat) ^ 22" by simp_all
  have ino: "inode_ok (fs_mem shell_sample) (fs_sections shell_sample) 0" by (simp add: shell_sample_sel cat_inode_ok)
  from shell_runs_cat [OF shell_sample_ok shell_sample_sel(10) b shell_typed nz cat_words cat_program al len impl cat_lookup ty ino,
      of "[]" 0]
  show ?thesis by (auto simp: shell_sample_sel cat_contents shell_sample_view)
qed

theorem shell_answers_witness:
  "\<exists>buf' s'. shell_step (shell_os (\<lambda>_ _. None) sample_env sample_layout [] 0) (replicate 1024 0) user_sample =
       Some (Inr (buf', s')) \<and>
     user_screen s' = fold scr_putc (bytes ''391OS> no such command\<newline>'') (user_screen user_sample)"
proof -
  have "words [48] = [[48 :: u8]]" by (rule words_single) simp_all
  then have "first_word ([48] @ [0]) = [48]" by (simp add: first_word_def cstr_simps)
  moreover have "lookup_name user_sample [48] = None" by (rule user_lookup_none) (simp add: cstr_simps bytes_def of_char_def)
  ultimately have "program_file sample_env user_sample (first_word ([48] @ [0])) = None" by (simp add: program_file_def)
  then have u: "[48] = bytes ''exit'' \<or> [48] = ([] :: u8 list) \<or> program_file sample_env user_sample (first_word ([48] @ [0])) = None"
    by blast
  have b: "0 \<notin> set [48 :: u8]" "length (replicate 1024 (0 :: u8)) = 1024" by simp_all
  have ne: "[48] \<noteq> bytes ''exit''" "bytes ''391OS> '' @ bytes ''no such command\<newline>'' = bytes ''391OS> no such command\<newline>''"
    by (simp_all add: bytes_def of_char_def)
  from shell_answers [OF user_sample_ok user_typed b u, of "\<lambda>_ _. None" sample_layout "[]" 0]
  show ?thesis using ne by auto
qed

end
