(* ===== verification/Pingpong.thy ===== *)
theory Pingpong
  imports User_OS Filesys
begin

text \<open>
  The program \<open>src/syscalls/ece391pingpong.c\<close>: a letter that bounces between two walls, one line and one
  tick of the clock for each position, the next letter after each round. Its main loop has no end, so the
  model is the state after a number of rounds.
\<close>

subsection \<open>The program\<close>

abbreviation (input) BUFMAX :: int where "BUFMAX \<equiv> 79 + 2"
abbreviation (input) START :: int where "START \<equiv> 1"
abbreviation (input) STARTLOOP :: int where "STARTLOOP \<equiv> 1 + 1"
abbreviation (input) LOOPMAX :: int where "LOOPMAX \<equiv> 79 + 2 - 2 - 1"
abbreviation (input) STARTCHAR :: u8 where "STARTCHAR \<equiv> 65"
abbreviation (input) ENDCHAR :: u8 where "ENDCHAR \<equiv> 90"

function clear_buf :: "u8 list \<Rightarrow> int \<Rightarrow> int \<Rightarrow> u8 list option" where
  "clear_buf buf i n = (if i < n then do { buf \<leftarrow> wr buf i 32; clear_buf buf (i + 1) n } else Some buf)"
  by pat_completeness auto
termination
  by (relation "measure (\<lambda>(buf, i, n). nat (n - i))") auto

declare clear_buf.simps [simp del]

text \<open>The world before the loop: two walls, the newline and the end of the string.\<close>

definition pingpong_walls :: "u8 list \<Rightarrow> u8 list option" where
  "pingpong_walls buf = do {
     buf \<leftarrow> clear_buf buf 0 BUFMAX;
     buf \<leftarrow> wr buf (BUFMAX - 1) 0;
     buf \<leftarrow> wr buf (BUFMAX - 2) 10;
     buf \<leftarrow> wr buf (BUFMAX - 3) 124;
     wr buf START 124
   }"

definition pingpong_draw :: "'s os \<Rightarrow> int \<Rightarrow> u8 \<Rightarrow> int \<Rightarrow> u8 list \<Rightarrow> 's \<Rightarrow> (u8 list \<times> 's) option" where
  "pingpong_draw OS rtc_fd curchar j buf s = do {
     buf \<leftarrow> clear_buf buf STARTLOOP LOOPMAX;
     buf \<leftarrow> wr buf j curchar;
     s \<leftarrow> ece391_fdputs OS 1 buf s;
     (_, garbage, s) \<leftarrow> os_read OS rtc_fd 4 s;
     Some (buf, s)
   }"

function pingpong_out :: "'s os \<Rightarrow> int \<Rightarrow> u8 \<Rightarrow> int \<Rightarrow> u8 list \<Rightarrow> 's \<Rightarrow> (u8 list \<times> 's) option" where
  "pingpong_out OS rtc_fd curchar j buf s =
     (if j < LOOPMAX then do {
        (buf, s) \<leftarrow> pingpong_draw OS rtc_fd curchar j buf s;
        pingpong_out OS rtc_fd curchar (j + 1) buf s
      }
      else Some (buf, s))"
  by pat_completeness auto
termination
  by (relation "measure (\<lambda>(OS, rtc_fd, c, j, buf, s). nat (LOOPMAX - j))") auto

function pingpong_back :: "'s os \<Rightarrow> int \<Rightarrow> u8 \<Rightarrow> int \<Rightarrow> u8 list \<Rightarrow> 's \<Rightarrow> (u8 list \<times> 's) option" where
  "pingpong_back OS rtc_fd curchar j buf s =
     (if STARTLOOP \<le> j then do {
        (buf, s) \<leftarrow> pingpong_draw OS rtc_fd curchar j buf s;
        pingpong_back OS rtc_fd curchar (j - 1) buf s
      }
      else Some (buf, s))"
  by pat_completeness auto
termination
  by (relation "measure (\<lambda>(OS, rtc_fd, c, j, buf, s). nat (j - START))") auto

declare pingpong_out.simps [simp del] pingpong_back.simps [simp del]

definition pingpong_round :: "'s os \<Rightarrow> int \<Rightarrow> u8 \<Rightarrow> u8 list \<Rightarrow> 's \<Rightarrow> (u8 \<times> u8 list \<times> 's) option" where
  "pingpong_round OS rtc_fd curchar buf s = do {
     (buf, s) \<leftarrow> pingpong_out OS rtc_fd curchar STARTLOOP buf s;
     (buf, s) \<leftarrow> pingpong_back OS rtc_fd curchar (LOOPMAX - 1) buf s;
     Some (if curchar = ENDCHAR then STARTCHAR else curchar + 1, buf, s)
   }"

fun pingpong_rounds :: "'s os \<Rightarrow> int \<Rightarrow> nat \<Rightarrow> u8 \<Rightarrow> u8 list \<Rightarrow> 's \<Rightarrow> (u8 \<times> u8 list \<times> 's) option" where
  "pingpong_rounds OS rtc_fd 0 curchar buf s = Some (curchar, buf, s)"
| "pingpong_rounds OS rtc_fd (Suc n) curchar buf s = do {
     (curchar, buf, s) \<leftarrow> pingpong_round OS rtc_fd curchar buf s;
     pingpong_rounds OS rtc_fd n curchar buf s
   }"

definition pingpong_main :: "'s os \<Rightarrow> nat \<Rightarrow> u8 list \<Rightarrow> 's \<Rightarrow> 's option" where
  "pingpong_main OS n buf s = do {
     buf \<leftarrow> pingpong_walls buf;
     (rtc_fd, s) \<leftarrow> os_open OS (lit ''rtc'') s;
     (_, s) \<leftarrow> os_write OS rtc_fd (le32 32) 4 s;
     (_, _, s) \<leftarrow> pingpong_rounds OS rtc_fd n STARTCHAR buf s;
     Some s
   }"

subsection \<open>What it prints\<close>

definition world :: "u8 list \<Rightarrow> bool" where
  "world buf \<longleftrightarrow> length buf = 81 \<and> take 2 buf = [32, 124] \<and> drop 78 buf = [124, 10, 0]"

definition court_line :: "u8 \<Rightarrow> nat \<Rightarrow> u8 list" where
  "court_line c j = [32, 124] @ (replicate 76 32)[j - 2 := c] @ [124, 10]"

definition round_text :: "u8 \<Rightarrow> u8 list" where
  "round_text c = concat (map (court_line c) ([2..<78] @ rev [2..<78]))"

definition letter :: "nat \<Rightarrow> u8" where
  "letter k = 65 + of_nat (k mod 26)"

lemma clear_buf_ok:
  "i \<le> n \<Longrightarrow> n \<le> length buf \<Longrightarrow>
     clear_buf buf (int i) (int n) = Some (take i buf @ replicate (n - i) 32 @ drop n buf)"
proof (induction "n - i" arbitrary: i buf)
  case 0
  then show ?case by (subst clear_buf.simps) simp
next
  case (Suc k)
  then have i: "i < n" "i < length buf" by auto
  have "clear_buf (buf[i := 32]) (int (Suc i)) (int n) = Some (take (Suc i) (buf[i := 32]) @ replicate (n - Suc i) 32 @ drop n (buf[i := 32]))"
    using Suc.hyps(1) [of "Suc i" "buf[i := 32]"] Suc.hyps(2) Suc.prems i by simp
  moreover have "take (Suc i) (buf[i := 32]) = take i buf @ [32]" using i by (simp add: take_Suc_conv_app_nth)
  moreover have "replicate (n - i) (32 :: u8) = 32 # replicate (n - Suc i) 32" using i by (simp add: Suc_diff_Suc flip: replicate_Suc)
  ultimately show ?case using i by (subst clear_buf.simps) (simp add: wr_nat add.commute)
qed

lemma walls_world: "length buf = 81 \<Longrightarrow> \<exists>b. pingpong_walls buf = Some b \<and> world b"
proof -
  assume "length buf = 81"
  then have "clear_buf buf 0 81 = Some (replicate 81 32)" using clear_buf_ok [of 0 81 buf] by simp
  moreover have "(replicate 81 (32 :: u8))[80 := 0, 79 := 10, 78 := 124, 1 := 124] = [32, 124] @ replicate 76 32 @ [124, 10, 0]"
    by (simp add: numeral_eq_Suc)
  ultimately show ?thesis by (simp add: pingpong_walls_def wr_in world_def)
qed

context os_clock
begin

lemma draw_prints:
  assumes "ok s" "clock (table s) fd" "world buf" "2 \<le> j" "j < 78" "c \<noteq> 0"
  obtains b t where "pingpong_draw OS fd c (int j) buf s = Some (b, t)" "world b" "ticked 1 (court_line c j) s t"
proof -
  have cl: "clear_buf buf 2 78 = Some ([32, 124] @ replicate 76 32 @ [124, 10, 0])"
    using clear_buf_ok [of 2 78 buf] assms(3) by (simp add: world_def)
  let ?b = "[32, 124] @ (replicate 76 32)[j - 2 := c] @ [124, 10, 0]"
  obtain k where k: "j = 2 + k" "k < 76" using le_Suc_ex [OF assms(4)] assms(5) by auto
  have w: "wr ([32, 124] @ replicate 76 32 @ [124, 10, 0]) (int j) c = Some ?b"
    using assms(4,5) k by (simp only: wr_nat) (simp add: list_update_append)
  have "printed (court_line c j) s t \<longleftrightarrow> printed (cstr ?b) s t" for t
  proof -
    have "0 \<notin> set (court_line c j)" using assms(6) set_update_subset_insert [of "replicate 76 (32 :: u8)" "j - 2" c] by (auto simp: court_line_def)
    then have "cstr (court_line c j @ 0 # []) = court_line c j" by (rule cstr_append_zero)
    then show ?thesis by (simp add: court_line_def)
  qed
  then obtain t where t: "ece391_fdputs OS 1 ?b s = Some t" "printed (court_line c j) s t"
    using fdputs_printed [OF assms(1), of ?b] by auto
  then have "ok t" "clock (table t) fd" using assms(2) by (simp_all add: printed_def)
  then obtain u where u: "os_read OS fd 4 t = Some (0, [], u)" "ticked 1 [] t u" by (rule read_ticked)
  have "pingpong_draw OS fd c (int j) buf s = Some (?b, u)"
    using cl w t(1) u(1) by (simp add: pingpong_draw_def)
  moreover have "world ?b" by (simp add: world_def)
  moreover have "ticked 1 (court_line c j) s u" using ticked_trans [OF printed_ticked [OF t(2)] u(2)] by simp
  ultimately show ?thesis using that by blast
qed

lemma sweep_out_prints:
  assumes "ok s" "clock (table s) fd" "world buf" "2 \<le> j" "j \<le> 78" "c \<noteq> 0"
  shows "\<exists>b t. pingpong_out OS fd c (int j) buf s = Some (b, t) \<and> world b \<and>
    ticked (78 - j) (concat (map (court_line c) [j..<78])) s t"
  using assms
proof (induction "78 - j" arbitrary: j buf s)
  case 0
  then show ?case by (subst pingpong_out.simps) (simp add: ticked_refl)
next
  case (Suc k)
  then have j: "j < 78" by simp
  obtain b t where b: "pingpong_draw OS fd c (int j) buf s = Some (b, t)" "world b" "ticked 1 (court_line c j) s t"
    by (rule draw_prints [OF Suc.prems(1-4) j Suc.prems(6)])
  then have "ok t" "clock (table t) fd" using Suc.prems(2) ticked_clock [OF b(3)] by simp_all
  then obtain b' u where "pingpong_out OS fd c (int (Suc j)) b t = Some (b', u)" "world b'"
      "ticked (78 - Suc j) (concat (map (court_line c) [Suc j..<78])) t u"
    using Suc.hyps(1) [of "Suc j", OF _ _ _ b(2) _ _ Suc.prems(6)] Suc.hyps(2) Suc.prems(4) j by (force simp del: of_nat_Suc upt_rec_numeral)
  moreover have "[j..<78] = j # [Suc j..<78]" "78 - j = 1 + (78 - Suc j)" using j by (simp_all add: upt_conv_Cons del: upt_rec_numeral)
  ultimately show ?case
    using b(1) j ticked_trans [OF b(3)] by (subst pingpong_out.simps) (simp add: add.commute del: upt_rec_numeral)
qed

lemma sweep_back_prints:
  assumes "ok s" "clock (table s) fd" "world buf" "j \<le> 76" "c \<noteq> 0"
  shows "\<exists>b t. pingpong_back OS fd c (int j + 1) buf s = Some (b, t) \<and> world b \<and>
    ticked j (concat (map (court_line c) (rev [2..<j + 2]))) s t"
  using assms
proof (induction j arbitrary: buf s)
  case 0
  then show ?case by (subst pingpong_back.simps) (simp add: ticked_refl)
next
  case (Suc j)
  obtain b t where b: "pingpong_draw OS fd c (int (j + 2)) buf s = Some (b, t)" "world b" "ticked 1 (court_line c (j + 2)) s t"
    using draw_prints [OF Suc.prems(1-3), of "j + 2" c] Suc.prems(4,5) by auto
  then have "ok t" "clock (table t) fd" using Suc.prems(2) ticked_clock [OF b(3)] by simp_all
  then obtain b' u where "pingpong_back OS fd c (int j + 1) b t = Some (b', u)" "world b'"
      "ticked j (concat (map (court_line c) (rev [2..<j + 2]))) t u"
    using Suc.IH [of t b] Suc.prems b(2) by auto
  moreover have "rev [2..<Suc j + 2] = (j + 2) # rev [2..<j + 2]" by simp
  moreover have "int (Suc j) + 1 = int (j + 2)" "int (j + 2) - 1 = int j + 1" by simp_all
  moreover have "pingpong_back OS fd c (int (j + 2)) buf s = pingpong_back OS fd c (int (j + 2) - 1) b t"
    using b(1) by (subst pingpong_back.simps) simp
  ultimately show ?case
    using ticked_trans [OF b(3)] by (auto simp: add.commute simp del: upt_Suc upt_rec_numeral)
qed

lemma round_prints:
  assumes "ok s" "clock (table s) fd" "world buf" "c \<noteq> 0"
  obtains b t where "pingpong_round OS fd c buf s = Some (if c = 90 then 65 else c + 1, b, t)" "world b" "ticked 152 (round_text c) s t"
proof -
  obtain b t where b: "pingpong_out OS fd c 2 buf s = Some (b, t)" "world b"
      "ticked 76 (concat (map (court_line c) [2..<78])) s t"
    using sweep_out_prints [OF assms(1-3), of 2 c] assms(4) by (auto simp del: upt_rec_numeral)
  then have "ok t" "clock (table t) fd" using assms(2) ticked_clock [OF b(3)] by simp_all
  then obtain b' u where "pingpong_back OS fd c 77 b t = Some (b', u)" "world b'" "ticked 76 (concat (map (court_line c) (rev [2..<78]))) t u"
    using sweep_back_prints [of t fd b 76 c] assms(4) b(2) by (auto simp del: upt_rec_numeral)
  then show ?thesis
    using that b(1) ticked_trans [OF b(3)] by (force simp add: pingpong_round_def round_text_def del: upt_rec_numeral)
qed

lemma letter_next: "(if letter k = 90 then 65 else letter k + 1) = letter (Suc k)" "letter k \<noteq> 0"
proof -
  have u: "unat (letter k) = 65 + k mod 26" for k
  proof -
    have "k mod 26 < 26" by simp
    then show ?thesis by (simp add: letter_def unat_word_ariths unat_of_nat)
  qed
  show "letter k \<noteq> 0" using u [of k] by auto
  have "letter k = 90 \<longleftrightarrow> k mod 26 = 25" using u [of k] by (simp add: word_unat_eq_iff)
  moreover have "Suc k mod 26 = (if k mod 26 = 25 then 0 else Suc (k mod 26))" by (simp add: mod_Suc)
  ultimately show "(if letter k = 90 then 65 else letter k + 1) = letter (Suc k)" by (simp add: letter_def)
qed

lemma rounds_print:
  assumes "ok s" "clock (table s) fd" "world buf"
  shows "\<exists>b t. pingpong_rounds OS fd n (letter k) buf s = Some (letter (k + n), b, t) \<and>
    ticked (152 * n) (concat (map (\<lambda>i. round_text (letter i)) [k..<k + n])) s t"
  using assms
proof (induction n arbitrary: k buf s)
  case 0
  then show ?case by (simp add: ticked_refl)
next
  case (Suc n)
  obtain b t where b: "pingpong_round OS fd (letter k) buf s = Some (letter (Suc k), b, t)" "world b" "ticked 152 (round_text (letter k)) s t"
    by (rule round_prints [OF Suc.prems letter_next(2) [of k], unfolded letter_next(1)])
  then have "ok t" "clock (table t) fd" using Suc.prems(2) ticked_clock [OF b(3)] by simp_all
  from Suc.IH [OF this b(2), of "Suc k"] obtain b' u where "pingpong_rounds OS fd n (letter (Suc k)) b t = Some (letter (k + Suc n), b', u)"
      "ticked (152 * n) (concat (map (\<lambda>i. round_text (letter i)) [Suc k..<k + Suc n])) t u"
    by auto
  moreover have "[k..<k + Suc n] = k # [Suc k..<k + Suc n]" by (rule upt_conv_Cons) simp
  ultimately show ?case using b(1) ticked_trans [OF b(3)] by (simp del: upt_Suc)
qed

end

end
