(* ===== verification/Blink.thy ===== *)
theory Blink
  imports User_Lib
begin

text \<open>
  The blinking characters of \<open>src/fish\<close>: the list of blink structures of \<open>blink.S\<close> with its
  allocator in \<open>fish.c\<close>. A structure lives in a slot of \<open>blink_array\<close>, so a pointer is the index
  of a slot; the text screen the program maps with \<open>vidmap\<close> is the byte list \<open>vmem\<close>. A loop over the
  list ends only when the list does, so the loops are partial functions.

  The specification is the list of the structures from the head on: adding puts one in front, removing
  takes the first one at a location out, the clock tick advances each. It holds as long as no character
  blinks at location 0, the mark of a free slot.
\<close>

unbundle bit_operations_syntax

subsection \<open>State\<close>

record mp1_blink_struct =
  location :: u16
  on_char :: u8
  off_char :: u8
  on_length :: u16
  off_length :: u16
  countdown :: u16
  status :: u16
  next_blink :: "nat option"

record blinks =
  blink_array :: "mp1_blink_struct list"
  mp1_list_head :: "nat option"
  vmem :: "u8 list"

abbreviation NUM_BLINKS :: nat where "NUM_BLINKS \<equiv> 80 * 25"

definition free_blink :: mp1_blink_struct where
  "free_blink = \<lparr>location = 0, on_char = 0, off_char = 0, on_length = 0, off_length = 0, countdown = 0,
     status = 0, next_blink = None\<rparr>"

subsection \<open>Operations\<close>

definition mp1_malloc :: "blinks \<Rightarrow> nat option" where
  "mp1_malloc b = find (\<lambda>i. location (blink_array b ! i) = 0) [0..<NUM_BLINKS]"

definition mp1_free :: "nat \<Rightarrow> blinks \<Rightarrow> blinks option" where
  "mp1_free p b = do { a \<leftarrow> wr (blink_array b) (int p) free_blink; Some (b\<lparr>blink_array := a\<rparr>) }"

definition mp1_poke :: "u8 \<Rightarrow> u16 \<Rightarrow> blinks \<Rightarrow> blinks option" where
  "mp1_poke cl loc b = do { v \<leftarrow> wr (vmem b) (2 * uint loc) cl; Some (b\<lparr>vmem := v\<rparr>) }"

text \<open>The body of the loop over the list; the countdown is compared as a signed number.\<close>

definition tick_one :: "nat \<Rightarrow> blinks \<Rightarrow> blinks option" where
  "tick_one p b = do {
     x \<leftarrow> rd (blink_array b) (int p);
     let x = x\<lparr>countdown := countdown x - 1\<rparr>;
     if 0 < sint (countdown x) then do {
       a \<leftarrow> wr (blink_array b) (int p) x;
       Some (b\<lparr>blink_array := a\<rparr>)
     }
     else do {
       let on = (status x AND 1 \<noteq> 0);
       b \<leftarrow> (if on then mp1_poke (off_char x) (location x) b else mp1_poke (on_char x) (location x) b);
       let dx = (if on then off_length x else on_length x);
       a \<leftarrow> wr (blink_array b) (int p) (x\<lparr>countdown := dx, status := status x XOR 1\<rparr>);
       Some (b\<lparr>blink_array := a\<rparr>)
     }
   }"

partial_function (option) tasklet_loop :: "nat option \<Rightarrow> blinks \<Rightarrow> blinks option" where
  "tasklet_loop ebx b =
     (case ebx of
        None \<Rightarrow> Some b
      | Some p \<Rightarrow> do {
          b \<leftarrow> tick_one p b;
          x \<leftarrow> rd (blink_array b) (int p);
          tasklet_loop (next_blink x) b
        })"

definition mp1_rtc_tasklet :: "blinks \<Rightarrow> blinks option" where
  "mp1_rtc_tasklet b = tasklet_loop (mp1_list_head b) b"

partial_function (option) find_loop :: "blinks \<Rightarrow> u16 \<Rightarrow> nat option \<Rightarrow> nat option option" where
  "find_loop b ax ebx =
     (case ebx of
        None \<Rightarrow> Some None
      | Some p \<Rightarrow> do {
          x \<leftarrow> rd (blink_array b) (int p);
          if location x = ax then Some (Some p) else find_loop b ax (next_blink x)
        })"

definition mp1_find_helper :: "blinks \<Rightarrow> u16 \<Rightarrow> nat option option" where
  "mp1_find_helper b ax = find_loop b ax (mp1_list_head b)"

text \<open>
  The entries of the table by which \<open>mp1_ioctl\<close> selects the operation; its command is a constant in
  every call of the program. The data of the caller are copied to the stack first, then to the slot.
\<close>

definition mp1_ioctl_add :: "mp1_blink_struct \<Rightarrow> blinks \<Rightarrow> (int \<times> blinks) option" where
  "mp1_ioctl_add x b =
     (if 80 * 25 \<le> location x then Some (- 1, b)
      else let x = x\<lparr>status := 1, countdown := on_length x\<rparr>
           in case mp1_malloc b of
                None \<Rightarrow> Some (- 1, b)
              | Some p \<Rightarrow> do {
                  a \<leftarrow> wr (blink_array b) (int p) x;
                  a \<leftarrow> wr a (int p) (x\<lparr>next_blink := mp1_list_head b\<rparr>);
                  b \<leftarrow> mp1_poke (on_char x) (location x) (b\<lparr>blink_array := a, mp1_list_head := Some p\<rparr>);
                  Some (0, b)
                })"

text \<open>
  The search for the pointer that leads to the element: \<open>None\<close> is the list head, \<open>Some i\<close> the next
  pointer of slot \<open>i\<close>.
\<close>

definition slot_value :: "blinks \<Rightarrow> nat option \<Rightarrow> nat option option" where
  "slot_value b edx =
     (case edx of None \<Rightarrow> Some (mp1_list_head b) | Some i \<Rightarrow> map_option next_blink (rd (blink_array b) (int i)))"

definition set_slot :: "nat option \<Rightarrow> nat option \<Rightarrow> blinks \<Rightarrow> blinks option" where
  "set_slot edx v b =
     (case edx of
        None \<Rightarrow> Some (b\<lparr>mp1_list_head := v\<rparr>)
      | Some i \<Rightarrow> do {
          x \<leftarrow> rd (blink_array b) (int i);
          a \<leftarrow> wr (blink_array b) (int i) (x\<lparr>next_blink := v\<rparr>);
          Some (b\<lparr>blink_array := a\<rparr>)
        })"

partial_function (option) remove_find_prev :: "blinks \<Rightarrow> nat \<Rightarrow> nat option \<Rightarrow> nat option option" where
  "remove_find_prev b eax edx = do {
     v \<leftarrow> slot_value b edx;
     if v = Some eax then Some edx
     else case v of None \<Rightarrow> None | Some i \<Rightarrow> remove_find_prev b eax (Some i)
   }"

definition mp1_ioctl_remove :: "u32 \<Rightarrow> blinks \<Rightarrow> (int \<times> blinks) option" where
  "mp1_ioctl_remove arg b = do {
     eax \<leftarrow> mp1_find_helper b (ucast arg);
     case eax of
       None \<Rightarrow> Some (- 1, b)
     | Some p \<Rightarrow> do {
         edx \<leftarrow> remove_find_prev b p None;
         x \<leftarrow> rd (blink_array b) (int p);
         b \<leftarrow> set_slot edx (next_blink x) b;
         b \<leftarrow> mp1_free p b;
         Some (0, b)
       }
   }"

text \<open>
  The character shown after \<open>sync\<close> is chosen by \<open>testb\<close> and \<open>cmovl\<close>, which moves when the sign and
  the overflow flag differ; \<open>testb\<close> sets the sign flag to the top bit of its result and clears the
  overflow flag.
\<close>

definition mp1_ioctl_sync :: "u32 \<Rightarrow> blinks \<Rightarrow> (int \<times> blinks) option" where
  "mp1_ioctl_sync arg b = do {
     esi \<leftarrow> mp1_find_helper b (ucast (drop_bit 16 arg));
     case esi of
       None \<Rightarrow> Some (- 1, b)
     | Some p \<Rightarrow> do {
         edi \<leftarrow> mp1_find_helper b (ucast (arg AND 0xFFFF));
         case edi of
           None \<Rightarrow> Some (- 1, b)
         | Some q \<Rightarrow> do {
             x \<leftarrow> rd (blink_array b) (int p);
             y \<leftarrow> rd (blink_array b) (int q);
             let y = y\<lparr>on_length := on_length x, off_length := off_length x, countdown := countdown x, status := status x\<rparr>;
             a \<leftarrow> wr (blink_array b) (int q) y;
             let sign = bit (ucast (status y) AND (1 :: u8)) 7;
             let overflow = False;
             let cl = (if sign \<noteq> overflow then on_char y else off_char y);
             b \<leftarrow> mp1_poke cl (location y) (b\<lparr>blink_array := a\<rparr>);
             Some (0, b)
           }
       }
   }"

text \<open>\<open>find\<close> reads the location from the caller's structure and fills it.\<close>

definition mp1_ioctl_find :: "mp1_blink_struct \<Rightarrow> blinks \<Rightarrow> (int \<times> mp1_blink_struct) option" where
  "mp1_ioctl_find x b = do {
     eax \<leftarrow> mp1_find_helper b (location x);
     case eax of
       None \<Rightarrow> Some (- 1, x)
     | Some p \<Rightarrow> do { y \<leftarrow> rd (blink_array b) (int p); Some (0, y) }
   }"

subsection \<open>The list\<close>

fun blink_list :: "mp1_blink_struct list \<Rightarrow> nat option \<Rightarrow> nat list \<Rightarrow> bool" where
  "blink_list a h [] \<longleftrightarrow> h = None"
| "blink_list a h (p # ps) \<longleftrightarrow> h = Some p \<and> p < length a \<and> blink_list a (next_blink (a ! p)) ps"

text \<open>
  The invariant: the slots in use are those of the list, each once, and are marked by a location on the
  screen other than 0; the free slots are zero.
\<close>

definition blinks_at :: "blinks \<Rightarrow> nat list \<Rightarrow> bool" where
  "blinks_at b ps \<longleftrightarrow> length (blink_array b) = NUM_BLINKS \<and> length (vmem b) = 4096 \<and>
     blink_list (blink_array b) (mp1_list_head b) ps \<and> distinct ps \<and>
     (\<forall>p < NUM_BLINKS. (location (blink_array b ! p) \<noteq> 0 \<longleftrightarrow> p \<in> set ps) \<and> location (blink_array b ! p) < 80 * 25)"

text \<open>A structure without its link, and the list of them.\<close>

definition blink_of :: "mp1_blink_struct \<Rightarrow> mp1_blink_struct" where
  "blink_of x = x\<lparr>next_blink := None\<rparr>"

lemma location_blink_of [simp]: "location (blink_of x) = location x"
  by (simp add: blink_of_def)

definition view :: "blinks \<Rightarrow> nat list \<Rightarrow> mp1_blink_struct list" where
  "view b ps = map (\<lambda>p. blink_of (blink_array b ! p)) ps"

lemma blink_list_upd: "p \<notin> set ps \<Longrightarrow> blink_list (a[p := x]) h ps = blink_list a h ps"
  by (induction ps arbitrary: h) auto

lemma blink_list_cong:
  "length a' = length a \<Longrightarrow> (\<And>p. p \<in> set ps \<Longrightarrow> next_blink (a' ! p) = next_blink (a ! p)) \<Longrightarrow>
     blink_list a' h ps = blink_list a h ps"
  by (induction ps arbitrary: h) auto

lemma blink_list_bound: "blink_list a h ps \<Longrightarrow> p \<in> set ps \<Longrightarrow> p < length a"
  by (induction ps arbitrary: h) auto

subsection \<open>The tick of the clock\<close>

text \<open>
  What a tick does to one structure: it counts down, and when the time of its phase is over it shows the
  other character and starts the other phase.
\<close>

definition phase_over :: "mp1_blink_struct \<Rightarrow> bool" where
  "phase_over x \<longleftrightarrow> sint (countdown x - 1) \<le> 0"

definition blink_tick :: "mp1_blink_struct \<Rightarrow> mp1_blink_struct" where
  "blink_tick x =
     (if \<not> phase_over x then x\<lparr>countdown := countdown x - 1\<rparr>
      else x\<lparr>countdown := (if bit (status x) 0 then off_length x else on_length x), status := flip_bit 0 (status x)\<rparr>)"

definition tick_show :: "mp1_blink_struct \<Rightarrow> u8 list \<Rightarrow> u8 list" where
  "tick_show x v =
     (if \<not> phase_over x then v
      else v[2 * unat (location x) := (if bit (status x) 0 then off_char x else on_char x)])"

lemma and_1_bit: "w AND 1 \<noteq> 0 \<longleftrightarrow> bit (w :: u16) 0"
  by (simp add: and_one_eq mod_2_eq_odd bit_0)

lemma poke_ok: "length (vmem b) = 4096 \<Longrightarrow> loc < 80 * 25 \<Longrightarrow> mp1_poke c loc b = Some (b\<lparr>vmem := (vmem b)[2 * unat loc := c]\<rparr>)"
proof -
  assume l: "length (vmem b) = 4096" and loc: "loc < 80 * 25"
  have "unat loc < 2000" using loc by (simp add: word_less_nat_alt)
  then have "wr (vmem b) (int (2 * unat loc)) c = Some ((vmem b)[2 * unat loc := c])" using l by (simp only: wr_nat) simp
  then show ?thesis by (simp add: mp1_poke_def)
qed

lemma tick_one_ok:
  assumes "length (vmem b) = 4096" "p < length (blink_array b)" "location (blink_array b ! p) < 80 * 25"
  shows "tick_one p b = Some (b\<lparr>blink_array := (blink_array b)[p := blink_tick (blink_array b ! p)],
    vmem := tick_show (blink_array b ! p) (vmem b)\<rparr>)"
  using assms
  by (simp add: tick_one_def rd_nat wr_nat poke_ok blink_tick_def tick_show_def phase_over_def and_1_bit Let_def not_le
      flip_bit_eq_xor)

lemma blink_tick_sel [simp]:
  "location (blink_tick x) = location x" "next_blink (blink_tick x) = next_blink x"
  by (simp_all add: blink_tick_def)

lemma tick_blink_of: "blink_tick (blink_of x) = blink_of (blink_tick x)" "tick_show (blink_of x) = tick_show x"
  by (simp_all add: blink_tick_def blink_of_def tick_show_def phase_over_def fun_eq_iff)

lemma length_tick_show [simp]: "length (tick_show x v) = length v"
  by (simp add: tick_show_def)

lemma tasklet_loop_ok:
  assumes "blink_list (blink_array b) h ps" "distinct ps" "length (vmem b) = 4096"
    and "\<forall>p \<in> set ps. location (blink_array b ! p) < 80 * 25"
  shows "\<exists>b'. tasklet_loop h b = Some b' \<and> length (blink_array b') = length (blink_array b) \<and>
    (\<forall>p < length (blink_array b). blink_array b' ! p =
       (if p \<in> set ps then blink_tick (blink_array b ! p) else blink_array b ! p)) \<and>
    mp1_list_head b' = mp1_list_head b \<and> vmem b' = fold tick_show (map ((!) (blink_array b)) ps) (vmem b)"
  using assms
proof (induction ps arbitrary: h b)
  case Nil
  then show ?case by (subst tasklet_loop.simps) simp
next
  case (Cons p ps)
  let ?a = "blink_array b"
  let ?b = "b\<lparr>blink_array := ?a[p := blink_tick (?a ! p)], vmem := tick_show (?a ! p) (vmem b)\<rparr>"
  have p: "h = Some p" "p < length ?a" "blink_list ?a (next_blink (?a ! p)) ps" "p \<notin> set ps" using Cons.prems by auto
  have one: "tick_one p b = Some ?b" using Cons.prems p by (intro tick_one_ok) auto
  have "blink_list (blink_array ?b) (next_blink (?a ! p)) ps" using p by (simp add: blink_list_upd)
  moreover have "\<forall>q \<in> set ps. location (blink_array ?b ! q) < 80 * 25"
  proof
    fix q
    assume "q \<in> set ps"
    then show "location (blink_array ?b ! q) < 80 * 25" using Cons.prems(4) p(4) by (cases "p = q") auto
  qed
  ultimately obtain b' where b': "tasklet_loop (next_blink (?a ! p)) ?b = Some b'"
      "length (blink_array b') = length ?a" "mp1_list_head b' = mp1_list_head b"
      "\<forall>q < length ?a. blink_array b' ! q = (if q \<in> set ps then blink_tick (blink_array ?b ! q) else blink_array ?b ! q)"
      "vmem b' = fold tick_show (map ((!) (blink_array ?b)) ps) (vmem ?b)"
    using Cons.IH [of ?b "next_blink (?a ! p)"] Cons.prems(2,3) by auto
  have "tasklet_loop h b = Some b'"
    using p one b'(1) by (subst tasklet_loop.simps) (simp add: rd_nat)
  moreover have same: "map ((!) (blink_array ?b)) ps = map ((!) ?a) ps"
  proof (rule map_cong [OF refl])
    fix q
    assume "q \<in> set ps"
    then show "blink_array ?b ! q = ?a ! q" using p(4) by (cases "p = q") auto
  qed
  moreover have "vmem b' = fold tick_show (map ((!) ?a) (p # ps)) (vmem b)" unfolding b'(5) same by simp
  moreover have "blink_array b' ! q = (if q \<in> set (p # ps) then blink_tick (?a ! q) else ?a ! q)" if "q < length ?a" for q
    using b'(4) that p(2,4) by (auto simp: nth_list_update)
  ultimately show ?case using b'(2,3) by blast
qed

lemma tasklet_ticks:
  assumes "blinks_at b ps"
  shows "\<exists>b'. mp1_rtc_tasklet b = Some b' \<and> blinks_at b' ps \<and> view b' ps = map blink_tick (view b ps) \<and>
    vmem b' = fold tick_show (view b ps) (vmem b)"
proof -
  let ?a = "blink_array b"
  have inv: "length ?a = NUM_BLINKS" "length (vmem b) = 4096" "blink_list ?a (mp1_list_head b) ps" "distinct ps"
      "\<forall>p < NUM_BLINKS. (location (?a ! p) \<noteq> 0 \<longleftrightarrow> p \<in> set ps) \<and> location (?a ! p) < 80 * 25"
    using assms by (simp_all add: blinks_at_def)
  have ps: "p < NUM_BLINKS" if "p \<in> set ps" for p using blink_list_bound [OF inv(3) that] inv(1) by simp
  obtain b' where b': "mp1_rtc_tasklet b = Some b'" "length (blink_array b') = NUM_BLINKS"
      "\<forall>p < NUM_BLINKS. blink_array b' ! p = (if p \<in> set ps then blink_tick (?a ! p) else ?a ! p)"
      "mp1_list_head b' = mp1_list_head b" "vmem b' = fold tick_show (map ((!) ?a) ps) (vmem b)"
    using tasklet_loop_ok [OF inv(3,4,2)] inv(1,5) ps unfolding mp1_rtc_tasklet_def by fastforce
  have "length (fold tick_show xs v) = length v" for xs v by (induction xs arbitrary: v) simp_all
  then have "length (vmem b') = 4096" using b'(5) inv(2) by simp
  moreover have "blink_list (blink_array b') (mp1_list_head b') ps"
    using inv(1,3) b'(2-4) ps by (subst b'(4), subst blink_list_cong [of _ ?a]) auto
  ultimately have "blinks_at b' ps" using b'(2,3) inv(4,5) by (simp add: blinks_at_def)
  moreover have "view b' ps = map blink_tick (view b ps)"
    using b'(3) ps by (auto simp: view_def tick_blink_of)
  moreover have "fold tick_show (view b ps) v = fold tick_show (map ((!) ?a) ps) v" for v
    unfolding view_def by (induction ps arbitrary: v) (simp_all add: tick_blink_of)
  ultimately show ?thesis using b'(1,5) by auto
qed

text \<open>
  C19: A tick of the clock ends and advances every blinking character of the list once, in place: each
  counts down, and one whose phase is over changes to its other phase and shows the other character at its
  location on the screen; nothing else on the screen changes.
\<close>

theorem tasklet_advances_all:
  assumes "blinks_at b ps"
  shows "\<exists>b'. mp1_rtc_tasklet b = Some b' \<and> blinks_at b' ps \<and> view b' ps = map blink_tick (view b ps) \<and>
    vmem b' = fold tick_show (view b ps) (vmem b)"
  using assms by (rule tasklet_ticks)

subsection \<open>Adding and removing\<close>

lemma malloc_free_slot:
  assumes "blinks_at b ps" "length ps < NUM_BLINKS"
  obtains p where "mp1_malloc b = Some p" "p < NUM_BLINKS" "p \<notin> set ps"
proof -
  have "\<exists>p < NUM_BLINKS. p \<notin> set ps"
  proof (rule ccontr)
    assume "\<not> ?thesis"
    then have "card {..<NUM_BLINKS} \<le> card (set ps)" by (intro card_mono) auto
    then show False using assms(2) card_length [of ps] by simp
  qed
  then have "mp1_malloc b \<noteq> None"
    using assms(1) by (auto simp: mp1_malloc_def find_None_iff blinks_at_def simp del: upt_rec_numeral)
  then obtain p where p: "mp1_malloc b = Some p" by blast
  then have "p \<in> set [0..<NUM_BLINKS]" "location (blink_array b ! p) = 0"
    using find_in_set [of "\<lambda>i. location (blink_array b ! i) = 0" "[0..<NUM_BLINKS]" p] by (simp_all add: mp1_malloc_def del: upt_rec_numeral)
  then show ?thesis using that [OF p] assms(1) by (auto simp: blinks_at_def simp del: upt_rec_numeral)
qed

lemma add_in_front:
  assumes "blinks_at b ps" "location x \<noteq> 0" "location x < 80 * 25" "length ps < NUM_BLINKS"
  obtains p b' where "mp1_ioctl_add x b = Some (0, b')" "p \<notin> set ps" "blinks_at b' (p # ps)"
    "view b' (p # ps) = blink_of (x\<lparr>status := 1, countdown := on_length x\<rparr>) # view b ps"
    "vmem b' = (vmem b)[2 * unat (location x) := on_char x]"
    "blink_array b' = (blink_array b)[p := x\<lparr>status := 1, countdown := on_length x, next_blink := mp1_list_head b\<rparr>]"
proof -
  obtain p where p: "mp1_malloc b = Some p" "p < NUM_BLINKS" "p \<notin> set ps" by (rule malloc_free_slot [OF assms(1,4)])
  let ?x = "x\<lparr>status := 1, countdown := on_length x, next_blink := mp1_list_head b\<rparr>"
  let ?b = "b\<lparr>blink_array := (blink_array b)[p := ?x], mp1_list_head := Some p,
      vmem := (vmem b)[2 * unat (location x) := on_char x]\<rparr>"
  have inv: "length (blink_array b) = NUM_BLINKS" "length (vmem b) = 4096" using assms(1) by (simp_all add: blinks_at_def)
  have "mp1_ioctl_add x b = Some (0, ?b)"
    using p(1,2) assms(3) inv by (simp add: mp1_ioctl_add_def wr_nat poke_ok not_le [symmetric] Let_def)
  moreover have "blinks_at ?b (p # ps)"
    using assms(1-3) p(2,3) by (auto simp: blinks_at_def blink_list_upd nth_list_update)
  moreover have "view ?b (p # ps) = blink_of (x\<lparr>status := 1, countdown := on_length x\<rparr>) # view b ps"
  proof -
    have "(blink_array b)[p := ?x] ! q = blink_array b ! q" if "q \<in> set ps" for q using that p(3) by (cases "p = q") auto
    then show ?thesis using p(2) inv(1) by (simp add: view_def blink_of_def)
  qed
  ultimately show ?thesis using that p(3) by simp
qed

text \<open>The searches along the list.\<close>

lemma find_loop_find:
  "blink_list (blink_array b) h ps \<Longrightarrow> find_loop b ax h = Some (find (\<lambda>p. location (blink_array b ! p) = ax) ps)"
proof (induction ps arbitrary: h)
  case Nil
  then show ?case by (subst find_loop.simps) simp
next
  case (Cons p ps)
  then show ?case by (subst find_loop.simps) (simp add: rd_nat)
qed

lemma find_prev_walk:
  assumes "blink_list (blink_array b) v (us @ p # vs)" "p \<notin> set us" "slot_value b edx = Some v"
  shows "remove_find_prev b p edx = Some (if us = [] then edx else Some (last us))"
  using assms
proof (induction us arbitrary: v edx)
  case Nil
  then show ?case by (subst remove_find_prev.simps) simp
next
  case (Cons u us)
  have u: "v = Some u" "u \<noteq> p" "blink_list (blink_array b) (next_blink (blink_array b ! u)) (us @ p # vs)" "u < length (blink_array b)"
    using Cons.prems(1,2) by auto
  then have "slot_value b (Some u) = Some (next_blink (blink_array b ! u))" by (simp add: slot_value_def rd_nat)
  from Cons.IH [OF u(3) _ this] Cons.prems u show ?case by (subst remove_find_prev.simps) auto
qed

lemma blink_list_unlink:
  "blink_list a h (us @ u # p # vs) \<Longrightarrow> distinct (us @ u # p # vs) \<Longrightarrow>
     blink_list (a[u := (a ! u)\<lparr>next_blink := next_blink (a ! p)\<rparr>]) h (us @ u # vs)"
proof (induction us arbitrary: h)
  case Nil
  then show ?case by (simp add: blink_list_upd)
next
  case (Cons w us)
  then show ?case by (auto simp: nth_list_update)
qed

lemma remove_takes_out:
  assumes "blinks_at b (us @ p # vs)" "location (blink_array b ! p) = loc" "\<forall>u \<in> set us. location (blink_array b ! u) \<noteq> loc"
    and "ucast arg = loc"
  obtains b' where "mp1_ioctl_remove arg b = Some (0, b')" "blinks_at b' (us @ vs)" "view b' (us @ vs) = view b (us @ vs)"
    "vmem b' = vmem b"
proof -
  let ?a = "blink_array b" and ?n = "next_blink (blink_array b ! p)"
  have inv: "length ?a = NUM_BLINKS" "blink_list ?a (mp1_list_head b) (us @ p # vs)" "distinct (us @ p # vs)"
      "\<forall>q < NUM_BLINKS. (location (?a ! q) \<noteq> 0 \<longleftrightarrow> q \<in> set (us @ p # vs)) \<and> location (?a ! q) < 80 * 25"
    using assms(1) by (simp_all add: blinks_at_def)
  have bound: "q < NUM_BLINKS" if "q \<in> set (us @ p # vs)" for q using blink_list_bound [OF inv(2) that] inv(1) by simp
  have "find (\<lambda>q. location (?a ! q) = loc) us = None" using assms(3) by (simp add: find_None_iff)
  then have "find (\<lambda>q. location (?a ! q) = loc) (us @ p # vs) = Some p" using assms(2) by (induction us) auto
  then have fnd: "mp1_find_helper b (ucast arg) = Some (Some p)"
    using find_loop_find [OF inv(2), of loc] assms(4) by (simp add: mp1_find_helper_def)
  have prev: "remove_find_prev b p None = Some (if us = [] then None else Some (last us))"
    using inv(3) by (intro find_prev_walk [OF inv(2)]) (simp_all add: slot_value_def)
  have pn: "rd ?a (int p) = Some (?a ! p)" using bound [of p] inv(1) by (simp add: rd_nat)
  define a1 where "a1 = (if us = [] then ?a else ?a[last us := (?a ! last us)\<lparr>next_blink := ?n\<rparr>])"
  define h1 where "h1 = (if us = [] then ?n else mp1_list_head b)"
  have set1: "set_slot (if us = [] then None else Some (last us)) ?n b = Some (b\<lparr>blink_array := a1, mp1_list_head := h1\<rparr>)"
    using bound [of "last us"] inv(1) by (auto simp: set_slot_def a1_def h1_def rd_nat wr_nat)
  have l1: "length a1 = NUM_BLINKS" using inv(1) by (simp add: a1_def)
  have list1: "blink_list a1 h1 (us @ vs)"
  proof (cases us rule: rev_cases)
    case Nil
    then show ?thesis using inv(2) by (simp add: a1_def h1_def)
  next
    case (snoc ws w)
    then show ?thesis using blink_list_unlink [of ?a "mp1_list_head b" ws w p vs] inv(2,3) by (simp add: a1_def h1_def)
  qed
  have loc1: "location (a1 ! q) = location (?a ! q)" "blink_of (a1 ! q) = blink_of (?a ! q)" for q
    using bound [of "last us"] inv(1) by (auto simp: a1_def nth_list_update blink_of_def)
  let ?b = "b\<lparr>blink_array := a1[p := free_blink], mp1_list_head := h1\<rparr>"
  have rem: "mp1_ioctl_remove arg b = Some (0, ?b)"
    using fnd prev pn set1 bound [of p] l1 by (simp add: mp1_ioctl_remove_def mp1_free_def wr_nat)
  have "blink_list (a1[p := free_blink]) h1 (us @ vs)" using list1 inv(3) by (simp add: blink_list_upd)
  moreover have loc2: "location (a1[p := free_blink] ! q) = (if q = p then 0 else location (?a ! q))" if "q < NUM_BLINKS" for q
    using that l1 loc1(1) by (cases "p = q") (simp_all add: free_blink_def)
  ultimately have "blinks_at ?b (us @ vs)"
    using assms(1) inv(3,4) l1 unfolding blinks_at_def by auto
  moreover have "blink_of (a1[p := free_blink] ! q) = blink_of (?a ! q)" if "q \<in> set (us @ vs)" for q
    using that inv(3) loc1(2) by (cases "p = q") auto
  then have "view ?b (us @ vs) = view b (us @ vs)" by (simp add: view_def)
  ultimately show ?thesis using that [OF rem] by simp
qed

text \<open>
  C20: Adding a blinking character and removing it by its location is a round trip, for every location on
  the screen but the first and as long as there is a free slot: after the addition the list has the
  character in front, in its lit phase and shown on the screen; after the removal the list is the old one
  and the slot is free again.
\<close>

theorem add_then_remove:
  assumes "blinks_at b ps" "location x \<noteq> 0" "location x < 80 * 25" "length ps < NUM_BLINKS"
  shows "\<exists>p b1 b2. mp1_ioctl_add x b = Some (0, b1) \<and> blinks_at b1 (p # ps) \<and>
    view b1 (p # ps) = blink_of (x\<lparr>status := 1, countdown := on_length x\<rparr>) # view b ps \<and>
    vmem b1 = (vmem b)[2 * unat (location x) := on_char x] \<and>
    mp1_ioctl_remove (ucast (location x)) b1 = Some (0, b2) \<and> blinks_at b2 ps \<and> view b2 ps = view b ps \<and>
    vmem b2 = vmem b1 \<and> location (blink_array b2 ! p) = 0"
proof -
  obtain p b1 where b1: "mp1_ioctl_add x b = Some (0, b1)" "p \<notin> set ps" "blinks_at b1 (p # ps)"
      "view b1 (p # ps) = blink_of (x\<lparr>status := 1, countdown := on_length x\<rparr>) # view b ps"
      "vmem b1 = (vmem b)[2 * unat (location x) := on_char x]"
    by (rule add_in_front [OF assms])
  have v1: "view b1 ps = view b ps" "blink_of (blink_array b1 ! p) = blink_of (x\<lparr>status := 1, countdown := on_length x\<rparr>)"
    using b1(4) by (simp_all add: view_def)
  have v2: "location (blink_array b1 ! p) = location x" using arg_cong [OF v1(2), of location] by (simp add: blink_of_def)
  have id16: "ucast (ucast w :: u32) = w" for w :: u16 by (rule bit_word_eqI) (simp add: bit_simps)
  obtain b2 where b2: "mp1_ioctl_remove (ucast (location x)) b1 = Some (0, b2)" "blinks_at b2 ps" "view b2 ps = view b1 ps"
      "vmem b2 = vmem b1"
    using remove_takes_out [of b1 "[]" p ps "location x" "ucast (location x)"] b1(3) v2 id16 by auto
  have "p < NUM_BLINKS" using b1(3) by (simp add: blinks_at_def)
  then have "location (blink_array b2 ! p) = 0" using b2(2) b1(2) by (auto simp: blinks_at_def)
  then show ?thesis using b1 b2 v1(1) by metis
qed

text \<open>\<open>sync\<close> changes the phase of one blinking character only; of several at one location the first.\<close>

lemma find_helper_hd:
  assumes "blinks_at b (p # ps)"
  shows "mp1_find_helper b (location (blink_array b ! p)) = Some (Some p)"
  using find_loop_find [of b "mp1_list_head b" "p # ps" "location (blink_array b ! p)"] assms
  by (simp add: mp1_find_helper_def blinks_at_def)

lemma sync_front:
  assumes "blinks_at b (p # ps)" "location (blink_array b ! p) = ucast (arg AND 0xFFFF)"
  obtains r b' where "mp1_ioctl_sync arg b = Some (r, b')" "blinks_at b' (p # ps)" "view b' ps = view b ps"
    "location (blink_array b' ! p) = location (blink_array b ! p)"
    "\<forall>l. l \<noteq> location (blink_array b ! p) \<longrightarrow> vmem b' ! (2 * unat l) = vmem b ! (2 * unat l)"
proof -
  let ?a = "blink_array b" and ?l = "ucast (drop_bit 16 arg) :: u16"
  have inv: "length ?a = NUM_BLINKS" "length (vmem b) = 4096" "blink_list ?a (mp1_list_head b) (p # ps)" "p \<notin> set ps"
      "p < NUM_BLINKS" "location (?a ! p) < 80 * 25"
    using assms(1) by (auto simp: blinks_at_def)
  have h: "mp1_find_helper b ?l = Some (find (\<lambda>q. location (?a ! q) = ?l) (p # ps))"
    using find_loop_find [OF inv(3)] by (simp add: mp1_find_helper_def)
  show ?thesis
  proof (cases "find (\<lambda>q. location (?a ! q) = ?l) (p # ps)")
    case None
    then show ?thesis using that [of "- 1" b] h assms(1) by (simp add: mp1_ioctl_sync_def)
  next
    case (Some q)
    then have "q \<in> set (p # ps)" by (blast dest: find_in_set)
    then have q: "q < NUM_BLINKS" using blink_list_bound [OF inv(3)] inv(1) by simp
    let ?x = "?a ! q" and ?y = "?a ! p"
    let ?y' = "?y\<lparr>on_length := on_length ?x, off_length := off_length ?x, countdown := countdown ?x, status := status ?x\<rparr>"
    obtain c where c: "mp1_ioctl_sync arg b =
        Some (0, b\<lparr>blink_array := ?a[p := ?y'], vmem := (vmem b)[2 * unat (location ?y) := c]\<rparr>)"
      using h Some q inv find_helper_hd [OF assms(1)] assms(2)
      by (simp add: mp1_ioctl_sync_def rd_nat wr_nat poke_ok Let_def)
    let ?b = "b\<lparr>blink_array := ?a[p := ?y'], vmem := (vmem b)[2 * unat (location ?y) := c]\<rparr>"
    have "blink_list (?a[p := ?y']) (mp1_list_head b) (p # ps)" using inv(3-5) by (simp add: blink_list_upd inv(1))
    then have "blinks_at ?b (p # ps)" using assms(1) by (auto simp: blinks_at_def nth_list_update)
    moreover have "?a[p := z] ! k = ?a ! k" if "k \<in> set ps" for k z using that inv(4) by (cases "p = k") auto
    then have "view ?b ps = view b ps" by (simp add: view_def)
    ultimately show ?thesis using that [OF c] inv(1,5) by (simp add: word_unat_eq_iff)
  qed
qed

text \<open>The two faults of the list: \<open>sync\<close> never shows the lit character, and a character added at location
  0 leaves its slot marked as free, so that the next one is linked to itself and the tick never ends.\<close>

lemma sync_shows_off:
  assumes "blinks_at b ps" "p \<in> set ps" "q \<in> set ps" "location (blink_array b ! p) = l" "location (blink_array b ! q) = m"
    and "find (\<lambda>r. location (blink_array b ! r) = l) ps = Some p" "find (\<lambda>r. location (blink_array b ! r) = m) ps = Some q"
    and "ucast (drop_bit 16 arg) = l" "ucast (arg AND 0xFFFF) = m"
  shows "\<exists>b'. mp1_ioctl_sync arg b = Some (0, b') \<and> vmem b' = (vmem b)[2 * unat m := off_char (blink_array b ! q)] \<and>
    status (blink_array b' ! q) = status (blink_array b ! p)"
proof -
  let ?a = "blink_array b"
  have inv: "length ?a = NUM_BLINKS" "length (vmem b) = 4096" "blink_list ?a (mp1_list_head b) ps"
      "\<forall>q < NUM_BLINKS. location (?a ! q) < 80 * 25"
    using assms(1) by (simp_all add: blinks_at_def)
  have pq: "p < NUM_BLINKS" "q < NUM_BLINKS" using blink_list_bound [OF inv(3)] assms(2,3) inv(1) by auto
  have h: "mp1_find_helper b l = Some (Some p)" "mp1_find_helper b m = Some (Some q)"
    using find_loop_find [OF inv(3)] assms(6,7) by (simp_all add: mp1_find_helper_def)
  have m: "m < 80 * 25" using inv(4) pq(2) assms(5) by auto
  have "\<not> bit (w AND (1 :: u8)) 7" for w by (simp add: bit_and_iff bit_1_iff)
  then show ?thesis
    using h pq inv(1,2) assms(5,8,9) by (simp add: mp1_ioctl_sync_def rd_nat wr_nat poke_ok [OF _ m] Let_def)
qed

lemma tick_one_keeps_next:
  "tick_one p b = Some b' \<Longrightarrow> length (blink_array b') = length (blink_array b) \<and>
     next_blink (blink_array b' ! p) = next_blink (blink_array b ! p)"
  by (auto simp: tick_one_def mp1_poke_def bind_eq_Some_conv Let_def rd_def wr_def split: if_splits)

lemma self_link_never_ends:
  assumes "p < length (blink_array b)" "next_blink (blink_array b ! p) = Some p"
  shows "tasklet_loop (Some p) b = None"
proof -
  have "\<not> (h = Some p \<and> p < length (blink_array c) \<and> next_blink (blink_array c ! p) = Some p)"
    if "tasklet_loop h c = Some c'" for h c c'
  proof (rule tasklet_loop.raw_induct [OF _ that, where P = "\<lambda>h c c'. \<not> (h = Some p \<and> p < length (blink_array c) \<and> next_blink (blink_array c ! p) = Some p)"])
    fix loop h c c'
    assume IH: "\<And>h c c'. loop h c = Some c' \<Longrightarrow> \<not> (h = Some p \<and> p < length (blink_array c) \<and> next_blink (blink_array c ! p) = Some p)"
      and step: "(case h of None \<Rightarrow> Some c | Some p \<Rightarrow> do { c \<leftarrow> tick_one p c; x \<leftarrow> rd (blink_array c) (int p); loop (next_blink x) c }) = Some c'"
    show "\<not> (h = Some p \<and> p < length (blink_array c) \<and> next_blink (blink_array c ! p) = Some p)"
    proof
      assume h: "h = Some p \<and> p < length (blink_array c) \<and> next_blink (blink_array c ! p) = Some p"
      then obtain d where d: "tick_one p c = Some d" "do { x \<leftarrow> rd (blink_array d) (int p); loop (next_blink x) d } = Some c'"
        using step by (auto simp: bind_eq_Some_conv)
      then show False using tick_one_keeps_next [OF d(1)] h IH by (auto simp: rd_nat)
    qed
  qed
  then show ?thesis using assms by (cases "tasklet_loop (Some p) b") auto
qed

lemma location_0_cycles:
  assumes "length (blink_array b) = NUM_BLINKS" "length (vmem b) = 4096" "mp1_malloc b = Some p" "location x = 0" "location y < 80 * 25"
  shows "\<exists>b1 b2. mp1_ioctl_add x b = Some (0, b1) \<and> mp1_ioctl_add y b1 = Some (0, b2) \<and>
    mp1_rtc_tasklet b2 = None"
proof -
  let ?b1 = "b\<lparr>blink_array := (blink_array b)[p := x\<lparr>status := 1, countdown := on_length x, next_blink := mp1_list_head b\<rparr>],
      mp1_list_head := Some p, vmem := (vmem b)[0 := on_char x]\<rparr>"
  have p: "p < NUM_BLINKS" "\<forall>q < p. location (blink_array b ! q) \<noteq> 0"
    using assms(3) by (auto simp: mp1_malloc_def find_Some_iff simp del: upt_rec_numeral)
  have b1: "mp1_ioctl_add x b = Some (0, ?b1)"
    using assms p by (simp add: mp1_ioctl_add_def wr_nat poke_ok Let_def)
  have "mp1_malloc ?b1 = Some p"
    using p assms(1,4) unfolding mp1_malloc_def
    by (auto simp: find_Some_iff nth_list_update simp del: upt_rec_numeral intro!: exI [of _ p])
  then obtain b2 where "mp1_ioctl_add y ?b1 = Some (0, b2)" "mp1_list_head b2 = Some p" "p < length (blink_array b2)"
      "next_blink (blink_array b2 ! p) = Some p"
    using assms(1,2,5) p(1) by (simp add: mp1_ioctl_add_def [of y] wr_nat poke_ok not_le [symmetric] Let_def)
  then show ?thesis using b1 self_link_never_ends [of p b2] by (auto simp: mp1_rtc_tasklet_def)
qed

end
