(* ===== verification/Fish.thy ===== *)
theory Fish
  imports Blink User_OS Filesys
begin

text \<open>
  The animation \<open>src/fish/fish.c\<close>: it maps the screen, reads two pictures from two files character by
  character and makes every position blink between them, waits on the clock, then adds, synchronises and
  removes one more blinking character. The state is that of the operating system and that of \<open>Blink\<close>.
\<close>

unbundle bit_operations_syntax

subsection \<open>The block functions of the program\<close>

function fish_memset_loop :: "u8 list \<Rightarrow> u8 \<Rightarrow> int \<Rightarrow> int \<Rightarrow> u8 list option" where
  "fish_memset_loop mem c i n =
     (if i < n then do { mem \<leftarrow> wr mem i c; fish_memset_loop mem c (i + 1) n } else Some mem)"
  by pat_completeness auto
termination
  by (relation "measure (\<lambda>(mem, c, i, n). nat (n - i))") auto

declare fish_memset_loop.simps [simp del]

definition ece391_memset :: "u8 list \<Rightarrow> u8 \<Rightarrow> int \<Rightarrow> u8 list option" where
  "ece391_memset mem c n = fish_memset_loop mem c 0 n"

function fish_memcpy_loop :: "u8 list \<Rightarrow> u8 list \<Rightarrow> int \<Rightarrow> int \<Rightarrow> u8 list option" where
  "fish_memcpy_loop d s i n =
     (if i < n then do { c \<leftarrow> rd s i; d \<leftarrow> wr d i c; fish_memcpy_loop d s (i + 1) n } else Some d)"
  by pat_completeness auto
termination
  by (relation "measure (\<lambda>(d, s, i, n). nat (n - i))") auto

declare fish_memcpy_loop.simps [simp del]

definition ece391_memcpy :: "u8 list \<Rightarrow> u8 list \<Rightarrow> int \<Rightarrow> (int \<times> u8 list) option" where
  "ece391_memcpy dest src n = do { d \<leftarrow> fish_memcpy_loop dest src 0 n; Some (0, d) }"

subsection \<open>Reading the pictures\<close>

text \<open>
  The next character of a picture; once its line has ended the character stays a newline. A read that
  fails stores nothing.
\<close>

definition frame_char :: "'s os \<Rightarrow> int \<Rightarrow> u8 \<Rightarrow> bool \<Rightarrow> 's \<Rightarrow> (u8 \<times> bool \<times> 's) option" where
  "frame_char OS fd c eof s =
     (if c \<noteq> 10 then do {
        (num_bytes, bs, s) \<leftarrow> os_read OS fd 1 s;
        buf \<leftarrow> put_bytes [c] 0 bs;
        if num_bytes = 0 then Some (10, True, s) else Some (hd buf, eof, s)
      }
      else Some (c, eof, s))"

text \<open>The inner loop: one line of both pictures. \<open>x\<close> is the structure the program fills.\<close>

partial_function (option) frame_row :: "'s os \<Rightarrow> int \<Rightarrow> int \<Rightarrow> mp1_blink_struct \<Rightarrow> int \<Rightarrow> int \<Rightarrow>
    u8 \<Rightarrow> bool \<Rightarrow> u8 \<Rightarrow> bool \<Rightarrow> 's \<Rightarrow> blinks \<Rightarrow> (bool \<times> bool \<times> 's \<times> blinks) option" where
  "frame_row OS fd0 fd1 x row col c0 eof0 c1 eof1 s b = do {
     (c0, eof0, s) \<leftarrow> frame_char OS fd0 c0 eof0 s;
     (c1, eof1, s) \<leftarrow> frame_char OS fd1 c1 eof1 s;
     if c0 = 10 \<and> c1 = 10 then Some (eof0, eof1, s, b)
     else do {
       b \<leftarrow> (if c0 \<noteq> 32 \<and> c0 \<noteq> 10 \<or> c1 \<noteq> 32 \<and> c1 \<noteq> 10
             then map_option snd (mp1_ioctl_add (x\<lparr>on_char := (if c0 = 10 then 32 else c0),
                    off_char := (if c1 = 10 then 32 else c1), location := word_of_int (row * 80 + col + 40)\<rparr>) b)
             else Some b);
       frame_row OS fd0 fd1 x row (col + 1) c0 eof0 c1 eof1 s b
     }
   }"

definition frame_end :: "'s os \<Rightarrow> int \<Rightarrow> bool \<Rightarrow> 's \<Rightarrow> (u8 \<times> 's) option" where
  "frame_end OS fd eof s =
     (if eof then do { (_, s) \<leftarrow> os_close OS fd s; Some (10, s) } else Some (48, s))"

partial_function (option) frame_rows :: "'s os \<Rightarrow> int \<Rightarrow> int \<Rightarrow> mp1_blink_struct \<Rightarrow> int \<Rightarrow>
    u8 \<Rightarrow> bool \<Rightarrow> u8 \<Rightarrow> bool \<Rightarrow> 's \<Rightarrow> blinks \<Rightarrow> ('s \<times> blinks) option" where
  "frame_rows OS fd0 fd1 x row c0 eof0 c1 eof1 s b =
     (if \<not> eof0 \<or> \<not> eof1 then do {
        (eof0, eof1, s, b) \<leftarrow> frame_row OS fd0 fd1 x row 0 c0 eof0 c1 eof1 s b;
        (c0, s) \<leftarrow> frame_end OS fd0 eof0 s;
        (c1, s) \<leftarrow> frame_end OS fd1 eof1 s;
        frame_rows OS fd0 fd1 x (row + 1) c0 eof0 c1 eof1 s b
      }
      else Some (s, b))"

text \<open>\<open>Inl\<close> is the end of the program by \<open>ece391_halt(-1)\<close>.\<close>

definition add_frames :: "'s os \<Rightarrow> u8 list \<Rightarrow> u8 list \<Rightarrow> mp1_blink_struct \<Rightarrow> 's \<Rightarrow> blinks \<Rightarrow> ('s + ('s \<times> blinks)) option" where
  "add_frames OS f0 f1 x s b = do {
     let x = x\<lparr>on_length := 15, off_length := 15\<rparr>;
     (fd0, s) \<leftarrow> os_open OS f0 s;
     if fd0 < 0 then Some (Inl s)
     else do {
       (fd1, s) \<leftarrow> os_open OS f1 s;
       if fd1 < 0 then Some (Inl s)
       else do {
         (s, b) \<leftarrow> frame_rows OS fd0 fd1 x 0 48 False 48 False s b;
         Some (Inr (s, b))
       }
     }
   }"

subsection \<open>The program\<close>

text \<open>
  \<open>vaddr\<close> is the address of the variable \<open>vmem_base_addr\<close> and \<open>load\<close> reads a word of the program's
  memory. The array \<open>vmem\<close> of \<open>Blink\<close> stands for the page the loaded pointer leads to.
\<close>

definition mp1_set_video_mode :: "'s os \<Rightarrow> ('s \<Rightarrow> u32 \<Rightarrow> u32 option) \<Rightarrow> u32 \<Rightarrow> 's \<Rightarrow> (u32 \<times> 's) option" where
  "mp1_set_video_mode OS load vaddr s = do {
     (r, s) \<leftarrow> os_vidmap OS vaddr s;
     if r = - 1 then Some (0, s) else do { vmem_base_addr \<leftarrow> load s vaddr; Some (vmem_base_addr, s) }
   }"

fun fish_wait :: "'s os \<Rightarrow> int \<Rightarrow> nat \<Rightarrow> 's \<Rightarrow> blinks \<Rightarrow> ('s \<times> blinks) option" where
  "fish_wait OS rtc_fd 0 s b = Some (s, b)"
| "fish_wait OS rtc_fd (Suc n) s b = do {
     (_, garbage, s) \<leftarrow> os_read OS rtc_fd 4 s;
     b \<leftarrow> mp1_rtc_tasklet b;
     fish_wait OS rtc_fd n s b
   }"

definition fish_show :: "'s os \<Rightarrow> int \<Rightarrow> mp1_blink_struct \<Rightarrow> 's \<Rightarrow> blinks \<Rightarrow> ('s \<times> blinks) option" where
  "fish_show OS rtc_fd y s b = do {
     (s, b) \<leftarrow> fish_wait OS rtc_fd 100 s b;
     (_, b) \<leftarrow> mp1_ioctl_add (y\<lparr>on_char := 73, off_char := 77, on_length := 7, off_length := 6,
                 location := 6 * 80 + 60\<rparr>) b;
     (s, b) \<leftarrow> fish_wait OS rtc_fd 100 s b;
     (_, b) \<leftarrow> mp1_ioctl_sync (push_bit 16 40 OR (6 * 80 + 60)) b;
     (s, b) \<leftarrow> fish_wait OS rtc_fd 100 s b;
     (_, b) \<leftarrow> mp1_ioctl_remove (6 * 80 + 60) b;
     fish_wait OS rtc_fd 100 s b
   }"

definition fish_main :: "'s os \<Rightarrow> ('s \<Rightarrow> u32 \<Rightarrow> u32 option) \<Rightarrow> u32 \<Rightarrow> mp1_blink_struct \<Rightarrow> mp1_blink_struct \<Rightarrow> 's \<Rightarrow> blinks \<Rightarrow> (int \<times> 's \<times> blinks) option" where
  "fish_main OS load vaddr x y s b = do {
     let b = b\<lparr>blink_array := replicate NUM_BLINKS free_blink\<rparr>;
     (p, s) \<leftarrow> mp1_set_video_mode OS load vaddr s;
     if p = 0 then Some (- 1, s, b)
     else do {
       (rtc_fd, s) \<leftarrow> os_open OS (lit ''rtc'') s;
       frames \<leftarrow> add_frames OS (lit ''frame0.txt'') (lit ''frame1.txt'') x s b;
       case frames of
         Inl s \<Rightarrow> Some (- 1, s, b)
       | Inr (s, b) \<Rightarrow> do {
           (_, s) \<leftarrow> os_write OS rtc_fd (le32 32) 4 s;
           (s, b) \<leftarrow> fish_show OS rtc_fd y s b;
           (_, s) \<leftarrow> os_close OS rtc_fd s;
           Some (0, s, b)
         }
     }
   }"

subsection \<open>What the pictures become\<close>

text \<open>A structure as \<open>mp1_ioctl_add\<close> stores it.\<close>

definition lit_blink :: "mp1_blink_struct \<Rightarrow> mp1_blink_struct" where
  "lit_blink y = blink_of (y\<lparr>status := 1, countdown := on_length y\<rparr>)"

definition frame_blink :: "mp1_blink_struct \<Rightarrow> int \<Rightarrow> int \<Rightarrow> u8 \<Rightarrow> u8 \<Rightarrow> mp1_blink_struct" where
  "frame_blink x row col c0 c1 = x\<lparr>on_char := c0, off_char := c1, location := word_of_int (row * 80 + col + 40)\<rparr>"

definition cell :: "u8 list \<Rightarrow> u8" where
  "cell l = (case l of [] \<Rightarrow> 32 | c # _ \<Rightarrow> c)"

text \<open>The blinking characters of one line of both pictures: a position that is blank in both has none.\<close>

function line_blinks :: "mp1_blink_struct \<Rightarrow> int \<Rightarrow> int \<Rightarrow> u8 list \<Rightarrow> u8 list \<Rightarrow> mp1_blink_struct list" where
  "line_blinks x row col l0 l1 =
     (if l0 = [] \<and> l1 = [] then []
      else (if cell l0 \<noteq> 32 \<or> cell l1 \<noteq> 32 then [frame_blink x row col (cell l0) (cell l1)] else []) @
        line_blinks x row (col + 1) (tl l0) (tl l1))"
  by pat_completeness auto
termination
  by (relation "measure (\<lambda>(x, row, col, l0, l1). length l0 + length l1)")
    (auto simp: neq_Nil_conv)

declare line_blinks.simps [simp del]

function picture_blinks :: "mp1_blink_struct \<Rightarrow> int \<Rightarrow> u8 list list \<Rightarrow> u8 list list \<Rightarrow> mp1_blink_struct list" where
  "picture_blinks x row ls0 ls1 =
     (if ls0 = [] \<and> ls1 = [] then []
      else line_blinks x row 0 (concat (take 1 ls0)) (concat (take 1 ls1)) @
        picture_blinks x (row + 1) (tl ls0) (tl ls1))"
  by pat_completeness auto
termination
  by (relation "measure (\<lambda>(x, row, ls0, ls1). length ls0 + length ls1)")
    (auto simp: neq_Nil_conv)

declare picture_blinks.simps [simp del]

lemma length_line_blinks: "length (line_blinks x row col l0 l1) \<le> max (length l0) (length l1)"
proof (induction x row col l0 l1 rule: line_blinks.induct)
  case (1 x row col l0 l1)
  show ?case
  proof (cases "l0 = [] \<and> l1 = []")
    case False
    then have "max (length l0) (length l1) = Suc (max (length (tl l0)) (length (tl l1)))" by (cases l0; cases l1) auto
    then show ?thesis using 1 [OF False] by (subst line_blinks.simps) auto
  qed (simp add: line_blinks.simps)
qed

text \<open>The list of blinking characters after a sequence was added to it.\<close>

definition added :: "mp1_blink_struct list \<Rightarrow> blinks \<Rightarrow> nat list \<Rightarrow> blinks \<Rightarrow> nat list \<Rightarrow> bool" where
  "added ys b ps b' ps' \<longleftrightarrow> blinks_at b' ps' \<and> length ps' = length ys + length ps \<and>
     view b' ps' = rev (map lit_blink ys) @ view b ps \<and>
     vmem b' = fold (\<lambda>y v. v[2 * unat (location y) := on_char y]) ys (vmem b)"

lemma added_refl: "blinks_at b ps \<Longrightarrow> added [] b ps b ps"
  by (simp add: added_def)

lemma added_trans: "added ys b ps b' ps' \<Longrightarrow> added zs b' ps' b'' ps'' \<Longrightarrow> added (ys @ zs) b ps b'' ps''"
  by (simp add: added_def)

lemma added_one:
  assumes "blinks_at b ps" "location y \<noteq> 0" "location y < 80 * 25" "length ps < NUM_BLINKS"
  obtains b' ps' where "map_option snd (mp1_ioctl_add y b) = Some b'" "added [y] b ps b' ps'"
proof -
  obtain p b' where "mp1_ioctl_add y b = Some (0, b')" "blinks_at b' (p # ps)"
      "view b' (p # ps) = blink_of (y\<lparr>status := 1, countdown := on_length y\<rparr>) # view b ps"
      "vmem b' = (vmem b)[2 * unat (location y) := on_char y]"
    by (rule add_in_front [OF assms])
  then show ?thesis using that [of b' "p # ps"] by (simp add: added_def lit_blink_def)
qed

lemma frame_location:
  assumes "0 \<le> row" "0 \<le> col" "row * 80 + col + 40 < 2000"
  shows "location (frame_blink x row col c0 c1) \<noteq> 0" "location (frame_blink x row col c0 c1) < 80 * 25"
proof -
  have "unat (word_of_int (row * 80 + col + 40) :: u16) = nat (row * 80 + col + 40)"
    using assms by (simp only: unat_eq_nat_uint uint_word_of_int) simp
  then show "location (frame_blink x row col c0 c1) \<noteq> 0" "location (frame_blink x row col c0 c1) < 80 * 25"
    using assms by (auto simp: frame_blink_def word_less_nat_alt)
qed

subsection \<open>A line of a picture\<close>

definition line_left :: "u8 \<Rightarrow> u8 list \<Rightarrow> u8 list" where
  "line_left c xs = (if c = 10 then [] else takeWhile (\<lambda>y. y \<noteq> 10) xs)"

definition line_last :: "u8 \<Rightarrow> bool \<Rightarrow> u8 list \<Rightarrow> bool" where
  "line_last c eof xs \<longleftrightarrow> eof \<or> c \<noteq> 10 \<and> 10 \<notin> set xs"

definition line_after :: "u8 \<Rightarrow> u8 list \<Rightarrow> u8 list" where
  "line_after c xs = (if c = 10 then xs else drop (Suc (length (takeWhile (\<lambda>y. y \<noteq> 10) xs))) xs)"

locale os_pictures = os_files OS ok shown put table rest
  for OS :: "'s os" and ok :: "'s \<Rightarrow> bool" and shown :: "'s \<Rightarrow> 'v" and put :: "u8 \<Rightarrow> 'v \<Rightarrow> 'v"
    and table :: "'s \<Rightarrow> 't" and rest :: "'t \<Rightarrow> int \<Rightarrow> u8 list option" +
  fixes mine :: "int \<Rightarrow> bool"
  assumes read_other: "ok s \<Longrightarrow> rest (table s) fd = Some xs \<Longrightarrow> n < 2 ^ 31 \<Longrightarrow> os_read OS fd (int n) s = Some (r, bs, s') \<Longrightarrow>
      fd' \<noteq> fd \<Longrightarrow> rest (table s') fd' = rest (table s) fd'"
    and close_other: "ok s \<Longrightarrow> mine fd \<Longrightarrow>
      \<exists>r s'. os_close OS fd s = Some (r, s') \<and> ok s' \<and> shown s' = shown s \<and>
        (\<forall>fd'. fd' \<noteq> fd \<longrightarrow> rest (table s') fd' = rest (table s) fd')"
begin

text \<open>Between two reads: at the end of the file the character is a newline, before it the text is left to read.\<close>

definition reading :: "int \<Rightarrow> u8 \<Rightarrow> bool \<Rightarrow> u8 list \<Rightarrow> 's \<Rightarrow> bool" where
  "reading fd c eof xs s \<longleftrightarrow> (if eof then c = 10 else rest (table s) fd = Some xs)"

definition others :: "int \<Rightarrow> 's \<Rightarrow> 's \<Rightarrow> bool" where
  "others fd s s' \<longleftrightarrow> ok s' \<and> shown s' = shown s \<and> (\<forall>fd'. fd' \<noteq> fd \<longrightarrow> rest (table s') fd' = rest (table s) fd')"

lemma frame_char_ok:
  assumes "ok s" "reading fd c eof xs s"
  obtains c' eof' xs' s' where "frame_char OS fd c eof s = Some (c', eof', s')" "others fd s s'" "reading fd c' eof' xs' s'"
    "c' = (if line_left c xs = [] then 10 else hd (line_left c xs))" "line_left c' xs' = tl (line_left c xs)"
    "line_last c' eof' xs' = line_last c eof xs" "\<not> line_last c eof xs \<longrightarrow> line_after c' xs' = line_after c xs"
proof (cases "c = 10")
  case True
  then show ?thesis
    using that [of c eof s xs] assms by (simp add: frame_char_def others_def line_left_def)
next
  case False
  then have xs: "\<not> eof" "rest (table s) fd = Some xs" using assms(2) by (auto simp: reading_def split: if_splits)
  obtain s' where s': "os_read OS fd (int 1) s = Some (int (length (take 1 xs)), take 1 xs, s')" "ok s'" "shown s' = shown s"
      "rest (table s') fd = Some (drop 1 xs)"
    using read_file [OF assms(1) xs(2), of 1] by auto
  have oth: "others fd s s'" using s'(2,3) read_other [OF assms(1) xs(2) _ s'(1)] by (simp add: others_def)
  show ?thesis
  proof (cases xs)
    case Nil
    then have "frame_char OS fd c eof s = Some (10, True, s')" using s'(1) False by (simp add: frame_char_def put_bytes_def)
    then show ?thesis
      using that [of 10 True s' "[]"] oth Nil xs(1) False
      by (simp add: reading_def line_left_def line_last_def)
  next
    case (Cons y ys)
    have f: "frame_char OS fd c eof s = Some (y, False, s')"
      using s'(1) False xs(1) Cons by (simp add: frame_char_def put_bytes_def)
    show ?thesis
    proof (rule that [OF f oth])
      show "reading fd y False ys s'" using s'(4) Cons by (simp add: reading_def)
      show "y = (if line_left c xs = [] then 10 else hd (line_left c xs))" using Cons False by (simp add: line_left_def)
      show "line_left y ys = tl (line_left c xs)" using Cons False by (simp add: line_left_def)
      show "line_last y False ys = line_last c eof xs" using Cons False xs(1) by (auto simp: line_last_def)
      show "\<not> line_last c eof xs \<longrightarrow> line_after y ys = line_after c xs" using Cons False by (simp add: line_after_def)
    qed
  qed
qed

lemma reading_others: "others fd s s' \<Longrightarrow> fd' \<noteq> fd \<Longrightarrow> reading fd' c eof xs s' = reading fd' c eof xs s"
  by (simp add: others_def reading_def)

lemma line_left_hd: "line_left c xs \<noteq> [] \<Longrightarrow> hd (line_left c xs) \<noteq> 10"
  by (cases xs) (auto simp: line_left_def split: if_splits)

lemma frame_row_ok:
  assumes "ok s" "reading fd0 c0 eof0 xs0 s" "reading fd1 c1 eof1 xs1 s" "fd0 \<noteq> fd1" "blinks_at b ps" "0 \<le> row" "0 \<le> col"
    and "row * 80 + col + int (max (length (line_left c0 xs0)) (length (line_left c1 xs1))) + 40 \<le> 2000"
    and "length ps + max (length (line_left c0 xs0)) (length (line_left c1 xs1)) \<le> NUM_BLINKS"
  shows "\<exists>s' b' ps'. frame_row OS fd0 fd1 x row col c0 eof0 c1 eof1 s b =
      Some (line_last c0 eof0 xs0, line_last c1 eof1 xs1, s', b') \<and> ok s' \<and> shown s' = shown s \<and>
    added (line_blinks x row col (line_left c0 xs0) (line_left c1 xs1)) b ps b' ps' \<and>
    (\<not> line_last c0 eof0 xs0 \<longrightarrow> rest (table s') fd0 = Some (line_after c0 xs0)) \<and>
    (\<not> line_last c1 eof1 xs1 \<longrightarrow> rest (table s') fd1 = Some (line_after c1 xs1))"
  using assms
proof (induction "length (line_left c0 xs0) + length (line_left c1 xs1)" arbitrary: c0 eof0 xs0 c1 eof1 xs1 s b ps col rule: less_induct)
  case less
  let ?l0 = "line_left c0 xs0" and ?l1 = "line_left c1 xs1"
  obtain d0 e0 ys0 s1 where r0: "frame_char OS fd0 c0 eof0 s = Some (d0, e0, s1)" "others fd0 s s1" "reading fd0 d0 e0 ys0 s1"
      "d0 = (if ?l0 = [] then 10 else hd ?l0)" "line_left d0 ys0 = tl ?l0" "line_last d0 e0 ys0 = line_last c0 eof0 xs0"
      "\<not> line_last c0 eof0 xs0 \<longrightarrow> line_after d0 ys0 = line_after c0 xs0"
    by (rule frame_char_ok [OF less.prems(1,2)])
  have "ok s1" "reading fd1 c1 eof1 xs1 s1"
    using r0(2) less.prems(3,4) by (simp_all add: reading_others others_def [of fd0 s s1]) (simp add: reading_def)
  then obtain d1 e1 ys1 s2 where r1: "frame_char OS fd1 c1 eof1 s1 = Some (d1, e1, s2)" "others fd1 s1 s2" "reading fd1 d1 e1 ys1 s2"
      "d1 = (if ?l1 = [] then 10 else hd ?l1)" "line_left d1 ys1 = tl ?l1" "line_last d1 e1 ys1 = line_last c1 eof1 xs1"
      "\<not> line_last c1 eof1 xs1 \<longrightarrow> line_after d1 ys1 = line_after c1 xs1"
    by (rule frame_char_ok)
  have f0: "reading fd0 d0 e0 ys0 s2" using r0(3) reading_others [OF r1(2) less.prems(4)] by simp
  have ok2: "ok s2" "shown s2 = shown s" using r0(2) r1(2) by (simp_all add: others_def)
  show ?case
  proof (cases "?l0 = [] \<and> ?l1 = []")
    case True
    then have d: "d0 = 10" "d1 = 10" using r0(4) r1(4) by simp_all
    then have e: "e0 = line_last c0 eof0 xs0" "e1 = line_last c1 eof1 xs1" using r0(6) r1(6) by (auto simp: line_last_def)
    have "frame_row OS fd0 fd1 x row col c0 eof0 c1 eof1 s b = Some (line_last c0 eof0 xs0, line_last c1 eof1 xs1, s2, b)"
      using r0(1) r1(1) d e by (subst frame_row.simps) simp
    moreover have "line_blinks x row col ?l0 ?l1 = []" using True by (simp add: line_blinks.simps)
    moreover have "\<not> line_last c0 eof0 xs0 \<longrightarrow> rest (table s2) fd0 = Some (line_after c0 xs0)"
      using f0 e(1) r0(7) d(1) by (auto simp: reading_def line_after_def)
    moreover have "\<not> line_last c1 eof1 xs1 \<longrightarrow> rest (table s2) fd1 = Some (line_after c1 xs1)"
      using r1(3) e(2) r1(7) d(2) by (auto simp: reading_def line_after_def)
    ultimately show ?thesis using ok2 added_refl [OF less.prems(5)] by metis
  next
    case False
    have c: "cell ?l0 = (if d0 = 10 then 32 else d0)" "cell ?l1 = (if d1 = 10 then 32 else d1)" "\<not> (d0 = 10 \<and> d1 = 10)"
      using False r0(4) r1(4) line_left_hd [of c0 xs0] line_left_hd [of c1 xs1] by (auto simp: cell_def split: list.splits)
    have m: "max (length ?l0) (length ?l1) = Suc (max (length (tl ?l0)) (length (tl ?l1)))" using False by (cases ?l0; cases ?l1) auto
    let ?y = "frame_blink x row col (cell ?l0) (cell ?l1)"
    let ?ys = "if cell ?l0 \<noteq> 32 \<or> cell ?l1 \<noteq> 32 then [?y] else []"
    have y: "location ?y \<noteq> 0" "location ?y < 80 * 25" using less.prems(6-8) m by (intro frame_location; simp)+
    have cap: "length ps < NUM_BLINKS" using less.prems(9) m by simp
    obtain b1 ps1 where b1: "(if d0 \<noteq> 32 \<and> d0 \<noteq> 10 \<or> d1 \<noteq> 32 \<and> d1 \<noteq> 10
        then map_option snd (mp1_ioctl_add (x\<lparr>on_char := (if d0 = 10 then 32 else d0),
               off_char := (if d1 = 10 then 32 else d1), location := word_of_int (row * 80 + col + 40)\<rparr>) b)
        else Some b) = Some b1" "added ?ys b ps b1 ps1"
    proof (cases "cell ?l0 \<noteq> 32 \<or> cell ?l1 \<noteq> 32")
      case True
      obtain b1 ps1 where "map_option snd (mp1_ioctl_add ?y b) = Some b1" "added [?y] b ps b1 ps1"
        by (rule added_one [OF less.prems(5) y cap])
      then show ?thesis using that [of b1 ps1] True c by (auto simp: frame_blink_def split: if_splits)
    next
      case False
      then show ?thesis using that [of b ps] added_refl [OF less.prems(5)] c by (auto split: if_splits)
    qed
    have len: "length ps1 \<le> Suc (length ps)" "blinks_at b1 ps1" using b1(2) by (auto simp: added_def split: if_splits)
    have "length (line_left d0 ys0) + length (line_left d1 ys1) < length ?l0 + length ?l1"
      using False r0(5) r1(5) by (cases ?l0; cases ?l1) auto
    from less.hyps [OF this ok2(1) f0 r1(3) less.prems(4) len(2) less.prems(6), of "col + 1"]
    obtain s' b' ps' where R: "frame_row OS fd0 fd1 x row (col + 1) d0 e0 d1 e1 s2 b1 =
        Some (line_last c0 eof0 xs0, line_last c1 eof1 xs1, s', b')" "ok s'" "shown s' = shown s2"
        "added (line_blinks x row (col + 1) (tl ?l0) (tl ?l1)) b1 ps1 b' ps'"
        "\<not> line_last c0 eof0 xs0 \<longrightarrow> rest (table s') fd0 = Some (line_after d0 ys0)"
        "\<not> line_last c1 eof1 xs1 \<longrightarrow> rest (table s') fd1 = Some (line_after d1 ys1)"
      using less.prems(7-9) m len(1) unfolding r0(5,6) r1(5,6) by auto
    have "frame_row OS fd0 fd1 x row col c0 eof0 c1 eof1 s b = Some (line_last c0 eof0 xs0, line_last c1 eof1 xs1, s', b')"
      using r0(1) r1(1) c(3) b1(1) R(1) by (subst frame_row.simps) (simp, blast)
    moreover have "line_blinks x row col ?l0 ?l1 = ?ys @ line_blinks x row (col + 1) (tl ?l0) (tl ?l1)"
      using False by (subst line_blinks.simps) (simp only: False if_False)
    ultimately show ?thesis
      using R ok2(2) r0(7) r1(7) added_trans [OF b1(2) R(4)] by metis
  qed
qed

text \<open>The start of a row: the lines of each picture that are still to come.\<close>

definition at_row :: "int \<Rightarrow> u8 \<Rightarrow> bool \<Rightarrow> u8 list list \<Rightarrow> 's \<Rightarrow> bool" where
  "at_row fd c eof ls s \<longleftrightarrow>
     (if eof then c = 10 \<and> ls = [] else c = 48 \<and> (\<exists>xs. rest (table s) fd = Some xs \<and> ls = split_lines xs))"

lemma at_row_text:
  assumes "at_row fd c eof ls s"
  obtains xs where "reading fd c eof xs s" "line_left c xs = concat (take 1 ls)" "line_last c eof xs \<longleftrightarrow> tl ls = []"
    "\<not> line_last c eof xs \<Longrightarrow> split_lines (line_after c xs) = tl ls"
proof (cases eof)
  case True
  then show ?thesis using that [of "[]"] assms by (simp add: at_row_def reading_def line_left_def line_last_def)
next
  case False
  then obtain xs where xs: "c = 48" "rest (table s) fd = Some xs" "ls = split_lines xs" using assms by (auto simp: at_row_def)
  have r: "reading fd c eof xs s" using False xs by (simp add: reading_def)
  show ?thesis
  proof (cases rule: line_cases [of xs])
    case 1
    then have "takeWhile (\<lambda>y. y \<noteq> 10) xs = xs" by (auto simp: takeWhile_eq_all_conv)
    then show ?thesis
      using that [OF r] xs 1 split_lines_single [OF 1] by (simp add: line_left_def line_last_def)
  next
    case (2 l w)
    then have t: "takeWhile (\<lambda>y. y \<noteq> 10) xs = l" by (subst 2(1), subst takeWhile_append2) auto
    show ?thesis
      using that [OF r] xs 2 t split_lines_line [OF 2(2), of w] split_lines_nonempty [of w]
      by (simp add: line_left_def line_last_def line_after_def False)
  qed
qed

lemma frame_end_ok:
  assumes "ok s" "mine fd" "eof = (ls = [])" "\<not> eof \<longrightarrow> (\<exists>xs. rest (table s) fd = Some xs \<and> ls = split_lines xs)"
  obtains c s' where "frame_end OS fd eof s = Some (c, s')" "others fd s s'" "at_row fd c eof ls s'"
proof (cases eof)
  case True
  obtain r s' where "os_close OS fd s = Some (r, s')" "others fd s s'"
    using close_other [OF assms(1,2)] by (auto simp: others_def)
  then show ?thesis using that [of 10 s'] True assms(3) by (simp add: frame_end_def at_row_def)
next
  case False
  then show ?thesis using that [of 48 s] assms by (simp add: frame_end_def at_row_def others_def)
qed

lemma at_row_others: "others fd s s' \<Longrightarrow> fd' \<noteq> fd \<Longrightarrow> at_row fd' c eof ls s' = at_row fd' c eof ls s"
  by (simp add: others_def at_row_def)

lemma frame_rows_ok:
  assumes "ok s" "at_row fd0 c0 eof0 ls0 s" "at_row fd1 c1 eof1 ls1 s" "fd0 \<noteq> fd1" "mine fd0" "mine fd1" "blinks_at b ps"
    and "0 \<le> row" "row + int (max (length ls0) (length ls1)) \<le> 25" "\<forall>l \<in> set (ls0 @ ls1). length l \<le> 40"
    and "length ps + 40 * max (length ls0) (length ls1) \<le> NUM_BLINKS"
  shows "\<exists>s' b' ps'. frame_rows OS fd0 fd1 x row c0 eof0 c1 eof1 s b = Some (s', b') \<and> ok s' \<and> shown s' = shown s \<and>
    added (picture_blinks x row ls0 ls1) b ps b' ps'"
  using assms
proof (induction "length ls0 + length ls1" arbitrary: ls0 ls1 c0 eof0 c1 eof1 s b ps row rule: less_induct)
  case less
  have e: "eof0 \<longleftrightarrow> ls0 = []" "eof1 \<longleftrightarrow> ls1 = []"
    using less.prems(2,3) split_lines_nonempty by (auto simp: at_row_def split: if_splits)
  show ?case
  proof (cases "ls0 = [] \<and> ls1 = []")
    case True
    then show ?thesis
      using e less.prems(1) added_refl [OF less.prems(7)]
      by (subst frame_rows.simps) (auto simp: picture_blinks.simps)
  next
    case False
    let ?l0 = "concat (take 1 ls0)" and ?l1 = "concat (take 1 ls1)"
    obtain xs0 where x0: "reading fd0 c0 eof0 xs0 s" "line_left c0 xs0 = ?l0" "line_last c0 eof0 xs0 \<longleftrightarrow> tl ls0 = []"
        "\<not> line_last c0 eof0 xs0 \<Longrightarrow> split_lines (line_after c0 xs0) = tl ls0"
      using at_row_text [OF less.prems(2)] by blast
    obtain xs1 where x1: "reading fd1 c1 eof1 xs1 s" "line_left c1 xs1 = ?l1" "line_last c1 eof1 xs1 \<longleftrightarrow> tl ls1 = []"
        "\<not> line_last c1 eof1 xs1 \<Longrightarrow> split_lines (line_after c1 xs1) = tl ls1"
      using at_row_text [OF less.prems(3)] by blast
    have l: "length ?l0 \<le> 40" "length ?l1 \<le> 40" using less.prems(10) by (cases ls0; cases ls1; simp)+
    have m: "max (length ls0) (length ls1) = Suc (max (length (tl ls0)) (length (tl ls1)))" using False by (cases ls0; cases ls1) auto
    have loc: "row * 80 + 0 + int (max (length (line_left c0 xs0)) (length (line_left c1 xs1))) + 40 \<le> 2000"
        "length ps + max (length (line_left c0 xs0)) (length (line_left c1 xs1)) \<le> NUM_BLINKS"
      using less.prems(9,11) l m unfolding x0(2) x1(2) by (auto simp: max_def)
    from frame_row_ok [OF less.prems(1) x0(1) x1(1) less.prems(4,7,8) _ loc, of x] obtain s1 b1 ps1 where
      s1: "frame_row OS fd0 fd1 x row 0 c0 eof0 c1 eof1 s b = Some (tl ls0 = [], tl ls1 = [], s1, b1)" "ok s1" "shown s1 = shown s"
        "added (line_blinks x row 0 ?l0 ?l1) b ps b1 ps1"
        "tl ls0 \<noteq> [] \<longrightarrow> rest (table s1) fd0 = Some (line_after c0 xs0)"
        "tl ls1 \<noteq> [] \<longrightarrow> rest (table s1) fd1 = Some (line_after c1 xs1)"
      unfolding x0(2,3) x1(2,3) by auto
    obtain d0 s2 where s2: "frame_end OS fd0 (tl ls0 = []) s1 = Some (d0, s2)" "others fd0 s1 s2" "at_row fd0 d0 (tl ls0 = []) (tl ls0) s2"
      using frame_end_ok [OF s1(2) less.prems(5), of "tl ls0 = []" "tl ls0"] s1(5) x0(3,4) by auto
    have t2: "rest (table s2) fd1 = rest (table s1) fd1" "ok s2" "shown s2 = shown s1"
      using s2(2) less.prems(4) by (simp_all add: others_def)
    obtain d1 s3 where s3: "frame_end OS fd1 (tl ls1 = []) s2 = Some (d1, s3)" "others fd1 s2 s3" "at_row fd1 d1 (tl ls1 = []) (tl ls1) s3"
      using frame_end_ok [OF t2(2) less.prems(6), of "tl ls1 = []" "tl ls1"] s1(6) x1(3,4) t2(1) by auto
    have r0: "at_row fd0 d0 (tl ls0 = []) (tl ls0) s3" using s2(3) at_row_others [OF s3(2) less.prems(4)] by simp
    have ok3: "ok s3" "shown s3 = shown s" using s3(2) t2(3) s1(3) by (simp_all add: others_def)
    have "length (line_blinks x row 0 ?l0 ?l1) \<le> 40" using length_line_blinks [of x row 0 ?l0 ?l1] l by simp
    then have b1: "blinks_at b1 ps1" "length ps1 \<le> 40 + length ps" using s1(4) by (simp_all add: added_def)
    have "length (tl ls0) + length (tl ls1) < length ls0 + length ls1" using False by (cases ls0; cases ls1) auto
    moreover have "\<forall>l \<in> set (tl ls0 @ tl ls1). length l \<le> 40" using less.prems(10) by (cases ls0; cases ls1) auto
    ultimately obtain s' b' ps' where R: "frame_rows OS fd0 fd1 x (row + 1) d0 (tl ls0 = []) d1 (tl ls1 = []) s3 b1 = Some (s', b')"
        "ok s'" "shown s' = shown s3" "added (picture_blinks x (row + 1) (tl ls0) (tl ls1)) b1 ps1 b' ps'"
      using less.hyps [OF _ ok3(1) r0 s3(3) less.prems(4-6) b1(1), of "row + 1"] less.prems(8,9,11) m b1(2) by auto
    have "frame_rows OS fd0 fd1 x row c0 eof0 c1 eof1 s b = Some (s', b')"
      using s1(1) s2(1) s3(1) R(1) False e by (subst frame_rows.simps) simp
    moreover have "picture_blinks x row ls0 ls1 = line_blinks x row 0 ?l0 ?l1 @ picture_blinks x (row + 1) (tl ls0) (tl ls1)"
      using False by (subst picture_blinks.simps) (simp only: False if_False)
    ultimately show ?thesis using R ok3(2) added_trans [OF s1(4) R(4)] by metis
  qed
qed

end

subsection \<open>What is seen\<close>

text \<open>The character of the current phase is on the screen, and no other structure of the list writes there.\<close>

definition phase_char :: "mp1_blink_struct \<Rightarrow> u8" where
  "phase_char x = (if bit (status x) 0 then on_char x else off_char x)"

definition seen :: "mp1_blink_struct \<Rightarrow> u8 list \<Rightarrow> bool" where
  "seen x v \<longleftrightarrow> v ! (2 * unat (location x)) = phase_char x"

definition alone :: "mp1_blink_struct \<Rightarrow> mp1_blink_struct list \<Rightarrow> bool" where
  "alone x ys \<longleftrightarrow> filter (\<lambda>y. location y = location x) ys = [x]"

lemma tick_show_other:
  "location y \<noteq> location x \<Longrightarrow> tick_show y v ! (2 * unat (location x)) = v ! (2 * unat (location x))"
  by (simp add: tick_show_def word_unat_eq_iff)

lemma fold_tick_show_other:
  "filter (\<lambda>y. location y = location x) ys = [] \<Longrightarrow> fold tick_show ys v ! (2 * unat (location x)) = v ! (2 * unat (location x))"
proof (induction ys arbitrary: v)
  case (Cons y ys)
  have "location y \<noteq> location x" "filter (\<lambda>y. location y = location x) ys = []" using Cons.prems by (auto split: if_splits)
  then show ?case using Cons.IH [of "tick_show y v"] tick_show_other by simp
qed simp

lemma phase_char_tick:
  "phase_char (blink_tick x) = (if phase_over x then (if bit (status x) 0 then off_char x else on_char x) else phase_char x)"
proof -
  have "bit (flip_bit 0 w) 0 \<longleftrightarrow> \<not> bit w 0" for w :: u16 by (simp add: bit_flip_bit_iff)
  then show ?thesis by (simp add: phase_char_def blink_tick_def)
qed

lemma seen_tick:
  assumes "alone x ys" "seen x v" "2 * unat (location x) < length v"
  shows "seen (blink_tick x) (fold tick_show ys v)"
proof -
  obtain us vs where ys: "ys = us @ x # vs" "filter (\<lambda>y. location y = location x) us = []" "filter (\<lambda>y. location y = location x) vs = []"
    using filter_eq_Cons_iff [of "\<lambda>y. location y = location x" ys x "[]"] assms(1) by (auto simp: alone_def)
  let ?u = "fold tick_show us v"
  have "length ?u = length v" by (induction us arbitrary: v) simp_all
  moreover have "?u ! (2 * unat (location x)) = phase_char x" using fold_tick_show_other [OF ys(2)] assms(2) by (simp add: seen_def)
  ultimately have "tick_show x ?u ! (2 * unat (location x)) = phase_char (blink_tick x)"
    using assms(3) by (simp add: tick_show_def phase_char_tick)
  then show ?thesis using fold_tick_show_other [OF ys(3)] by (simp add: seen_def ys(1))
qed

lemma alone_map: "(\<And>y. location (f y) = location y) \<Longrightarrow> alone x ys \<Longrightarrow> alone (f x) (map f ys)"
  by (simp add: alone_def filter_map comp_def)

subsection \<open>The positions of the pictures\<close>

definition place :: "mp1_blink_struct \<Rightarrow> int" where
  "place y = int (unat (location y))"

lemma place_frame:
  "0 \<le> row \<Longrightarrow> 0 \<le> col \<Longrightarrow> row * 80 + col + 40 < 2000 \<Longrightarrow> place (frame_blink x row col c0 c1) = row * 80 + col + 40"
proof -
  assume a: "0 \<le> row" "0 \<le> col" "row * 80 + col + 40 < 2000"
  then have "unat (word_of_int (row * 80 + col + 40) :: u16) = nat (row * 80 + col + 40)"
    by (simp only: unat_eq_nat_uint uint_word_of_int) simp
  then show ?thesis using a by (simp add: place_def frame_blink_def)
qed

lemma line_places:
  assumes "0 \<le> row" "0 \<le> col" "row * 80 + col + int (max (length l0) (length l1)) + 40 \<le> 2000"
  shows "sorted_wrt (\<lambda>y z. place y < place z) (line_blinks x row col l0 l1) \<and>
    (\<forall>y \<in> set (line_blinks x row col l0 l1). row * 80 + col + 40 \<le> place y \<and> place y < row * 80 + col + 40 + int (max (length l0) (length l1)))"
  using assms
proof (induction x row col l0 l1 rule: line_blinks.induct)
  case (1 x row col l0 l1)
  show ?case
  proof (cases "l0 = [] \<and> l1 = []")
    case False
    have m: "max (length l0) (length l1) = Suc (max (length (tl l0)) (length (tl l1)))" using False by (cases l0; cases l1) auto
    have p: "place (frame_blink x row col c0 c1) = row * 80 + col + 40" for c0 c1
      using 1(2-4) m by (intro place_frame) auto
    have "sorted_wrt (\<lambda>y z. place y < place z) (line_blinks x row (col + 1) (tl l0) (tl l1)) \<and>
      (\<forall>y \<in> set (line_blinks x row (col + 1) (tl l0) (tl l1)). row * 80 + (col + 1) + 40 \<le> place y \<and>
         place y < row * 80 + (col + 1) + 40 + int (max (length (tl l0)) (length (tl l1))))"
      using 1(2-4) m by (intro 1(1) [OF False]) auto
    then show ?thesis using p m by (subst (1 2) line_blinks.simps) (auto simp: False)
  qed (simp add: line_blinks.simps)
qed

lemma picture_places:
  assumes "0 \<le> row" "row + int (max (length ls0) (length ls1)) \<le> 25" "\<forall>l \<in> set (ls0 @ ls1). length l \<le> 40"
  shows "sorted_wrt (\<lambda>y z. place y < place z) (picture_blinks x row ls0 ls1) \<and>
    (\<forall>y \<in> set (picture_blinks x row ls0 ls1). row * 80 + 40 \<le> place y)"
  using assms
proof (induction x row ls0 ls1 rule: picture_blinks.induct)
  case (1 x row ls0 ls1)
  show ?case
  proof (cases "ls0 = [] \<and> ls1 = []")
    case False
    let ?l0 = "concat (take 1 ls0)" and ?l1 = "concat (take 1 ls1)"
    have m: "max (length ls0) (length ls1) = Suc (max (length (tl ls0)) (length (tl ls1)))" using False by (cases ls0; cases ls1) auto
    have l: "length ?l0 \<le> 40" "length ?l1 \<le> 40" using 1(4) by (cases ls0; cases ls1; simp)+
    have "\<forall>l \<in> set (tl ls0 @ tl ls1). length l \<le> 40" using 1(4) by (cases ls0; cases ls1) auto
    then have tl: "sorted_wrt (\<lambda>y z. place y < place z) (picture_blinks x (row + 1) (tl ls0) (tl ls1))"
        "\<forall>y \<in> set (picture_blinks x (row + 1) (tl ls0) (tl ls1)). (row + 1) * 80 + 40 \<le> place y"
      using 1(1) [OF False] 1(2,3) m by auto
    have "row * 80 + 0 + int (max (length ?l0) (length ?l1)) + 40 \<le> 2000" using l 1(3) m by (auto simp: max_def)
    from line_places [OF 1(2) _ this] have ln: "sorted_wrt (\<lambda>y z. place y < place z) (line_blinks x row 0 ?l0 ?l1)"
        "\<forall>y \<in> set (line_blinks x row 0 ?l0 ?l1). row * 80 + 40 \<le> place y \<and> place y < row * 80 + 40 + 40"
      using l by (fastforce simp: max_def split: if_splits)+
    have "picture_blinks x row ls0 ls1 = line_blinks x row 0 ?l0 ?l1 @ picture_blinks x (row + 1) (tl ls0) (tl ls1)"
      using False by (subst picture_blinks.simps) (simp only: False if_False)
    then show ?thesis using tl ln by (force simp: sorted_wrt_append)
  qed (simp add: picture_blinks.simps)
qed

lemma pictures_alone:
  assumes "sorted_wrt (\<lambda>y z. place y < place z) ys" "y \<in> set ys"
  shows "alone y ys"
  using assms
proof (induction ys)
  case (Cons z ys)
  show ?case
  proof (cases "y = z")
    case True
    then have "filter (\<lambda>k. location k = location y) ys = []" using Cons.prems(1) by (auto simp: filter_empty_conv place_def)
    then show ?thesis using True by (simp add: alone_def)
  next
    case False
    then have "y \<in> set ys" "location z \<noteq> location y" using Cons.prems by (auto simp: place_def)
    then show ?thesis using Cons by (simp add: alone_def)
  qed
qed simp

lemma alone_rev: "alone y ys \<Longrightarrow> alone y (rev ys)"
  by (simp add: alone_def rev_filter [symmetric])

text \<open>After the pictures were added each of their characters is seen in its lit phase.\<close>

lemma added_seen:
  assumes "alone y ys" "2 * unat (location y) < length v"
  shows "seen (lit_blink y) (fold (\<lambda>y v. v[2 * unat (location y) := on_char y]) ys v)"
proof -
  let ?f = "\<lambda>(y :: mp1_blink_struct) (v :: u8 list). v[2 * unat (location y) := on_char y]"
  obtain us vs where ys: "ys = us @ y # vs" "filter (\<lambda>z. location z = location y) vs = []"
    using filter_eq_Cons_iff [of "\<lambda>z. location z = location y" ys y "[]"] assms(1) by (auto simp: alone_def)
  have len: "length (fold ?f xs v) = length v" for xs v by (induction xs arbitrary: v) simp_all
  have "fold ?f vs w ! (2 * unat (location y)) = w ! (2 * unat (location y))" for w
    using ys(2)
  proof (induction vs arbitrary: w)
    case (Cons z vs)
    then have "location z \<noteq> location y" "filter (\<lambda>z. location z = location y) vs = []" by (auto split: if_splits)
    then show ?case using Cons.IH by (simp add: word_unat_eq_iff)
  qed simp
  moreover have "location (lit_blink y) = location y" "phase_char (lit_blink y) = on_char y"
    by (simp_all add: lit_blink_def blink_of_def phase_char_def bit_0)
  ultimately show ?thesis using assms(2) len by (simp add: seen_def ys(1))
qed

subsection \<open>Waiting for the clock\<close>

lemma map_funpow: "map (f ^^ m) (map (f ^^ n) xs) = map (f ^^ (n + m)) xs"
  by (simp add: funpow_add add.commute [of n])

lemma funpow_location: "location ((blink_tick ^^ n) x) = location x"
  by (induction n) simp_all

lemma view_location: "view b (p # ps) = map (blink_tick ^^ n) vs \<Longrightarrow> location (blink_array b ! p) = location (hd vs)"
proof -
  assume v: "view b (p # ps) = map (blink_tick ^^ n) vs"
  then have "location (hd (view b (p # ps))) = location (hd vs)" by (cases vs) (simp_all add: view_def funpow_location)
  then show ?thesis by (simp add: view_def blink_of_def)
qed

lemma view_Cons: "view b (p # ps) = blink_of (blink_array b ! p) # view b ps"
  by (simp add: view_def)

lemma alone_funpow: "alone x ys \<Longrightarrow> alone ((blink_tick ^^ n) x) (map (blink_tick ^^ n) ys)"
  by (rule alone_map [OF funpow_location])

lemma alone_Cons: "location y \<noteq> location x \<Longrightarrow> alone x (y # ys) = alone x ys"
  by (simp add: alone_def)

lemma view_bound:
  assumes "blinks_at b ps" "alone x (view b ps)"
  shows "2 * unat (location x) < length (vmem b)"
proof -
  have "x \<in> set (filter (\<lambda>y. location y = location x) (view b ps))" using assms(2) by (simp add: alone_def)
  then obtain p where p: "p \<in> set ps" "x = blink_of (blink_array b ! p)" by (auto simp: view_def)
  have "p < NUM_BLINKS" using blink_list_bound [of "blink_array b" "mp1_list_head b" ps p] assms(1) p(1) by (simp add: blinks_at_def)
  then have "location (blink_array b ! p) < 80 * 25" using assms(1) by (simp add: blinks_at_def)
  then have "unat (location x) < 2000" using p(2) by (simp add: blink_of_def word_less_nat_alt)
  then show ?thesis using assms(1) by (simp add: blinks_at_def)
qed

lemma length_picture_blinks:
  "\<forall>l \<in> set (ls0 @ ls1). length l \<le> m \<Longrightarrow> length (picture_blinks x row ls0 ls1) \<le> m * max (length ls0) (length ls1)"
proof (induction x row ls0 ls1 rule: picture_blinks.induct)
  case (1 x row ls0 ls1)
  show ?case
  proof (cases "ls0 = [] \<and> ls1 = []")
    case False
    let ?l0 = "concat (take 1 ls0)" and ?l1 = "concat (take 1 ls1)"
    have "length ?l0 \<le> m" "length ?l1 \<le> m" using 1(2) by (cases ls0; cases ls1; simp)+
    then have "length (line_blinks x row 0 ?l0 ?l1) \<le> m" using length_line_blinks [of x row 0 ?l0 ?l1] by simp
    moreover have "\<forall>l \<in> set (tl ls0 @ tl ls1). length l \<le> m" using 1(2) by (cases ls0; cases ls1) auto
    then have "length (picture_blinks x (row + 1) (tl ls0) (tl ls1)) \<le> m * max (length (tl ls0)) (length (tl ls1))"
      by (rule 1(1) [OF False])
    moreover have "max (length ls0) (length ls1) = Suc (max (length (tl ls0)) (length (tl ls1)))" using False by (cases ls0; cases ls1) auto
    ultimately show ?thesis by (subst picture_blinks.simps) (simp add: False)
  qed (simp add: picture_blinks.simps)
qed

text \<open>
  A stretch of \<open>n\<close> ticks for the part \<open>ps\<close> of the list, apart from location 540, where the program puts one
  character more.
\<close>

definition advanced :: "nat \<Rightarrow> blinks \<Rightarrow> blinks \<Rightarrow> nat list \<Rightarrow> bool" where
  "advanced n b b' ps \<longleftrightarrow> view b' ps = map (blink_tick ^^ n) (view b ps) \<and>
     (\<forall>x. alone x (view b ps) \<and> seen x (vmem b) \<and> location x \<noteq> 540 \<longrightarrow> seen ((blink_tick ^^ n) x) (vmem b'))"

lemma advanced_trans:
  assumes "advanced n b c ps" "advanced m c d ps"
  shows "advanced (n + m) b d ps"
proof -
  have "seen ((blink_tick ^^ (n + m)) x) (vmem d)" if "alone x (view b ps)" "seen x (vmem b)" "location x \<noteq> 540" for x
    using assms that alone_funpow [OF that(1), of n] by (simp add: advanced_def funpow_location funpow_add add.commute [of n])
  moreover have "view d ps = map (blink_tick ^^ (n + m)) (view b ps)"
    using assms unfolding advanced_def by (simp only: map_funpow)
  ultimately show ?thesis unfolding advanced_def by blast
qed

lemma advanced_0:
  "view c ps = view b ps \<Longrightarrow> \<forall>l :: u16. l \<noteq> 540 \<longrightarrow> vmem c ! (2 * unat l) = vmem b ! (2 * unat l) \<Longrightarrow> advanced 0 b c ps"
  by (simp add: advanced_def seen_def)

lemma advanced_tl:
  assumes "view c (p # ps) = map (blink_tick ^^ n) (view b (p # ps))" "location (blink_array b ! p) = 540"
    and "\<forall>x. alone x (view b (p # ps)) \<and> seen x (vmem b) \<longrightarrow> seen ((blink_tick ^^ n) x) (vmem c)"
  shows "advanced n b c ps"
  using assms by (auto simp: advanced_def view_Cons alone_Cons)

lemma pictures_seen:
  assumes "added (picture_blinks x 0 ls0 ls1) b [] b' ps" "length (vmem b) = 4096" "z \<in> set (picture_blinks x 0 ls0 ls1)"
    and "length ls0 \<le> 25" "length ls1 \<le> 25" "\<forall>l \<in> set (ls0 @ ls1). length l \<le> 40"
  shows "alone (lit_blink z) (view b' ps)" "seen (lit_blink z) (vmem b')"
proof -
  let ?ys = "picture_blinks x 0 ls0 ls1"
  have a: "alone z ?ys" using picture_places [of 0 ls0 ls1 x] assms(3-6) by (intro pictures_alone) auto
  have lit: "location (lit_blink y) = location y" for y by (simp add: lit_blink_def)
  show v: "alone (lit_blink z) (view b' ps)"
    using alone_rev [OF alone_map [OF lit a]] assms(1) by (simp add: added_def view_def)
  have b': "blinks_at b' ps" using assms(1) by (simp add: added_def)
  then have "length (vmem b') = 4096" by (simp only: blinks_at_def)
  then have "2 * unat (location z) < 4096" using view_bound [OF b' v] unfolding lit by simp
  then show "seen (lit_blink z) (vmem b')" using added_seen [OF a, of "vmem b"] assms(1,2) by (simp add: added_def)
qed

context os_clock
begin

lemma fish_wait_ok:
  assumes "ok s" "clock (table s) fd" "blinks_at b ps"
  shows "\<exists>s' b'. fish_wait OS fd n s b = Some (s', b') \<and> ok s' \<and> shown s' = shown s \<and>
    table s' = (elapse ^^ n) (table s) \<and> blinks_at b' ps \<and> view b' ps = map (blink_tick ^^ n) (view b ps) \<and>
    (\<forall>x. alone x (view b ps) \<and> seen x (vmem b) \<longrightarrow> seen ((blink_tick ^^ n) x) (vmem b'))"
  using assms
proof (induction n arbitrary: s b)
  case 0
  then show ?case by simp
next
  case (Suc n)
  obtain t where t: "os_read OS fd 4 s = Some (0, [], t)" "ok t" "shown t = shown s" "table t = elapse (table s)"
    using clock_tick [OF Suc.prems(1,2)] by blast
  obtain c where c: "mp1_rtc_tasklet b = Some c" "blinks_at c ps" "view c ps = map blink_tick (view b ps)"
      "vmem c = fold tick_show (view b ps) (vmem b)"
    using tasklet_ticks [OF Suc.prems(3)] by blast
  have "clock (table t) fd" using t(4) Suc.prems(2) by (simp add: clock_elapse)
  then obtain s' b' where R: "fish_wait OS fd n t c = Some (s', b')" "ok s'" "shown s' = shown t"
      "table s' = (elapse ^^ n) (table t)" "blinks_at b' ps" "view b' ps = map (blink_tick ^^ n) (view c ps)" "\<forall>x. alone x (view c ps) \<and> seen x (vmem c) \<longrightarrow> seen ((blink_tick ^^ n) x) (vmem b')"
    using Suc.IH [OF t(2) _ c(2)] by blast
  have "seen ((blink_tick ^^ Suc n) x) (vmem b')" if x: "alone x (view b ps)" "seen x (vmem b)" for x
  proof -
    have "seen (blink_tick x) (vmem c)" unfolding c(4) by (rule seen_tick [OF x view_bound [OF Suc.prems(3) x(1)]])
    moreover have "alone (blink_tick x) (view c ps)" unfolding c(3) by (rule alone_map [OF _ x(1)]) simp
    ultimately show ?thesis using R(7) by (simp add: funpow_swap1)
  qed
  moreover have "view b' ps = map (blink_tick ^^ Suc n) (view b ps)" using R(6) c(3) by (simp add: funpow_swap1)
  moreover have "fish_wait OS fd (Suc n) s b = Some (s', b')" using t(1) c(1) R(1) by simp
  ultimately show ?case using t(3,4) R(2-5) by (auto simp: funpow_swap1)
qed

text \<open>The extra character comes and goes: after 400 ticks the list is that of before, 400 ticks on.\<close>

lemma fish_show_ok:
  assumes "ok s" "clock (table s) fd" "blinks_at b ps" "length ps < NUM_BLINKS"
  shows "\<exists>s' b'. fish_show OS fd y s b = Some (s', b') \<and> ok s' \<and> shown s' = shown s \<and>
    table s' = (elapse ^^ 400) (table s) \<and> blinks_at b' ps \<and> advanced 400 b b' ps"
proof -
  let ?y = "y\<lparr>on_char := 73, off_char := 77, on_length := 7, off_length := 6, location := 6 * 80 + 60\<rparr>"
  obtain s1 b1 where 1: "fish_wait OS fd 100 s b = Some (s1, b1)" "ok s1" "shown s1 = shown s" "table s1 = (elapse ^^ 100) (table s)"
      "blinks_at b1 ps"
      and a1: "advanced 100 b b1 ps"
    using fish_wait_ok [OF assms(1-3), of 100] unfolding advanced_def by blast
  have y: "location ?y \<noteq> 0" "location ?y < 80 * 25" by simp_all
  obtain p b2 where 2: "mp1_ioctl_add ?y b1 = Some (0, b2)" "blinks_at b2 (p # ps)"
      "view b2 (p # ps) = blink_of (?y\<lparr>status := 1, countdown := on_length ?y\<rparr>) # view b1 ps"
      "vmem b2 = (vmem b1)[2 * unat (location ?y) := on_char ?y]"
    by (rule add_in_front [OF 1(5) y assms(4)])
  have l2: "location (blink_array b2 ! p) = 540" using arg_cong [OF 2(3), of "\<lambda>vs. location (hd vs)"] by (simp add: view_Cons)
  have a2: "advanced 0 b1 b2 ps" using 2(3) by (intro advanced_0) (simp_all add: view_Cons 2(4) word_unat_eq_iff)
  have clk: "clock (table s1) fd" using assms(2) 1(4) by (simp add: clock_elapsed)
  obtain s3 b3 where 3: "fish_wait OS fd 100 s1 b2 = Some (s3, b3)" "ok s3" "shown s3 = shown s1" "table s3 = (elapse ^^ 100) (table s1)"
      "blinks_at b3 (p # ps)"
      "view b3 (p # ps) = map (blink_tick ^^ 100) (view b2 (p # ps))" and a3: "advanced 100 b2 b3 ps"
    using fish_wait_ok [OF 1(2) clk 2(2), of 100] advanced_tl [OF _ l2] by blast
  have l3: "location (blink_array b3 ! p) = 540" using view_location [OF 3(6)] l2 by (simp add: view_Cons)
  have l3': "location (blink_array b3 ! p) = ucast ((push_bit 16 40 OR (6 * 80 + 60)) AND (0xFFFF :: u32))" by (simp add: l3)
  obtain r b4 where 4: "mp1_ioctl_sync (push_bit 16 40 OR (6 * 80 + 60)) b3 = Some (r, b4)" "blinks_at b4 (p # ps)" "view b4 ps = view b3 ps"
      "location (blink_array b4 ! p) = 540" "\<forall>l :: u16. l \<noteq> 540 \<longrightarrow> vmem b4 ! (2 * unat l) = vmem b3 ! (2 * unat l)"
    by (rule sync_front [OF 3(5) l3', unfolded l3])
  have clk3: "clock (table s3) fd" using clk 3(4) by (simp add: clock_elapsed)
  obtain s5 b5 where 5: "fish_wait OS fd 100 s3 b4 = Some (s5, b5)" "ok s5" "shown s5 = shown s3" "table s5 = (elapse ^^ 100) (table s3)"
      "blinks_at b5 (p # ps)"
      "view b5 (p # ps) = map (blink_tick ^^ 100) (view b4 (p # ps))" and a5: "advanced 100 b4 b5 ps"
    using fish_wait_ok [OF 3(2) clk3 4(2), of 100] advanced_tl [OF _ 4(4)] by blast
  have l5: "location (blink_array b5 ! p) = 540" using view_location [OF 5(6)] 4(4) by (simp add: view_Cons)
  obtain b6 where 6: "mp1_ioctl_remove (6 * 80 + 60) b5 = Some (0, b6)" "blinks_at b6 ps" "view b6 ps = view b5 ps" "vmem b6 = vmem b5"
    using remove_takes_out [of b5 "[]" p ps 540 "6 * 80 + 60"] 5(5) l5 by auto
  have clk5: "clock (table s5) fd" using clk3 5(4) by (simp add: clock_elapsed)
  obtain s7 b7 where 7: "fish_wait OS fd 100 s5 b6 = Some (s7, b7)" "ok s7" "shown s7 = shown s5" "table s7 = (elapse ^^ 100) (table s5)"
      "blinks_at b7 ps"
      and a7: "advanced 100 b6 b7 ps"
    using fish_wait_ok [OF 5(2) clk5 6(2), of 100] unfolding advanced_def by blast
  note steps = a1 a2 a3 advanced_0 [OF 4(3,5)] a5 advanced_0 [OF 6(3), unfolded 6(4)] a7
  have "advanced (((((100 + 0) + 100) + 0) + 100 + 0) + 100) b b7 ps" by (intro advanced_trans) (rule steps | simp)+
  then have "advanced 400 b b7 ps" by simp
  moreover have "fish_show OS fd y s b = Some (s7, b7)"
    unfolding fish_show_def using 1(1) 2(1) 3(1) 4(1) 5(1) 6(1) 7(1) by simp
  moreover have "table s7 = (elapse ^^ (100 + (100 + (100 + 100)))) (table s)"
    unfolding 7(4) 5(4) 3(4) 1(4) by (simp only: funpow_add comp_apply)
  then have "table s7 = (elapse ^^ 400) (table s)" by simp
  ultimately show ?thesis using 1(3) 3(3) 5(3) 7(2,3,5) by auto
qed

end

end
