(* ===== verification/User_Clock.thy ===== *)
theory User_Clock
  imports User_Kernel Pingpong Fish
begin

text \<open>
  The clock as the programs see it: a descriptor of the real-time clock keeps the laws of \<open>os_clock\<close> on
  this kernel when the interrupt of the clock arrives while a read waits, and the bouncing letter of
  \<open>Pingpong\<close> runs on it.
\<close>

subsection \<open>The clock\<close>

text \<open>
  The interrupt handler of the clock acknowledges each tick by selecting register C and sets the flags. The
  ticks the executing terminal has taken are those acknowledged less the one its flag still holds.
\<close>

definition clock_acks :: "'a hw_scheme \<Rightarrow> nat" where
  "clock_acks s = length (filter (\<lambda>e. e = (INDEX_PORT, RTC_REG_C)) (out_log s))"

definition ticks_taken :: "'a rtc_scheme \<Rightarrow> int" where
  "ticks_taken s = int (clock_acks s) - (if rtc_flags s ! nat (exec_term_id s) = 0 then 0 else 1)"

lemma clock_acks_outb: "clock_acks (outb d p s) = clock_acks s + (if (p, d) = (INDEX_PORT, RTC_REG_C) then 1 else 0)"
  by (simp add: clock_acks_def outb_def)

lemma clock_acks_console: "clock_acks (move_cursor s) = clock_acks s" "clock_acks (cli s) = clock_acks s" "clock_acks (sti s) = clock_acks s"
  by (simp_all add: move_cursor_def Let_def clock_acks_outb) (simp_all add: clock_acks_def cli_def sti_def)

lemma clock_acks_upd:
  fixes c :: "'a console_scheme" and t :: "'b tty_scheme"
  shows "clock_acks (c\<lparr>screen_x := x\<rparr>) = clock_acks c" "clock_acks (c\<lparr>screen_y := y\<rparr>) = clock_acks c"
    "clock_acks (c\<lparr>video_mem := v\<rparr>) = clock_acks c" "clock_acks (t\<lparr>terms := ts\<rparr>) = clock_acks t"
  by (simp_all add: clock_acks_def)

lemma putc_acks: "putc c s = Some s' \<Longrightarrow> clock_acks s' = clock_acks s"
  by (auto simp: putc_def putc_newline_def scroll_def Let_def bind_eq_Some_conv clock_acks_console clock_acks_upd split: if_splits)

lemma tty_putc_acks: "tty_putc c s = Some s' \<Longrightarrow> clock_acks s' = clock_acks s"
  by (auto simp: tty_putc_def non_display_putc_def clock_acks_upd split: if_splits dest: putc_acks on_term_length)

text \<open>Printing does not touch the clock.\<close>

lemma tty_putc_flags: "tty_putc c (s :: 'a rtc_scheme) = Some s' \<Longrightarrow> rtc_flags s' = rtc_flags s"
  by (auto simp: tty_putc_def non_display_putc_def split: if_splits dest!: putc_frame on_term_length elim!: con_frame_elim)

lemma terminal_write_loop_flags:
  "terminal_write_loop buf n k (s :: 'a rtc_scheme) = Some (r, s') \<Longrightarrow> rtc_flags s' = rtc_flags s \<and> clock_acks s' = clock_acks s"
proof (induction buf n k s rule: terminal_write_loop.induct)
  case (1 buf n k s)
  then show ?case
    by (auto simp: terminal_write_loop.simps [of buf n k s] split: if_splits option.splits dest: tty_putc_flags tty_putc_acks)
qed

lemma terminal_write_flags:
  "terminal_write fd buf n (s :: 'a rtc_scheme) = Some (r, s') \<Longrightarrow> rtc_flags s' = rtc_flags s \<and> clock_acks s' = clock_acks s"
  by (auto simp: terminal_write_def Let_def clock_acks_console split: option.splits dest!: terminal_write_loop_flags)
    (simp_all add: cli_def sti_def)


text \<open>A read of the clock takes a tick that has come, or the interrupt that comes next.\<close>

lemma rtc_read_returns:
  assumes "length (rtc_flags s) = 3" "0 \<le> exec_term_id s" "exec_term_id s < 3" "iflag s"
  shows "\<exists>l f. rtc_read [rtc_handler] fd (Some []) 4 s = Some (Rtc_returns 0 (s\<lparr>out_log := l, iflag := True, rtc_flags := f\<rparr>)) \<and> length f = 3 \<and>
    ticks_taken (s\<lparr>out_log := l, iflag := True, rtc_flags := f\<rparr>) = ticks_taken s + 1"
proof -
  obtain v where v: "rd (rtc_flags s) (exec_term_id s) = Some v" using assms(1-3) by (simp add: rd_in)
  have com: "s\<lparr>out_log := l, rtc_flags := f, iflag := True\<rparr> = s\<lparr>out_log := l, iflag := True, rtc_flags := f\<rparr>" for l f
    by (rule rtc.equality) simp_all
  obtain a b c where f: "rtc_flags s = [a, b, c]" using assms(1) by (auto simp: length_Suc_conv numeral_3_eq_3)
  let ?l = "out_log s @ [(INDEX_PORT, RTC_REG_C), (SLAVE_8259_PORT, EOI), (MASTER_8259_PORT, EOI OR 2)]"
  have "rtc_handler s = Some (s\<lparr>out_log := ?l, rtc_flags := [1, 1, 1], iflag := True\<rparr>)"
    by (simp add: f rtc_handler_def wr_def Let_def sti_def cli_def outb_def send_eoi_def)
  moreover have "length (filter (\<lambda>e. e = (INDEX_PORT, RTC_REG_C)) ?l) = Suc (clock_acks s)" by (simp add: clock_acks_def)
  ultimately have three: "\<exists>l. rtc_handler s = Some (s\<lparr>out_log := l, iflag := True, rtc_flags := [1, 1, 1]\<rparr>) \<and>
      length (filter (\<lambda>e. e = (INDEX_PORT, RTC_REG_C)) l) = Suc (clock_acks s)"
    unfolding com [symmetric] by blast
  have e: "nat (exec_term_id s) < 3" using assms(2,3) by linarith
  have one: "rd [1, 1, 1 :: int] (exec_term_id s) = Some 1" using assms(2,3) by (auto simp: rd_def nth_Cons' nat_eq_iff)
  show ?thesis
  proof (cases "v = 0")
    case True
    obtain l where l: "rtc_handler s = Some (s\<lparr>out_log := l, iflag := True, rtc_flags := [1, 1, 1]\<rparr>)"
        "length (filter (\<lambda>e. e = (INDEX_PORT, RTC_REG_C)) l) = Suc (clock_acks s)" using three by blast
    have "rtc_read [rtc_handler] fd (Some []) 4 s = Some (Rtc_returns 0 (s\<lparr>out_log := l, iflag := True, rtc_flags := [1, 1, 1][nat (exec_term_id s) := 0]\<rparr>))"
      using v True l(1) one assms(2,3) by (simp add: rtc_read_def spin.simps wr_in)
    moreover have "rtc_flags s ! nat (exec_term_id s) = 0" using v True by (simp add: rd_Some_iff)
    then have "ticks_taken (s\<lparr>out_log := l, iflag := True, rtc_flags := [1, 1, 1][nat (exec_term_id s) := 0]\<rparr>) = ticks_taken s + 1"
      using l(2) nth_list_update_eq [of "nat (exec_term_id s)" "[1, 1, 1 :: int]" 0] e
      by (simp add: ticks_taken_def del: list_update.simps list_update_code) (simp add: clock_acks_def del: list_update.simps)
    moreover have "length ([1, 1, 1 :: int][nat (exec_term_id s) := 0]) = 3" by (simp only: length_list_update) simp
    ultimately show ?thesis by blast
  next
    case False
    have "rtc_read [rtc_handler] fd (Some []) 4 s = Some (Rtc_returns 0 (s\<lparr>rtc_flags := (rtc_flags s)[nat (exec_term_id s) := 0]\<rparr>))"
      using v False assms(1-3) by (simp add: rtc_read_def spin.simps wr_in)
    moreover have "s\<lparr>rtc_flags := f\<rparr> = s\<lparr>out_log := out_log s, iflag := True, rtc_flags := f\<rparr>" for f using assms(4) by simp
    moreover have "rtc_flags s ! nat (exec_term_id s) \<noteq> 0" using v False by (simp add: rd_Some_iff)
    then have "ticks_taken (s\<lparr>out_log := out_log s, iflag := True, rtc_flags := (rtc_flags s)[nat (exec_term_id s) := 0]\<rparr>) = ticks_taken s + 1"
      using assms(1) e by (simp add: ticks_taken_def) (simp add: clock_acks_def)
    ultimately show ?thesis using assms(1) by (metis length_list_update)
  qed
qed

lemma set_frequency_log:
  "iflag s \<Longrightarrow> \<exists>l. set_frequency junk prev f s = s\<lparr>out_log := l, iflag := True\<rparr> \<and>
     length (filter (\<lambda>e. e = (INDEX_PORT, RTC_REG_C)) l) = clock_acks s"
proof (cases "frequency_rate junk f")
  case None
  moreover assume "iflag s"
  ultimately show ?thesis by (intro exI [of _ "out_log s"]) (simp add: set_frequency_def clock_acks_def)
next
  case (Some r)
  assume "iflag s"
  with Some show ?thesis by (auto simp: set_frequency_def Let_def outb_def cli_def sti_def clock_acks_def)
qed

lemma clock_upd_user:
  "user_ok E s \<Longrightarrow> user_ok E (s\<lparr>out_log := l, iflag := True, rtc_flags := f\<rparr>)" "user_screen (s\<lparr>out_log := l, iflag := True, rtc_flags := f\<rparr>) = user_screen s"
  "user_table (s\<lparr>out_log := l, iflag := True, rtc_flags := f\<rparr>) = user_table s"
  "kept s (s\<lparr>out_log := l, iflag := True, rtc_flags := f\<rparr>)"
proof -
  have v: "fd_view (s\<lparr>out_log := l, iflag := True, rtc_flags := f\<rparr>) = fd_view s"
    by (simp add: fd_view_def running_def get_current_executing_pcb_def fun_eq_iff)
  have "fd_ok (s\<lparr>out_log := l, iflag := True, rtc_flags := f\<rparr>) = fd_ok s"
    "tty_ok (s\<lparr>out_log := l, iflag := True, rtc_flags := f\<rparr>) = tty_ok s"
    by (simp_all add: fd_ok_def proc_inv_def proc_chains_def tty_ids_ok_def tty_ok_def tty_screen_def con_view_def)
  then show "user_ok E s \<Longrightarrow> user_ok E (s\<lparr>out_log := l, iflag := True, rtc_flags := f\<rparr>)"
    by (simp add: user_ok_def v)
  show "user_screen (s\<lparr>out_log := l, iflag := True, rtc_flags := f\<rparr>) = user_screen s"
    by (simp add: user_screen_def tty_screen_def con_view_def)
  show "user_table (s\<lparr>out_log := l, iflag := True, rtc_flags := f\<rparr>) = user_table s"
    by (simp add: user_table_def v)
  show "kept s (s\<lparr>out_log := l, iflag := True, rtc_flags := f\<rparr>)"
    by (simp add: kept_def running_def get_current_executing_pcb_def)
qed

definition user_clock :: "env \<Rightarrow> 'a kstate_scheme \<Rightarrow> 'a kstate_scheme \<Rightarrow> bool" where
  "user_clock E s0 s \<longleftrightarrow> user_in E s0 s \<and> length (rtc_flags s) = 3"

lemma user_clock_step:
  "user_clock E s0 s \<Longrightarrow> user_ok E s' \<Longrightarrow> kept s s' \<Longrightarrow> length (rtc_flags s') = 3 \<Longrightarrow> user_clock E s0 s'"
  using user_in_step by (auto simp: user_clock_def)

definition clock_fd :: "fd_files \<Rightarrow> int \<Rightarrow> bool" where
  "clock_fd = (\<lambda>(v, m, f) fd. 0 \<le> fd \<and> (case v (nat fd) of Some (Some rtc_jump_table, _) \<Rightarrow> True | _ \<Rightarrow> False))"

lemma clock_fd_entry:
  assumes "user_ok E s" "clock_fd (user_table s) fd"
  obtains e where "\<not> fd < 0" "\<not> int FD_ARRAY_LEN \<le> fd" "rd (fd_array (pcbs s (running s))) fd = Some e" "fd_active e"
    "fo_jump_table_ptr e = Some rtc_jump_table"
proof -
  obtain ino pos where v: "fd_view s (nat fd) = Some (Some rtc_jump_table, ino, pos)" and fd: "0 \<le> fd"
    using assms(2) by (auto simp: clock_fd_def user_table_def split: option.splits fo_jump_table_t.splits)
  from fd_view_entry [OF user_okD(2) [OF assms(1)] v] that show ?thesis using fd by (metis int_nat_eq linorder_not_less of_nat_less_iff)
qed

lemma kernel_clock_tick:
  assumes "user_clock E s0 s" "clock_fd (user_table s) fd"
  shows "\<exists>s'. os_read (kernel_os E L [rtc_handler] ubuf) fd 4 s = Some (0, [], s') \<and> user_clock E s0 s' \<and>
    user_screen s' = user_screen s \<and> user_table s' = user_table s \<and> ticks_taken s' = ticks_taken s + 1"
proof -
  have u: "user_ok E s" "length (rtc_flags s) = 3" using assms(1) user_in_ok by (auto simp: user_clock_def)
  note ok = user_okD [OF u(1)]
  have id: "0 \<le> exec_term_id s" "exec_term_id s < 3" using ok(3) by (auto simp: tty_ok_def tty_ids_ok_def)
  obtain l f where r: "rtc_read [rtc_handler] fd (Some []) 4 s = Some (Rtc_returns 0 (s\<lparr>out_log := l, iflag := True, rtc_flags := f\<rparr>))" "length f = 3"
      "ticks_taken (s\<lparr>out_log := l, iflag := True, rtc_flags := f\<rparr>) = ticks_taken s + 1"
    using rtc_read_returns [OF u(2) id ok(4)] by blast
  obtain e where "\<not> fd < 0" "\<not> int FD_ARRAY_LEN \<le> fd" "rd (fd_array (pcbs s (running s))) fd = Some e" "fd_active e"
    "fo_jump_table_ptr e = Some rtc_jump_table"
    by (rule clock_fd_entry [OF u(1) assms(2)])
  then have "os_read (kernel_os E L [rtc_handler] ubuf) fd 4 s = Some (0, [], s\<lparr>out_log := l, iflag := True, rtc_flags := f\<rparr>)"
    using r(1) ok(4) running_pcb [OF ok(2)] by (simp add: kernel_os_def gate_id sys_read_def)
  moreover have "user_clock E s0 (s\<lparr>out_log := l, iflag := True, rtc_flags := f\<rparr>)"
    using user_clock_step [OF assms(1) clock_upd_user(1) [OF u(1)] clock_upd_user(4)] r(2) by simp
  ultimately show ?thesis using r(3) by (auto simp: clock_upd_user(2,3))
qed

lemma kernel_clock_rate:
  assumes "user_clock E s0 s" "clock_fd (user_table s) fd" "length bs = 4"
  shows "\<exists>s'. os_write (kernel_os E L irqs ubuf) fd bs 4 s = Some (4, s') \<and> user_clock E s0 s' \<and>
    user_screen s' = user_screen s \<and> user_table s' = user_table s \<and> ticks_taken s' = ticks_taken s"
proof -
  have u: "user_ok E s" "length (rtc_flags s) = 3" using assms(1) user_in_ok by (auto simp: user_clock_def)
  note ok = user_okD [OF u(1)]
  obtain e where e: "\<not> fd < 0" "\<not> int FD_ARRAY_LEN \<le> fd" "rd (fd_array (pcbs s (running s))) fd = Some e" "fd_active e"
    "fo_jump_table_ptr e = Some rtc_jump_table"
    by (rule clock_fd_entry [OF u(1) assms(2)])
  obtain fr where fr: "buf_int32 bs = Some fr" using assms(3) by (simp add: buf_int32_def rd_def)
  obtain l where l: "set_frequency (uninit_rate E) (rtc_reg_a E) fr s = s\<lparr>out_log := l, iflag := True\<rparr>"
      "length (filter (\<lambda>e. e = (INDEX_PORT, RTC_REG_C)) l) = clock_acks s"
    using set_frequency_log [OF ok(4)] by blast
  then have "set_frequency (uninit_rate E) (rtc_reg_a E) fr s = s\<lparr>out_log := l, iflag := True, rtc_flags := rtc_flags s\<rparr>" by simp
  then have "os_write (kernel_os E L irqs ubuf) fd bs 4 s = Some (4, s\<lparr>out_log := l, iflag := True, rtc_flags := rtc_flags s\<rparr>)"
    using e fr ok(4) running_pcb [OF ok(2)] by (simp add: kernel_os_def gate_id through_gate_def sys_write_def rtc_write_def)
  moreover have "user_clock E s0 (s\<lparr>out_log := l, iflag := True, rtc_flags := rtc_flags s\<rparr>)"
    by (rule user_clock_step [OF assms(1) clock_upd_user(1) [OF u(1)] clock_upd_user(4)]) (simp add: u(2))
  moreover have "ticks_taken (s\<lparr>out_log := l, iflag := True, rtc_flags := rtc_flags s\<rparr>) = ticks_taken s"
    using l(2) by (simp add: ticks_taken_def) (simp add: clock_acks_def)
  moreover note clock_upd_user(2,3) [where s = s and l = l and f = "rtc_flags s"]
  ultimately show ?thesis by blast
qed

lemma kernel_write_flags:
  assumes "user_ok E s" "os_write (kernel_os E L irqs ubuf) 1 bs (int n) s = Some (r, s')"
  shows "rtc_flags s' = rtc_flags s \<and> ticks_taken s' = ticks_taken s"
proof -
  note ok = user_okD [OF assms(1)]
  obtain ino pos where v: "fd_view s 1 = Some (Some stdout_jump_table, ino, pos)" using assms(1) by (auto simp: user_ok_def)
  obtain e where "rd (fd_array (pcbs s (running s))) 1 = Some e" "fd_active e" "fo_jump_table_ptr e = Some stdout_jump_table"
    using fd_view_entry [OF ok(2) v] by (metis of_nat_1)
  then obtain t where t: "terminal_write 1 (Some bs) (int n) s = Some (r, t)" "s' = gate_out t"
    using assms(2) running_pcb [OF ok(2)] ok(4)
    by (auto simp: kernel_os_def through_gate_def gate_id sys_write_def bind_eq_Some_conv split: if_splits)
  have "exec_term_id t = exec_term_id s" using same_core_terminal_write [OF t(1)] by (simp add: same_core_def)
  moreover have "clock_acks (gate_out t) = clock_acks t" by (simp add: gate_out_def clock_acks_console)
  ultimately show ?thesis
    using terminal_write_flags [OF t(1)] unfolding t(2) by (simp add: ticks_taken_def) (simp add: gate_out_def cli_def sti_def)
qed

text \<open>The descriptors together with the ticks that were taken.\<close>

definition clock_table :: "'a kstate_scheme \<Rightarrow> fd_files \<times> int" where
  "clock_table s = (user_table s, ticks_taken s)"

interpretation kclock: os_clock "kernel_os E L [rtc_handler] ubuf" "user_clock E s0" user_screen scr_putc clock_table
    "\<lambda>T. clock_fd (fst T)" "apsnd (\<lambda>n. n + 1)"
  for E L ubuf s0
proof (unfold_locales, goal_cases)
  case (1 s n bs)
  then have u: "user_ok E s" "length (rtc_flags s) = 3" using user_in_ok by (auto simp: user_clock_def)
  from kernel_write_out [OF u(1) 1(2), of L "[rtc_handler]" ubuf] obtain s' where
    s': "os_write (kernel_os E L [rtc_handler] ubuf) 1 bs (int n) s = Some (int n, s')" "user_ok E s'"
      "user_screen s' = fold scr_putc (take n bs) (user_screen s)" "user_table s' = user_table s" "kept s s'" by blast
  from kernel_write_flags [OF u(1) s'(1)] s' user_clock_step [OF 1(1) s'(2,5)] u(2) show ?case by (simp add: clock_table_def)
next
  case (2 s fd)
  then show ?case using kernel_clock_tick [of E s0 s fd L ubuf] by (auto simp: clock_table_def)
next
  case (4 s fd bs)
  then show ?case using kernel_clock_rate [of E s0 s fd bs L "[rtc_handler]" ubuf] by (auto simp: clock_table_def)
qed simp

lemma elapsed: "(apsnd (\<lambda>n. n + 1) ^^ k) (T, n) = (T, n + int k)"
  by (induction k) simp_all

lemma open_clock:
  assumes "user_clock E s0 s" "lookup_name s (lit ''rtc'') = Some j" "free_fd s = Some i"
    and "type_entry (dentry_at (fs_mem s) (fs_sections s) j (uninit_dentry E)) = Some (rtc_jump_table, ino)"
  obtains t where "os_open (kernel_os E L irqs ubuf) (lit ''rtc'') s = Some (int i, t)" "user_clock E s0 t"
    "user_screen t = user_screen s" "ticks_taken t = ticks_taken s" "user_table t = ((fd_view s)(i \<mapsto> (Some rtc_jump_table, ino, 0)), fs_mem s, fs_sections s)"
    "clock_fd (user_table t) (int i)"
proof -
  have u: "user_ok E s" "length (rtc_flags s) = 3" "0 \<in> set (lit ''rtc'')" using assms(1) user_in_ok by (auto simp: user_clock_def lit_def)
  obtain t where t: "os_open (kernel_os E L irqs ubuf) (lit ''rtc'') s = Some (int i, t)" "user_ok E t"
      "user_screen t = user_screen s" "user_table t = ((fd_view s)(i \<mapsto> (Some rtc_jump_table, ino, 0)), fs_mem s, fs_sections s)"
      "only_pcbs s t" "kept s t"
    by (rule kernel_open [OF u(1,3) assms(2-4)])
  have f: "rtc_flags t = rtc_flags s" "ticks_taken t = ticks_taken s"
    using t(5) by (auto simp: only_pcbs_def ticks_taken_def clock_acks_def)
  then have "user_clock E s0 t" using u(2) user_clock_step [OF assms(1) t(2,6)] by simp
  moreover have "clock_fd (user_table t) (int i)" unfolding t(4) by (simp add: clock_fd_def)
  ultimately show ?thesis using that t f(2) by blast
qed

text \<open>
  C18: The bouncing letter on this kernel, after any number of rounds: each round has printed the court
  with the letter at every position from the left wall to the right one and back, 152 lines, and the
  letters are those of the alphabet in order and over again; the program has taken 152 ticks of the clock
  in each round, one for each line (the ticks that the handler of the clock has acknowledged, less the
  one that still waits in the flag of the terminal).
\<close>

theorem pingpong_bounces:
  assumes "user_ok E s" "length (rtc_flags s) = 3" "lookup_name s (lit ''rtc'') = Some j" "free_fd s = Some i"
    and "type_entry (dentry_at (fs_mem s) (fs_sections s) j (uninit_dentry E)) = Some (rtc_jump_table, ino)"
    and "length buf = 81"
  shows "\<exists>s'. pingpong_main (kernel_os E L [rtc_handler] ubuf) n buf s = Some s' \<and> user_ok E s' \<and>
    user_screen s' = fold scr_putc (concat (map (\<lambda>k. round_text (letter k)) [0..<n])) (user_screen s) \<and>
    ticks_taken s' = ticks_taken s + 152 * int n"
proof -
  let ?os = "kernel_os E L [rtc_handler] ubuf"
  have c: "user_clock E s s" using assms(1,2) by (simp add: user_clock_def user_in_refl)
  obtain b where b: "pingpong_walls buf = Some b" "world b" using walls_world [OF assms(6)] by blast
  obtain t where t: "os_open ?os (lit ''rtc'') s = Some (int i, t)" "user_clock E s t" "user_screen t = user_screen s"
      "clock_fd (user_table t) (int i)" "ticks_taken t = ticks_taken s"
    by (rule open_clock [OF c assms(3-5)])
  obtain u where u: "os_write ?os (int i) (le32 32) 4 t = Some (4, u)" "user_clock E s u" "user_screen u = user_screen t"
      "clock_table u = clock_table t"
    using kclock.clock_rate [OF t(2), of "int i" "le32 32" L ubuf] t(4) by (auto simp: le32_def clock_table_def)
  obtain c' b' v where v: "pingpong_rounds ?os (int i) n (letter 0) b u = Some (c', b', v)"
      "kclock.ticked E s (152 * n) (concat (map (\<lambda>k. round_text (letter k)) [0..<n])) u v"
    using kclock.rounds_print [OF u(2) _ b(2), of "int i" L ubuf n 0] t(4) u(4) by (auto simp: clock_table_def)
  have "letter 0 = 65" by (simp add: letter_def)
  then have "pingpong_main ?os n buf s = Some v"
    using b(1) t(1) u(1) v(1) by (simp add: pingpong_main_def)
  moreover have "ticks_taken v = ticks_taken s + 152 * int n"
    using v(2) u(4) t(5) by (simp add: kclock.ticked_def clock_table_def elapsed)
  ultimately show ?thesis using v(2) u(3) t(3) user_in_ok by (auto simp: kclock.ticked_def user_clock_def)
qed

end
