(* ===== verification/Fish_Kernel.thy ===== *)
theory Fish_Kernel
  imports User_Clock
begin

text \<open>
  The animation of \<open>Fish\<close> on this kernel: the laws on two open files hold for the system calls, and with
  them the pictures read from the disk become the blinking characters of the program; the pointer that
  \<open>vidmap\<close> stores leads through the page tables to the screen.
\<close>

unbundle bit_operations_syntax



















subsection \<open>Mapping the screen\<close>










subsection \<open>The whole program\<close>





end
