(* ===== verification/Fish_Sample.thy ===== *)
theory Fish_Sample
  imports User_Sample Fish_Kernel
begin

text \<open>
  The properties of the animation applied: an empty list of blinking characters, a list of one, and the
  machine of \<open>User_Sample\<close> with a disk that holds the clock and two small pictures.
\<close>

definition no_blinks :: blinks where
  "no_blinks = \<lparr>blink_array = replicate NUM_BLINKS free_blink, mp1_list_head = None, vmem = replicate 4096 0\<rparr>"

lemma no_blinks_at: "blinks_at no_blinks []"
  by (simp add: no_blinks_def blinks_at_def free_blink_def)

definition eye :: mp1_blink_struct where
  "eye = free_blink\<lparr>location := 81, on_char := 79, off_char := 45, on_length := 2, off_length := 1\<rparr>"

theorem add_then_remove_witness:
  "\<exists>p b1 b2. mp1_ioctl_add eye no_blinks = Some (0, b1) \<and> view b1 [p] = [eye\<lparr>status := 1, countdown := 2\<rparr>] \<and>
     mp1_ioctl_remove 81 b1 = Some (0, b2) \<and> blinks_at b2 []"
proof -
  have e: "location eye \<noteq> 0" "location eye < 80 * 25" "length ([] :: nat list) < NUM_BLINKS" "ucast (location eye) = (81 :: u32)"
    "blink_of (eye\<lparr>status := 1, countdown := on_length eye\<rparr>) = eye\<lparr>status := 1, countdown := 2\<rparr>"
    by (simp_all add: eye_def free_blink_def blink_of_def)
  from add_then_remove [OF no_blinks_at e(1-3)] show ?thesis by (auto simp: e(4,5) view_def)
qed

definition one_blink :: blinks where
  "one_blink = no_blinks\<lparr>blink_array := (replicate NUM_BLINKS free_blink)[0 := eye\<lparr>status := 1, countdown := 1\<rparr>], mp1_list_head := Some 0\<rparr>"

lemma one_blink_at: "blinks_at one_blink [0]"
  by (simp add: one_blink_def no_blinks_def blinks_at_def free_blink_def eye_def nth_list_update)

theorem tasklet_advances_all_witness:
  "blinks_at one_blink [0] \<and> (\<exists>b'. mp1_rtc_tasklet one_blink = Some b' \<and> view b' [0] = [eye\<lparr>status := 0, countdown := 1\<rparr>] \<and>
     vmem b' = (replicate 4096 0)[162 := 45])"
proof -
  have v: "view one_blink [0] = [eye\<lparr>status := 1, countdown := 1\<rparr>]" "vmem one_blink = replicate 4096 0"
    by (simp_all add: view_def one_blink_def no_blinks_def blink_of_def eye_def free_blink_def)
  have t: "blink_tick (eye\<lparr>status := 1, countdown := 1\<rparr>) = eye\<lparr>status := 0, countdown := 1\<rparr>"
    "tick_show (eye\<lparr>status := 1, countdown := 1\<rparr>) w = w[162 := 45]" for w
    by (simp_all add: blink_tick_def tick_show_def phase_over_def eye_def free_blink_def flip_bit_eq_xor)
  obtain b' where b': "mp1_rtc_tasklet one_blink = Some b'" "view b' [0] = map blink_tick (view one_blink [0])"
      "vmem b' = fold tick_show (view one_blink [0]) (vmem one_blink)"
    using tasklet_advances_all [OF one_blink_at] by blast
  have "view b' [0] = [eye\<lparr>status := 0, countdown := 1\<rparr>]" "vmem b' = (replicate 4096 0)[162 := 45]"
    using b'(2,3) v t by (simp_all only: list.map fold_simps)
  then show ?thesis using b'(1) one_blink_at by blast
qed

subsection \<open>A disk with the clock and two pictures\<close>

definition fish_disk :: mem where
  "fish_disk = (\<lambda>_. 0)
     (0 := 3, 4 := 2, 8 := 2,
      64 := 114, 65 := 116, 66 := 99,
      128 := 102, 129 := 114, 130 := 97, 131 := 109, 132 := 101, 133 := 48, 134 := 46, 135 := 116, 136 := 120, 137 := 116, 160 := 2,
      192 := 102, 193 := 114, 194 := 97, 195 := 109, 196 := 101, 197 := 49, 198 := 46, 199 := 116, 200 := 120, 201 := 116, 224 := 2,
      228 := 1,
      4096 := 3, 8192 := 2, 8196 := 1,
      12288 := 60, 12289 := 111, 12290 := 10, 16384 := 32, 16385 := 120)"

definition fish_fs :: fs where
  "fish_fs = init_fs fish_disk 0"

lemma fish_fs_eq: "fish_fs = \<lparr>boot_block = 0, dentries = 64, inodes = 4096, data_blocks = 12288\<rparr>"
  by (simp add: fish_fs_def init_fs_def ld32_def fish_disk_def)




lemma fish_entries:
  "entry_name fish_disk fish_fs 0 = bytes ''rtc''" "entry_name fish_disk fish_fs 1 = bytes ''frame0.txt''"
  "entry_name fish_disk fish_fs 2 = bytes ''frame1.txt''"
proof -
  have "mem_bytes fish_disk 64 64 = bytes ''rtc'' @ 0 # mem_bytes fish_disk 68 60"
      "mem_bytes fish_disk 128 64 = bytes ''frame0.txt'' @ 0 # mem_bytes fish_disk 139 53"
      "mem_bytes fish_disk 192 64 = bytes ''frame1.txt'' @ 0 # mem_bytes fish_disk 203 53"
    by (simp_all add: mem_bytes_Suc [of _ _ 63, simplified] mem_bytes_Suc [of _ _ 62, simplified] mem_bytes_Suc [of _ _ 61, simplified]
        mem_bytes_Suc [of _ _ 60, simplified] mem_bytes_Suc [of _ _ 59, simplified] mem_bytes_Suc [of _ _ 58, simplified]
        mem_bytes_Suc [of _ _ 57, simplified] mem_bytes_Suc [of _ _ 56, simplified] mem_bytes_Suc [of _ _ 55, simplified]
        mem_bytes_Suc [of _ _ 54, simplified] mem_bytes_Suc [of _ _ 53, simplified] bytes_def of_char_def)
      (simp_all add: fish_disk_def)
  then show "entry_name fish_disk fish_fs 0 = bytes ''rtc''" "entry_name fish_disk fish_fs 1 = bytes ''frame0.txt''"
      "entry_name fish_disk fish_fs 2 = bytes ''frame1.txt''"
    by (simp_all add: entry_name_def dentry_addr_def fish_fs_eq cstr_simps bytes_def of_char_def)
qed

lemma fish_types:
  "type_entry (dentry_at fish_disk fish_fs 0 d) = Some (rtc_jump_table, 0)"
  "type_entry (dentry_at fish_disk fish_fs 1 d) = Some (file_fo_jump_table, 0)"
  "type_entry (dentry_at fish_disk fish_fs 2 d) = Some (file_fo_jump_table, 1)"
  by (simp_all add: type_entry_def dentry_at_def ld32_def dentry_addr_def fish_fs_eq fish_disk_def)

definition fish_sample :: kstate where
  "fish_sample = user_sample\<lparr>fs_mem := fish_disk, fs_sections := fish_fs\<rparr>"

lemma fish_lookup:
  "lookup_name fish_sample (lit ''rtc'') = Some 0" "lookup_name fish_sample (lit ''frame0.txt'') = Some 1"
  "lookup_name fish_sample (lit ''frame1.txt'') = Some 2"
proof -
  have "[0..<63] = 0 # 1 # 2 # [3..<63 :: nat]" by (simp add: upt_conv_Cons del: upt_rec_numeral)
  then show "lookup_name fish_sample (lit ''rtc'') = Some 0" "lookup_name fish_sample (lit ''frame0.txt'') = Some 1"
      "lookup_name fish_sample (lit ''frame1.txt'') = Some 2"
    by (simp_all add: lookup_name_def fish_sample_def fish_entries [unfolded One_nat_def] lit_def bytes_def of_char_def cstr_simps del: upt_rec_numeral)
qed

lemma fish_sample_view: "running fish_sample = 0" "fd_view fish_sample = fd_view sample"
proof -
  show "running fish_sample = 0"
    using user_sample_running by (simp add: fish_sample_def running_def get_current_executing_pcb_def)
  then have "fd_view fish_sample = fd_view user_sample"
    by (simp add: fun_eq_iff fd_view_def user_sample_running fish_sample_def)
  then show "fd_view fish_sample = fd_view sample" by (simp add: user_sample_view)
qed

lemma fish_sample_ok: "user_ok sample_env fish_sample"
proof -
  have "fd_ok fish_sample = fd_ok user_sample" "tty_ok fish_sample = tty_ok user_sample" "iflag fish_sample = iflag user_sample"
    by (simp_all add: fish_sample_def fd_ok_def proc_inv_def proc_chains_def tty_ids_ok_def tty_ok_def tty_screen_def con_view_def)
  then show ?thesis using user_sample_ok by (simp add: user_ok_def fish_sample_view user_sample_view)
qed

lemma fish_sample_pages:
  "length (rtc_flags fish_sample) = 3" "length (page_directory fish_sample) = 1024" "length (vid_page_table_0 fish_sample) = 1024"
  "size_bit (page_directory fish_sample ! 32) = 1" "program_frame sample_layout fish_sample 2"
proof -
  have l: "length (page_directory user_base) = 1024" by (simp add: user_base_def sample_sel)
  from create_user_4mb_page_eq [OF l, of 2 32] user_sample_page obtain g
    where e: "user_sample = user_base\<lparr>page_directory := (page_directory user_base)[32 := fill_entry (push_bit 10 2) 0 1 1 g]\<rparr>" by auto
  show "length (rtc_flags fish_sample) = 3" "length (page_directory fish_sample) = 1024" "length (vid_page_table_0 fish_sample) = 1024"
      "size_bit (page_directory fish_sample ! 32) = 1"
    unfolding fish_sample_def e using l by (simp_all add: user_base_def sample_sel fill_entry_fields)
  show "program_frame sample_layout fish_sample 2"
    using user_sample_frame translate_cong [of fish_sample user_sample sample_layout] by (simp add: program_frame_def fish_sample_def)
qed


subsection \<open>The programs on it\<close>

theorem pingpong_bounces_witness:
  "\<exists>s'. pingpong_main (kernel_os sample_env sample_layout [rtc_handler] 0) 2 (replicate 81 0) fish_sample = Some s' \<and>
     user_screen s' = fold scr_putc (round_text 65 @ round_text 66) (user_screen fish_sample) \<and>
     ticks_taken s' = ticks_taken fish_sample + 304"
proof -
  have "free_fd fish_sample = Some 2" using sample_free_fd by (simp add: free_fd_def fish_sample_view)
  moreover have "type_entry (dentry_at (fs_mem fish_sample) (fs_sections fish_sample) 0 (uninit_dentry sample_env)) = Some (rtc_jump_table, 0)"
    using fish_types(1) by (simp add: fish_sample_def)
  moreover have "concat (map (\<lambda>k. round_text (letter k)) [0..<2]) = round_text 65 @ round_text 66"
    by (simp add: upt_rec letter_def)
  ultimately show ?thesis
    using pingpong_bounces [OF fish_sample_ok fish_sample_pages(1) fish_lookup(1), of 2 0 "replicate 81 0" sample_layout 0 2] by auto
qed


end
