(* ===== verification/Emulate.thy ===== *)
theory Emulate
  imports User_OS Lib_Parse
begin

text \<open>
  The emulation of the system calls on Linux, \<open>src/syscalls/ece391emulate.c\<close>, with which the user
  programs can be run outside the kernel: the command line is cut into words for \<open>execv\<close> and put together
  again by \<open>getargs\<close>, and the directory is read with \<open>readdir\<close>. What the code calls of Linux and of the C
  library is a parameter, the record \<open>linux\<close> over a state of its own.
\<close>

subsection \<open>Linux\<close>

text \<open>The status \<open>wait\<close> gives of a program that ended.\<close>

datatype wait_status = Exited u8 | Killed nat

text \<open>
  The bare traps give the register \<open>eax\<close> as a signed number. \<open>lx_execv\<close> is a child that calls \<open>execv\<close>,
  waited for: no status if \<open>execv\<close> came back. \<open>lx_opendir\<close> opens the current directory, \<open>lx_open_null\<close> and
  \<open>lx_open_mem\<close> the two devices, \<open>lx_mmap\<close> maps the low memory.
\<close>

record 'w linux =
  lx_read :: "int \<Rightarrow> int \<Rightarrow> 'w \<Rightarrow> (int \<times> u8 list \<times> 'w) option"
  lx_write :: "int \<Rightarrow> u8 list \<Rightarrow> int \<Rightarrow> 'w \<Rightarrow> (int \<times> 'w) option"
  lx_open :: "u8 list \<Rightarrow> 'w \<Rightarrow> (int \<times> 'w) option"
  lx_close :: "int \<Rightarrow> 'w \<Rightarrow> (int \<times> 'w) option"
  lx_execv :: "u8 list \<Rightarrow> u8 list list \<Rightarrow> 'w \<Rightarrow> (wait_status option \<times> 'w) option"
  lx_opendir :: "'w \<Rightarrow> nat option \<times> 'w"
  lx_readdir :: "nat \<Rightarrow> 'w \<Rightarrow> u8 list option \<times> 'w"
  lx_closedir :: "nat \<Rightarrow> 'w \<Rightarrow> 'w"
  lx_open_null :: "'w \<Rightarrow> int \<times> 'w"
  lx_open_mem :: "'w \<Rightarrow> int \<times> 'w"
  lx_mmap :: "int \<Rightarrow> 'w \<Rightarrow> u32 option \<times> 'w"
  lx_perror :: "string \<Rightarrow> 'w \<Rightarrow> 'w"

text \<open>
  The static variables of the emulation, the arguments the program was started with (the stack at
  \<open>start_esp\<close>) and the pointer \<open>vidmap\<close> stores for its caller.
\<close>

record 'w emu =
  dir_fd :: int
  dir :: "nat option"
  mem_fd :: int
  argv :: "u8 list list"
  screen_start :: u32
  linux_state :: 'w

subsection \<open>The traps\<close>





subsection \<open>execute\<close>

text \<open>The scan to the end of a word and over spaces, and the loop over the arguments; a pointer is an index of \<open>buf\<close>.\<close>

function scan_end :: "u8 list \<Rightarrow> nat \<Rightarrow> nat option" where
  "scan_end buf i = do {
     c \<leftarrow> rd buf (int i);
     if c \<noteq> 0 \<and> c \<noteq> 32 \<and> c \<noteq> 10 then scan_end buf (Suc i) else Some i
   }"
  by pat_completeness auto
termination
  by (relation "measure (\<lambda>(buf, i). length buf - i)") (auto simp: rd_Some_iff)

function scan_spaces :: "u8 list \<Rightarrow> nat \<Rightarrow> nat option" where
  "scan_spaces buf i = do {
     c \<leftarrow> rd buf (int i);
     if c = 32 then scan_spaces buf (Suc i) else Some i
   }"
  by pat_completeness auto
termination
  by (relation "measure (\<lambda>(buf, i). length buf - i)") (auto simp: rd_Some_iff)

declare scan_end.simps [simp del] scan_spaces.simps [simp del]

partial_function (option) scan_args :: "u8 list \<Rightarrow> nat \<Rightarrow> nat list \<Rightarrow> (u8 list \<times> nat list) option" where
  "scan_args buf i args = do {
     i \<leftarrow> scan_spaces buf i;
     c \<leftarrow> rd buf (int i);
     if c = 0 \<or> c = 10 then do {
       buf \<leftarrow> wr buf (int i) 0;
       Some (buf, args)
     }
     else if 1024 \<le> length args then None
     else do {
       j \<leftarrow> scan_end buf i;
       d \<leftarrow> rd buf (int j);
       if d \<noteq> 0 then do {
         buf \<leftarrow> wr buf (int j) 0;
         scan_args buf (Suc j) (args @ [i])
       }
       else scan_args buf j (args @ [i])
     }
   }"

text \<open>The value of a program that ended; one whose \<open>execv\<close> failed has killed itself with signal 9.\<close>

definition status_value :: "wait_status option \<Rightarrow> int" where
  "status_value st =
     (case st of
        Some (Exited v) \<Rightarrow> uint v
      | Some (Killed sg) \<Rightarrow> if 9 = sg then - 1 else 256
      | None \<Rightarrow> - 1)"

definition emu_execute :: "'w linux \<Rightarrow> u8 list \<Rightarrow> u8 list \<Rightarrow> 'w emu \<Rightarrow> (int \<times> 'w emu) option" where
  "emu_execute X buf command s = do {
     n \<leftarrow> ece391_strlen command;
     if 1023 < n then Some (- 1, s)
     else do {
       buf \<leftarrow> wr buf 0 46;
       buf \<leftarrow> wr buf 1 47;
       buf \<leftarrow> put_bytes buf 2 (take (Suc n) command);
       scan \<leftarrow> scan_end buf 2;
       c \<leftarrow> rd buf (int scan);
       (buf, args) \<leftarrow> (if 0 \<noteq> c then do { buf \<leftarrow> wr buf (int scan) 0; scan_args buf (Suc scan) [0] } else Some (buf, [0]));
       if 1024 \<le> length args then None
       else do {
         (st, w) \<leftarrow> lx_execv X (cstr buf) (map (\<lambda>i. cstr (drop i buf)) args) (linux_state s);
         Some (status_value st, s\<lparr>linux_state := w\<rparr>)
       }
     }
   }"

subsection \<open>getargs\<close>

text \<open>\<open>strcpy\<close> stores the string with its NUL.\<close>

fun join_args :: "u8 list list \<Rightarrow> u8 list \<Rightarrow> nat \<Rightarrow> int \<Rightarrow> (int \<times> u8 list) option" where
  "join_args [] buf p nbytes =
     (if nbytes < 1 then Some (- 1, buf) else do { buf \<leftarrow> wr buf (int p) 0; Some (0, buf) })"
| "join_args (a # as) buf p nbytes =
     (if nbytes < int (length a) then Some (- 1, buf)
      else do {
        buf \<leftarrow> put_bytes buf p (a @ [0]);
        let p = p + length a;
        let nbytes = nbytes - int (length a);
        if as = [] then join_args [] buf p nbytes
        else if nbytes < 1 then Some (- 1, buf)
        else do {
          buf \<leftarrow> wr buf (int p) 32;
          join_args as buf (Suc p) (nbytes - 1)
        }
      })"

definition emu_getargs :: "u8 list \<Rightarrow> int \<Rightarrow> 'w emu \<Rightarrow> (int \<times> u8 list \<times> 'w emu) option" where
  "emu_getargs buf nbytes s = do { (r, buf) \<leftarrow> join_args (tl (argv s)) buf 0 nbytes; Some (r, buf, s) }"

subsection \<open>Files and the directory\<close>










subsection \<open>The words of a command\<close>

lemma rd_middle: "rd (pre @ c # t) (int (length pre)) = Some c"
  by (simp add: rd_nat)

lemma wr_middle: "wr (pre @ c # t) (int (length pre)) d = Some (pre @ d # t)"
  by (simp add: wr_nat)

lemma scan_end_ok:
  "\<forall>c \<in> set w. c \<noteq> 0 \<and> c \<noteq> 32 \<and> c \<noteq> 10 \<Longrightarrow> e \<in> {0, 32, 10} \<Longrightarrow>
     scan_end (pre @ w @ e # t) (length pre) = Some (length pre + length w)"
proof (induction w arbitrary: pre)
  case Nil
  then show ?case by (subst scan_end.simps) (auto simp: rd_middle)
next
  case (Cons c w)
  have "scan_end ((pre @ [c]) @ w @ e # t) (length (pre @ [c])) = Some (length (pre @ [c]) + length w)"
    using Cons by (intro Cons.IH) auto
  then show ?case using Cons.prems by (subst scan_end.simps) (simp add: rd_middle)
qed

lemma scan_spaces_ok:
  "c \<noteq> 32 \<Longrightarrow> scan_spaces (pre @ replicate k 32 @ c # t) (length pre) = Some (length pre + k)"
proof (induction k arbitrary: pre)
  case 0
  then show ?case by (subst scan_spaces.simps) (simp add: rd_middle)
next
  case (Suc k)
  have "scan_spaces ((pre @ [32]) @ replicate k 32 @ c # t) (length (pre @ [32])) = Some (length (pre @ [32]) + k)"
    using Suc by (intro Suc.IH) auto
  then show ?case by (subst scan_spaces.simps) (simp add: rd_middle)
qed

lemma scan_args_stop:
  "scan_args (pre @ replicate k 32 @ 0 # t) (length pre) args = Some (pre @ replicate k 32 @ 0 # t, args)"
proof -
  have "wr (pre @ replicate k 32 @ 0 # t) (int (length pre + k)) 0 = Some (pre @ replicate k 32 @ 0 # t)"
      "rd (pre @ replicate k 32 @ 0 # t) (int (length pre + k)) = Some 0"
    using wr_middle [of "pre @ replicate k 32" 0 t 0] rd_middle [of "pre @ replicate k 32" 0 t] by simp_all
  then show ?thesis using scan_spaces_ok [of 0 pre k t] by (subst scan_args.simps) simp
qed

lemma scan_args_word:
  assumes "w \<noteq> []" "\<forall>c \<in> set w. c \<noteq> 0 \<and> c \<noteq> 32 \<and> c \<noteq> 10" "length args < 1024" "e \<in> {0, 32}"
  shows "scan_args (pre @ replicate k 32 @ w @ e # t) (length pre) args =
    (if e = 32 then scan_args (pre @ replicate k 32 @ w @ 0 # t) (length pre + k + length w + 1) (args @ [length pre + k])
     else scan_args (pre @ replicate k 32 @ w @ e # t) (length pre + k + length w) (args @ [length pre + k]))"
proof -
  let ?b = "pre @ replicate k 32 @ w @ e # t" and ?i = "length pre + k"
  obtain c w' where c: "w = c # w'" using assms(1) by (cases w) auto
  have "scan_spaces ?b (length pre) = Some ?i" using scan_spaces_ok [of c pre k "w' @ e # t"] assms(2) c by simp
  moreover have "rd ?b (int ?i) = Some c" using rd_middle [of "pre @ replicate k 32" c "w' @ e # t"] c by simp
  moreover have "scan_end ?b ?i = Some (?i + length w)" using scan_end_ok [of w e "pre @ replicate k 32" t] assms(2,4) by auto
  moreover have "rd ?b (int (?i + length w)) = Some e" "wr ?b (int (?i + length w)) 0 = Some (pre @ replicate k 32 @ w @ 0 # t)"
    using rd_middle [of "pre @ replicate k 32 @ w" e t] wr_middle [of "pre @ replicate k 32 @ w" e t 0] by (simp_all add: add.assoc)
  moreover have "c \<noteq> 0" "c \<noteq> 10" "\<not> 1024 \<le> length args" using assms(2,3) c by auto
  ultimately show ?thesis using assms(4) by (subst scan_args.simps) auto
qed

lemma length_words: "length (words s) \<le> length s"
proof (induction s rule: words.induct)
  case (1 s)
  let ?t = "dropWhile (\<lambda>c. c = 32) s"
  show ?case
  proof (cases ?t)
    case Nil
    then show ?thesis by (simp add: words.simps [of s])
  next
    case (Cons c t)
    have "length ?t \<le> length s" by (rule length_dropWhile_le)
    moreover have "length (dropWhile (\<lambda>c. c \<noteq> 32) ?t) < length ?t"
      using Cons dropWhile_head [OF Cons] length_dropWhile_le [of "\<lambda>c. c \<noteq> 32" t] by simp
    moreover have "length (words (dropWhile (\<lambda>c. c \<noteq> 32) ?t)) \<le> length (dropWhile (\<lambda>c. c \<noteq> 32) ?t)" using 1 Cons by simp
    ultimately show ?thesis using Cons words.simps [of s] by (simp add: Let_def)
  qed
qed

lemma spaces_split: "r = replicate (length (takeWhile (\<lambda>c. c = 32) r)) (32 :: u8) @ dropWhile (\<lambda>c. c = 32) r"
proof -
  have "takeWhile (\<lambda>c. c = 32) r = replicate (length (takeWhile (\<lambda>c. c = 32) r)) 32"
    by (rule replicate_eqI) (auto dest: set_takeWhileD)
  then show ?thesis using takeWhile_dropWhile_id [of "\<lambda>c. c = 32" r] by metis
qed

lemma scan_args_words:
  assumes "0 \<notin> set r" "10 \<notin> set r" "length args + length r \<le> 1024"
  shows "\<exists>r' is. scan_args (pre @ r @ 0 # t) (length pre) args = Some (pre @ r' @ 0 # t, args @ is) \<and> length r' = length r \<and>
    map (\<lambda>i. cstr (drop i (pre @ r' @ 0 # t))) is = words r"
  using assms
proof (induction "length r" arbitrary: r pre args rule: less_induct)
  case less
  define k where "k = length (takeWhile (\<lambda>c. c = 32) r)"
  define r1 where "r1 = dropWhile (\<lambda>c. c = 32) r"
  have r: "r = replicate k 32 @ r1" using spaces_split [of r] by (simp add: k_def r1_def)
  show ?case
  proof (cases "r1 = []")
    case True
    then have "words r = []" by (auto simp: r words_eq_Nil)
    then show ?thesis using scan_args_stop [of pre k t args] True r by (intro exI [of _ r] exI [of _ "[]"]) simp
  next
    case False
    define w where "w = takeWhile (\<lambda>c. c \<noteq> 32) r1"
    define r2 where "r2 = dropWhile (\<lambda>c. c \<noteq> 32) r1"
    have r1: "r1 = w @ r2" by (simp add: w_def r2_def)
    have "hd r1 \<noteq> 32" using hd_dropWhile [of "\<lambda>c. c = 32" r] False by (simp add: r1_def)
    then have w: "w \<noteq> []" "\<forall>c \<in> set w. c \<noteq> 0 \<and> c \<noteq> 32 \<and> c \<noteq> 10"
      using False less.prems(1,2) by (cases r1; auto simp: w_def r dest: set_takeWhileD)+
    have ws: "words r = w # words r2" using False words.simps [of r] by (simp add: Let_def r1_def w_def r2_def)
    have len: "length args < 1024" using less.prems(3) w(1) r r1 by (cases w) auto
    have cw: "cstr (w @ 0 # u) = w" for u using w(2) by (intro cstr_append_zero) auto
    show ?thesis
    proof (cases r2)
      case Nil
      let ?b = "pre @ replicate k 32 @ w @ 0 # t"
      have "scan_args (pre @ r @ 0 # t) (length pre) args = scan_args ?b (length pre + k + length w) (args @ [length pre + k])"
        using scan_args_word [OF w len, of 0 pre k t] Nil by (simp add: r r1)
      also have "\<dots> = Some (?b, args @ [length pre + k])"
        using scan_args_stop [of "pre @ replicate k 32 @ w" 0 t "args @ [length pre + k]"] by (simp add: add.assoc)
      finally show ?thesis
        using Nil ws cw [of t] by (intro exI [of _ r] exI [of _ "[length pre + k]"]) (simp add: r r1)
    next
      case (Cons e r3)
      then have "e = 32" using hd_dropWhile [of "\<lambda>c. c \<noteq> 32" r1] by (simp add: r2_def)
      then have r2: "r2 = 32 # r3" using Cons by simp
      let ?pre = "pre @ replicate k 32 @ w @ [0]"
      have lr: "length r = k + length w + 1 + length r3" by (simp add: r r1 r2)
      obtain r' js where r': "scan_args (?pre @ r3 @ 0 # t) (length ?pre) (args @ [length pre + k]) =
          Some (?pre @ r' @ 0 # t, (args @ [length pre + k]) @ js)" "length r' = length r3"
          "map (\<lambda>i. cstr (drop i (?pre @ r' @ 0 # t))) js = words r3"
        using less.hyps [of r3 "args @ [length pre + k]" ?pre] less.prems lr w(1) by (auto simp: r r1 r2 Suc_le_eq)
      have "scan_args (pre @ r @ 0 # t) (length pre) args = Some (pre @ (replicate k 32 @ w @ 0 # r') @ 0 # t, args @ (length pre + k) # js)"
        using scan_args_word [OF w len, of 32 pre k "r3 @ 0 # t"] r'(1) by (simp add: r r1 r2 add.assoc)
      moreover have "words r = w # words r3" using ws r2 words_space [of r3] by simp
      ultimately show ?thesis
        using r'(2,3) lr cw [of "r' @ 0 # t"]
        by (intro exI [of _ "replicate k 32 @ w @ 0 # r'"] exI [of _ "(length pre + k) # js"]) simp
    qed
  qed
qed

text \<open>
  What the emulation takes for the name of the program and for its arguments: the text before the first
  space, and the words after it.
\<close>

abbreviation (input) before_space :: "u8 list \<Rightarrow> u8 list" where "before_space c \<equiv> takeWhile (\<lambda>x. x \<noteq> 32) c"
abbreviation (input) after_space :: "u8 list \<Rightarrow> u8 list" where "after_space c \<equiv> dropWhile (\<lambda>x. x \<noteq> 32) c"

lemma execute_words:
  assumes "0 \<notin> set c" "10 \<notin> set c" "length c \<le> 1023" "length buf = 1026"
  defines "prog \<equiv> [46, 47] @ before_space c"
  shows "emu_execute X buf (c @ 0 # u) s = do {
    (st, w) \<leftarrow> lx_execv X prog (prog # words (after_space c)) (linux_state s);
    Some (status_value st, s\<lparr>linux_state := w\<rparr>) }"
proof -
  note c = assms(1-3)
  let ?b = "[46, 47] @ c @ 0 # drop (length c + 3) buf"
  define w where "w = takeWhile (\<lambda>c. c \<noteq> 32) c"
  define r where "r = dropWhile (\<lambda>c. c \<noteq> 32) c"
  have wr: "c = w @ r" by (simp add: w_def r_def)
  have w: "\<forall>c \<in> set w. c \<noteq> 0 \<and> c \<noteq> 32 \<and> c \<noteq> 10" using c(1,2) by (auto simp: w_def dest: set_takeWhileD)
  have len: "ece391_strlen (c @ 0 # u) = Some (length c)" "take (Suc (length c)) (c @ 0 # u) = c @ [0]"
    using c(1) by (simp_all add: ece391_strlen_cstr cstr_append_zero)
  have "put_bytes (buf[0 := 46, 1 := 47]) 2 (c @ [0]) = Some ?b"
  proof -
    have "take 2 (buf[0 := 46, 1 := 47]) = [46, 47]" using assms(4) by (simp add: list_eq_iff_nth_eq nth_list_update less_2_cases_iff)
    then show ?thesis using assms(4) c(3) by (simp add: put_bytes_def numeral_3_eq_3)
  qed
  then have fill: "wr buf 0 46 = Some (buf[0 := 46])" "wr (buf[0 := 46]) 1 47 = Some (buf[0 := 46, 1 := 47])"
      "put_bytes (buf[0 := 46, 1 := 47]) 2 (c @ [0]) = Some ?b"
    using assms(4) by (simp_all add: wr_in)
  have cp: "cstr (prog @ 0 # v) = prog" for v using w by (intro cstr_append_zero) (auto simp: prog_def w_def [symmetric])
  show ?thesis
  proof (cases r)
    case Nil
    then have b: "?b = [46, 47] @ w @ 0 # drop (length c + 3) buf" using wr by simp
    have sc: "scan_end ?b 2 = Some (2 + length w)" using scan_end_ok [OF w, of 0 "[46, 47]"] unfolding b by (simp add: numeral_2_eq_2)
    have rdb: "rd ?b (int (2 + length w)) = Some 0" using rd_middle [of "[46, 47] @ w" 0] unfolding b by simp
    have "cstr ?b = prog" using cp unfolding b by (simp add: prog_def w_def [symmetric])
    then show ?thesis
      using len fill sc rdb Nil c(3) unfolding emu_execute_def by (simp add: prog_def w_def [symmetric] r_def [symmetric] words_Nil)
  next
    case (Cons e r1)
    then have e: "e = 32" using hd_dropWhile [of "\<lambda>c. c \<noteq> 32" c] by (simp add: r_def)
    then have b: "?b = [46, 47] @ w @ 32 # r1 @ 0 # drop (length c + 3) buf" using wr Cons by simp
    let ?pre = "[46, 47] @ w @ [0]" and ?t = "drop (length c + 3) buf"
    have sc: "scan_end ?b 2 = Some (2 + length w)" using scan_end_ok [OF w, of 32 "[46, 47]"] unfolding b by (simp add: numeral_2_eq_2)
    have rdb: "rd ?b (int (2 + length w)) = Some 32" using rd_middle [of "[46, 47] @ w" 32] unfolding b by simp
    have wrb: "wr ?b (int (2 + length w)) 0 = Some (?pre @ r1 @ 0 # ?t)" using wr_middle [of "[46, 47] @ w" 32] unfolding b by simp
    have "0 \<notin> set r1" "10 \<notin> set r1" "length [0 :: nat] + length r1 \<le> 1024" using c wr Cons by auto
    then obtain r' js where sa: "scan_args (?pre @ r1 @ 0 # ?t) (length ?pre) [0] = Some (?pre @ r' @ 0 # ?t, [0] @ js)"
        "map (\<lambda>i. cstr (drop i (?pre @ r' @ 0 # ?t))) js = words r1"
      using scan_args_words [of r1 "[0]" ?pre ?t] by blast
    have wr1: "words r = words r1" using Cons e by simp
    have "length js = length (words r1)" using arg_cong [OF sa(2), of length] by simp
    then have nargs: "\<not> 1024 \<le> length ([0] @ js)" using length_words [of r1] c(3) wr Cons by simp
    have c0: "cstr (?pre @ r' @ 0 # ?t) = prog" using cp by (simp add: prog_def w_def [symmetric])
    have "(2 + length w) + 1 = length ?pre" by simp
    then show ?thesis
      using len fill sc rdb wrb sa nargs c0 c(3) wr1 unfolding emu_execute_def
      by (simp add: prog_def w_def [symmetric] r_def [symmetric])
  qed
qed

lemma put_bytes_append: "length w \<le> length buf \<Longrightarrow> put_bytes (pre @ buf) (length pre) w = Some (pre @ w @ drop (length w) buf)"
  by (simp add: put_bytes_def)

lemma join_args_join:
  assumes "length (join ws) < n" "n \<le> length buf"
  shows "\<exists>t. join_args ws (pre @ buf) (length pre) (int n) = Some (0, pre @ join ws @ 0 # t)"
  using assms
proof (induction ws arbitrary: pre buf n rule: join.induct)
  case 1
  then obtain b t where "buf = b # t" by (cases buf) auto
  then show ?case using 1 by (simp add: wr_middle)
next
  case (2 w)
  have "put_bytes (pre @ buf) (length pre) (w @ [0]) = Some (pre @ w @ 0 # drop (Suc (length w)) buf)"
    using 2 put_bytes_append [of "w @ [0]" buf pre] by simp
  moreover have "wr (pre @ w @ 0 # drop (Suc (length w)) buf) (int (length pre + length w)) 0 = Some (pre @ w @ 0 # drop (Suc (length w)) buf)"
    using wr_middle [of "pre @ w" 0 _ 0] by simp
  ultimately show ?case using 2 by (simp add: Let_def)
next
  case (3 w v vs)
  let ?buf = "drop (Suc (length w)) buf" and ?pre = "pre @ w @ [32]"
  have "put_bytes (pre @ buf) (length pre) (w @ [0]) = Some (pre @ w @ 0 # ?buf)"
    using 3(2,3) put_bytes_append [of "w @ [0]" buf pre] by simp
  moreover have "wr (pre @ w @ 0 # ?buf) (int (length pre + length w)) 32 = Some (?pre @ ?buf)"
    using wr_middle [of "pre @ w" 0 _ 32] by simp
  moreover have "length (join (v # vs)) < n - length w - 1" "n - length w - 1 \<le> length ?buf" using 3(2,3) by simp_all
  from 3(1) [OF this, of ?pre] obtain t where "join_args (v # vs) (?pre @ ?buf) (length ?pre) (int (n - length w - 1)) = Some (0, ?pre @ join (v # vs) @ 0 # t)"
    by blast
  moreover have "int (n - length w - 1) = int n - int (length w) - 1" using 3(2) by simp
  ultimately show ?case using 3(2) by (subst join_args.simps(2)) (simp add: Let_def diff_diff_eq add.commute [of _ 1] del: join_args.simps)
qed

text \<open>
  C35: The command line goes through the emulation. For a line of at most 1023 bytes without a newline,
  \<open>execute\<close> starts, in the current directory, the program whose name is the text in front of the first space,
  with the words after it as its arguments; in that program \<open>getargs\<close> puts these words together again, separated
  by single spaces. If the line does not start with a space, this is the first word of the line with the other
  words, and for less than 128 bytes it is what the kernel's \<open>parse_command\<close> leaves in its two arrays. A line that
  starts with a space, which the kernel accepts, makes the emulation execute \<open>./\<close> with all the words as arguments.
\<close>

theorem args_roundtrip:
  assumes "0 \<notin> set c" "10 \<notin> set c" "length c \<le> 1023" "length buf = 1026"
    and "length (join (words (after_space c))) < n" "n \<le> length abuf"
  shows "\<exists>name rest. emu_execute X buf (c @ 0 # u) s = do {
        (st, w) \<leftarrow> lx_execv X (bytes ''./'' @ name) ((bytes ''./'' @ name) # rest) (linux_state s);
        Some (status_value st, s\<lparr>linux_state := w\<rparr>) } \<and>
    (\<forall>s' :: 'w emu. argv s' = (bytes ''./'' @ name) # rest \<longrightarrow> (\<exists>t. emu_getargs abuf (int n) s' = Some (0, join rest @ 0 # t, s'))) \<and>
    (c \<noteq> [] \<and> hd c \<noteq> 32 \<longrightarrow> words c = name # rest) \<and> (c \<noteq> [] \<and> hd c = 32 \<longrightarrow> name = [] \<and> rest = words c) \<and>
    (c \<noteq> [] \<and> hd c \<noteq> 32 \<and> length c < 128 \<longrightarrow>
       (\<exists>cmd' args' pre'. parse_command (replicate 128 0) (replicate 128 0) pre (c @ 0 # u) = Some (cmd', args', pre') \<and>
          cstr cmd' = name \<and> cstr args' = join rest))"
proof -
  let ?n = "before_space c" and ?r = "words (after_space c)"
  have dots: "bytes ''./'' = [46, 47]" by (simp add: bytes_def of_char_def)
  have "\<exists>t. join_args ?r abuf 0 (int n) = Some (0, join ?r @ 0 # t)"
    using join_args_join [OF assms(5,6), of "[]"] by simp
  then have getargs: "\<exists>t. emu_getargs abuf (int n) s' = Some (0, join ?r @ 0 # t, s')" if "argv s' = (bytes ''./'' @ ?n) # ?r"
    for s' :: "'w emu" using that by (auto simp: emu_getargs_def)
  have plain: "words c = ?n # ?r" if "c \<noteq> []" "hd c \<noteq> 32" using that by (cases c) (simp_all add: words_word)
  have space: "?n = [] \<and> ?r = words c" if "c \<noteq> []" "hd c = 32" using that by (cases c) simp_all
  have cs: "cstr (c @ 0 # u) = c" using assms(1) by (rule cstr_append_zero)
  have parse: "\<exists>cmd' args' pre'. parse_command (replicate 128 0) (replicate 128 0) pre (c @ 0 # u) = Some (cmd', args', pre') \<and>
      cstr cmd' = ?n \<and> cstr args' = join ?r" if "c \<noteq> []" "hd c \<noteq> 32" "length c < 128"
    using parse_command_words [of "c @ 0 # u" "replicate 128 0" "replicate 128 0" pre] plain [OF that(1,2)] that(3)
    unfolding cs by fastforce
  show ?thesis
    using execute_words [OF assms(1-4), of X u s] getargs plain space parse unfolding dots
    by (intro exI [of _ ?n] exI [of _ ?r]) simp
qed

subsection \<open>Listing the directory\<close>
















subsection \<open>A small Linux\<close>

text \<open>The properties applied: a terminal that keeps what was written, one directory, and programs that all succeed.\<close>

definition small_linux :: "(u8 list \<times> u8 list list) linux" where
  "small_linux =
     \<lparr>lx_read = (\<lambda>fd n w. Some (0, [], w)), lx_write = (\<lambda>fd bs n (out, es). Some (n, out @ take (nat n) bs, es)),
      lx_open = (\<lambda>name w. Some (- 2, w)), lx_close = (\<lambda>fd w. Some (0, w)),
      lx_execv = (\<lambda>path args w. Some (Some (Exited 0), w)), lx_opendir = (\<lambda>w. (Some 0, w)),
      lx_readdir = (\<lambda>d (out, es). case es of [] \<Rightarrow> (None, out, []) | e # es \<Rightarrow> (Some e, out, es)),
      lx_closedir = (\<lambda>d w. w), lx_open_null = (\<lambda>w. (3, w)), lx_open_mem = (\<lambda>w. (4, w)),
      lx_mmap = (\<lambda>fd w. (None, w)), lx_perror = (\<lambda>msg w. w)\<rparr>"

definition small_state :: "(u8 list \<times> u8 list list) emu" where
  "small_state = \<lparr>dir_fd = - 1, dir = None, mem_fd = - 1, argv = [], screen_start = 0, linux_state = ([], [bytes ''a'', bytes ''bc''])\<rparr>"



theorem args_roundtrip_witness:
  "(\<exists>rest. emu_execute small_linux (replicate 1026 0) (bytes ''grep  og notes'' @ [0]) small_state = Some (0, small_state) \<and>
     words (bytes ''grep  og notes'') = bytes ''grep'' # rest \<and>
     (\<exists>t. emu_getargs (replicate 1024 0) 1024 (small_state\<lparr>argv := bytes ''./grep'' # rest\<rparr>) =
        Some (0, bytes ''og notes'' @ 0 # t, small_state\<lparr>argv := bytes ''./grep'' # rest\<rparr>)))"
proof -
  let ?c = "bytes ''grep  og notes''"
  have w: "words ?c = [bytes ''grep'', bytes ''og'', bytes ''notes'']" "words (after_space ?c) = [bytes ''og'', bytes ''notes'']"
    by (simp_all add: bytes_def of_char_def words.simps)
  have c: "0 \<notin> set ?c" "10 \<notin> set ?c" "length ?c \<le> 1023" "?c \<noteq> []" "hd ?c \<noteq> 32" by (simp_all add: bytes_def of_char_def)
  have b: "length (replicate 1026 (0 :: u8)) = 1026" "1024 \<le> length (replicate 1024 (0 :: u8))"
      "length (join (words (after_space ?c))) < 1024"
    unfolding w by (simp_all add: bytes_def)
  obtain name rest where R: "emu_execute small_linux (replicate 1026 0) (?c @ 0 # []) small_state = do {
        (st, w) \<leftarrow> lx_execv small_linux (bytes ''./'' @ name) ((bytes ''./'' @ name) # rest) (linux_state small_state);
        Some (status_value st, small_state\<lparr>linux_state := w\<rparr>) }"
      "\<forall>s' :: (u8 list \<times> u8 list list) emu. argv s' = (bytes ''./'' @ name) # rest \<longrightarrow>
         (\<exists>t. emu_getargs (replicate 1024 0) (int 1024) s' = Some (0, join rest @ 0 # t, s'))" "words ?c = name # rest"
    using args_roundtrip [OF c(1-3) b(1,3,2), of small_linux "[]" small_state 0] c(4,5) by blast
  have n: "bytes ''./'' @ name = bytes ''./grep''" "name = bytes ''grep''" "join rest = bytes ''og notes''"
    using R(3) w(1) by (auto simp: bytes_def of_char_def)
  have "emu_execute small_linux (replicate 1026 0) (?c @ [0]) small_state = Some (0, small_state)"
    using R(1) by (simp add: small_linux_def status_value_def)
  moreover have "\<exists>t. emu_getargs (replicate 1024 0) 1024 (small_state\<lparr>argv := bytes ''./grep'' # rest\<rparr>) =
      Some (0, bytes ''og notes'' @ 0 # t, small_state\<lparr>argv := bytes ''./grep'' # rest\<rparr>)"
    using R(2) [rule_format, of "small_state\<lparr>argv := bytes ''./grep'' # rest\<rparr>"] n by simp
  ultimately show ?thesis using R(3) n(2) by blast
qed

end
